(* ===== verification/Prelude.thy ===== *)
theory Prelude
  imports Main "HOL-Library.Word" "HOL-Library.Multiset" "HOL-Library.AList"
begin

text \<open>
  Shared vocabulary of the development: the machine types of the C++ sources, the exceptions
  that its operations can raise, the \<open>Status\<close> class of \<^verbatim>\<open>src/common/error.h\<close>, and generic facts on
  lists and unordered maps that several components use.

  Conventions.
  \<^item> \<open>int32_t\<close>, \<open>uint32_t\<close>, \<open>int64_t\<close>, \<open>uint64_t\<close>, \<open>uint16_t\<close> and \<open>uint8_t\<close> are words of that
    width; a cast between the signed and the unsigned type of one width is the identity, and
    \<open>sint\<close> reads the signed value.
  \<^item> \<open>size_t\<close> is \<^typ>\<open>nat\<close>, with the reduction modulo \<open>2^64\<close> written out where the code adds to it.
  \<^item> \<open>std::string\<close> is \<^typ>\<open>string\<close> (a list of 8-bit characters), \<open>std::vector<uint8_t>\<close> a list of bytes.
  \<^item> \<open>std::unordered_map\<close> is an association list with distinct keys; where the code iterates over one,
    the iteration order of that call is an argument (predicate \<open>iterates\<close>).
\<close>

section \<open>Machine types\<close>

type_synonym byte = "8 word"
type_synonym int16 = "16 word"
type_synonym int32 = "32 word"
type_synonym int64 = "64 word"

abbreviation size_max :: nat where
  "size_max \<equiv> 2 ^ 64"

section \<open>Exceptions\<close>

text \<open>
  What a C++ operation of the sources can raise instead of returning. \<open>Undefined\<close> stands for
  undefined behaviour of the language (an access out of bounds, a division by zero): the model
  makes it a value of its own, so that a theorem saying that an operation returns also says that
  the code does not run into it.
\<close>

datatype exn =
    ReadPastEnd        \<comment> \<open>\<open>std::runtime_error("InputBuffer: read past end")\<close>\<close>
  | LengthError        \<comment> \<open>\<open>std::length_error\<close>, a container asked for a negative length\<close>
  | InvalidArgument    \<comment> \<open>\<open>std::invalid_argument\<close> of \<open>std::stoll\<close>\<close>
  | OutOfRange         \<comment> \<open>\<open>std::out_of_range\<close> of \<open>std::stoll\<close>\<close>
  | BadFunctionCall    \<comment> \<open>\<open>std::bad_function_call\<close>, an empty \<open>std::function\<close> is called\<close>
  | FilesystemError    \<comment> \<open>\<open>std::filesystem::filesystem_error\<close>\<close>
  | Undefined          \<comment> \<open>undefined behaviour\<close>

type_synonym 'a result = "exn + 'a"

section \<open>Status\<close>

datatype code = kOk | kIOError | kCorrupt | kNotFound | kInvalidArg

record Status =
  status_code :: code
  status_msg :: string

definition Status_OK :: Status where
  "Status_OK = \<lparr>status_code = kOk, status_msg = ''''\<rparr>"

definition Status_IOError :: "string \<Rightarrow> Status" where
  "Status_IOError msg = \<lparr>status_code = kIOError, status_msg = msg\<rparr>"

definition Status_Corrupt :: "string \<Rightarrow> Status" where
  "Status_Corrupt msg = \<lparr>status_code = kCorrupt, status_msg = msg\<rparr>"

definition Status_NotFound :: "string \<Rightarrow> Status" where
  "Status_NotFound msg = \<lparr>status_code = kNotFound, status_msg = msg\<rparr>"

definition Status_InvalidArg :: "string \<Rightarrow> Status" where
  "Status_InvalidArg msg = \<lparr>status_code = kInvalidArg, status_msg = msg\<rparr>"

definition Status_ok :: "Status \<Rightarrow> bool" where
  "Status_ok s = (status_code s = kOk)"

section \<open>Collections of rewrite rules\<close>

named_theorems codec_intros \<open>read-back rules of the serialised types\<close>
named_theorems status_simps \<open>the constructors of \<open>Status\<close> and their test\<close>

lemma Status_ok_simps [status_simps, simp]:
  "Status_ok Status_OK" "\<not> Status_ok (Status_IOError m)" "\<not> Status_ok (Status_Corrupt m)"
  "\<not> Status_ok (Status_NotFound m)" "\<not> Status_ok (Status_InvalidArg m)"
  by (simp_all add: Status_ok_def Status_OK_def Status_IOError_def Status_Corrupt_def
      Status_NotFound_def Status_InvalidArg_def)

section \<open>Unordered maps\<close>

text \<open>\<open>std::unordered_map\<close>: an association list with distinct keys whose order has no meaning.
  \<open>um_put\<close> is \<open>m[k] = v\<close>, \<open>um_del\<close> is \<open>m.erase(k)\<close>. A loop over the map sees its pairs in an order that
  the standard leaves open: \<open>iterates ord m\<close> says that \<open>ord\<close> is such an order.\<close>

type_synonym ('k, 'v) umap = "('k \<times> 'v) list"

definition um_get :: "('k, 'v) umap \<Rightarrow> 'k \<Rightarrow> 'v option" where
  "um_get m = map_of m"

definition um_put :: "'k \<Rightarrow> 'v \<Rightarrow> ('k, 'v) umap \<Rightarrow> ('k, 'v) umap" where
  "um_put k v m = AList.update k v m"

definition um_del :: "'k \<Rightarrow> ('k, 'v) umap \<Rightarrow> ('k, 'v) umap" where
  "um_del k m = AList.delete k m"

definition um_ok :: "('k, 'v) umap \<Rightarrow> bool" where
  "um_ok m \<longleftrightarrow> distinct (map fst m)"

definition iterates :: "('k \<times> 'v) list \<Rightarrow> ('k, 'v) umap \<Rightarrow> bool" where
  "iterates ord m \<longleftrightarrow> mset ord = mset m"

lemma um_get_Nil [simp]: "um_get [] k = None"
  by (simp add: um_get_def)

lemma um_get_put [simp]: "um_get (um_put k v m) k' = (if k' = k then Some v else um_get m k')"
  by (simp add: um_get_def um_put_def update_conv)

lemma um_get_del [simp]: "um_get (um_del k m) k' = (if k' = k then None else um_get m k')"
  by (simp add: um_get_def um_del_def delete_conv)

lemma um_ok_simps [simp]: "um_ok []" "um_ok m \<Longrightarrow> um_ok (um_put k v m)" "um_ok m \<Longrightarrow> um_ok (um_del k m)"
  by (simp_all add: um_ok_def um_put_def um_del_def distinct_update distinct_delete)

lemma um_put_nonempty [simp]: "um_put k v m \<noteq> []"
  by (simp add: um_put_def update_nonempty)

lemma um_get_set: "um_get m k = Some v \<Longrightarrow> (k, v) \<in> set m"
  by (simp add: um_get_def map_of_SomeD)

lemma um_get_iff: "um_ok m \<Longrightarrow> um_get m k = Some v \<longleftrightarrow> (k, v) \<in> set m"
  by (simp add: um_get_def um_ok_def map_of_eq_Some_iff)

lemma iterates_set: "iterates ord m \<Longrightarrow> set ord = set m"
  unfolding iterates_def by (rule mset_eq_setD)

lemma iterates_length: "iterates ord m \<Longrightarrow> length ord = length m"
  unfolding iterates_def by (rule mset_eq_length)

lemma iterates_distinct: "iterates ord m \<Longrightarrow> um_ok m \<Longrightarrow> distinct (map fst ord)"
  unfolding iterates_def um_ok_def by (metis mset_eq_imp_distinct_iff mset_map)

lemma iterates_self [simp]: "iterates m m"
  by (simp add: iterates_def)

section \<open>Lists\<close>

lemma take_drop_append3 [simp]:
  "take (length bs) (drop (length pre) (pre @ bs @ post)) = bs"
  by simp

lemma find_append:
  "List.find P (xs @ ys) = (case List.find P xs of None \<Rightarrow> List.find P ys | Some x \<Rightarrow> Some x)"
  by (induction xs) auto

lemma find_SomeD: "List.find P xs = Some x \<Longrightarrow> x \<in> set xs \<and> P x"
  by (auto simp: find_Some_iff)

text \<open>
  \<open>modify_first P f xs\<close> applies \<open>f\<close> to the first element of \<open>xs\<close> that satisfies \<open>P\<close>: what an
  assignment through a pointer into a vector does when the pointer was found by a linear search.
\<close>

fun modify_first :: "('a \<Rightarrow> bool) \<Rightarrow> ('a \<Rightarrow> 'a) \<Rightarrow> 'a list \<Rightarrow> 'a list" where
  "modify_first P f [] = []"
| "modify_first P f (x # xs) = (if P x then f x # xs else x # modify_first P f xs)"

text \<open>\<open>remove_first P xs\<close> erases the first element of \<open>xs\<close> that satisfies \<open>P\<close>.\<close>

fun remove_first :: "('a \<Rightarrow> bool) \<Rightarrow> 'a list \<Rightarrow> 'a list" where
  "remove_first P [] = []"
| "remove_first P (x # xs) = (if P x then xs else x # remove_first P xs)"

lemma modify_first_id: "List.find P xs = None \<Longrightarrow> modify_first P f xs = xs"
  by (induction xs) (auto split: if_splits)

lemma remove_first_id: "List.find P xs = None \<Longrightarrow> remove_first P xs = xs"
  by (induction xs) (auto split: if_splits)

lemma set_remove_first_subset: "set (remove_first P xs) \<subseteq> set xs"
  by (induction xs) auto

lemma map_modify_first:
  "(\<And>x. x \<in> set xs \<Longrightarrow> P x \<Longrightarrow> g (f x) = g x) \<Longrightarrow> map g (modify_first P f xs) = map g xs"
  by (induction xs) auto

lemma set_modify_first:
  "y \<in> set (modify_first P f xs) \<Longrightarrow> y \<in> set xs \<or> (\<exists>x. List.find P xs = Some x \<and> y = f x)"
  by (induction xs) (auto split: if_splits)

lemma distinct_map_remove_first:
  "distinct (map g xs) \<Longrightarrow> distinct (map g (remove_first P xs))"
proof (induction xs)
  case (Cons x xs)
  have "g ` set (remove_first P xs) \<subseteq> g ` set xs"
    using set_remove_first_subset by (rule image_mono)
  with Cons show ?case by auto
qed simp

text \<open>Looking a named element up after a change, when the names of the elements are distinct.\<close>

lemma find_modify_first:
  assumes "\<And>x. x \<in> set xs \<Longrightarrow> g x = k \<Longrightarrow> g (f x) = k"
  shows "List.find (\<lambda>x. g x = k') (modify_first (\<lambda>x. g x = k) f xs)
       = (if k' = k then map_option f (List.find (\<lambda>x. g x = k) xs)
          else List.find (\<lambda>x. g x = k') xs)"
  using assms by (induction xs) auto

lemma find_None_map: "List.find (\<lambda>x. g x = k) xs = None \<longleftrightarrow> k \<notin> set (map g xs)"
  by (auto simp: find_None_iff)

lemma find_distinct:
  "distinct (map g xs) \<Longrightarrow> List.find (\<lambda>x. g x = k) xs = Some y \<longleftrightarrow> y \<in> set xs \<and> g y = k"
  by (induction xs) auto

lemma find_remove_first:
  assumes "distinct (map g xs)"
  shows "List.find (\<lambda>x. g x = k') (remove_first (\<lambda>x. g x = k) xs)
       = (if k' = k then None else List.find (\<lambda>x. g x = k') xs)"
  using assms
proof (induction xs)
  case (Cons x xs)
  then have "List.find (\<lambda>y. g y = g x) xs = None" by (simp add: find_None_map)
  with Cons show ?case by auto
qed simp

text \<open>A byte vector after \<open>resize(n)\<close> and a read that stored the bytes \<open>got\<close> at its front.\<close>

definition fill :: "nat \<Rightarrow> byte list \<Rightarrow> byte list \<Rightarrow> byte list" where
  "fill n got buf = got @ drop (length got) (take n (buf @ replicate n 0))"

lemma fill_all [simp]: "length got = n \<Longrightarrow> fill n got buf = got"
  by (simp add: fill_def)

section \<open>Words\<close>

lemma unat_bound: "unat (w :: 'a::len word) < 2 ^ LENGTH('a)"
  by simp

lemma unat_byte_less [simp]: "unat (b :: byte) < 256"
  using unat_bound [of b] by simp

lemma sint_of_nat:
  "n < 2 ^ (LENGTH('a::len) - 1) \<Longrightarrow> sint (word_of_nat n :: 'a word) = int n"
  by (simp add: signed_of_nat signed_take_bit_int_eq_self_iff order.trans [of _ 0])

end
