(* ===== verification/InodeTree.thy ===== *)
theory InodeTree
  imports Prelude "HOL-Library.Sublist"
begin

text \<open>
  Model of \<^verbatim>\<open>src/ndfs/inode_tree.h\<close>: the in-memory tree of directories and files that the NameNode
  keeps. A node is a value of type \<open>INode\<close>; a pointer into the tree is the list of path components
  that leads to it, and an assignment through such a pointer is \<open>update_at\<close>. Two fields of the C++
  struct are written by its constructor and read by no code (\<open>modification_time\<close>, \<open>parent\<close>); they
  are left out.

  The abstract view of a tree is a map from paths to entries (\<open>namespace\<close>). The lemmas show that every
  operation keeps the well-formedness of the tree (\<open>wf_tree\<close>: sibling names are distinct and are names,
  files have no children, directories no blocks) and implements the expected change of the map. The
  locale \<open>file_namespace\<close> states this contract for the clients of the tree.
\<close>

section \<open>Data\<close>

datatype INodeType = kDirectory | kFile

datatype INode = INode
  (inode_type: INodeType)
  (inode_name: string)
  (inode_blocks: "int64 list")
  (inode_children: "INode list")

type_synonym path = "string list"

definition InodeTree_new :: INode where
  "InodeTree_new = INode kDirectory '''' [] []"

section \<open>Operations\<close>

subsection \<open>Splitting a path\<close>

fun split_loop :: "string \<Rightarrow> string \<Rightarrow> string list \<Rightarrow> string list" where
  "split_loop [] current parts = (if current \<noteq> [] then parts @ [current] else parts)"
| "split_loop (c # cs) current parts =
     (if c = CHR ''/''
      then (if current \<noteq> [] then split_loop cs [] (parts @ [current])
            else split_loop cs current parts)
      else split_loop cs (current @ [c]) parts)"

definition SplitPath :: "string \<Rightarrow> string list" where
  "SplitPath path =
     (if path = [] \<or> path = ''/'' then []
      else let start = (if path ! 0 = CHR ''/'' then 1 else 0)
           in split_loop (drop start path) [] [])"

subsection \<open>Children of a node\<close>

definition FindChild :: "INode \<Rightarrow> string \<Rightarrow> INode option" where
  "FindChild parent name = List.find (\<lambda>c. inode_name c = name) (inode_children parent)"

definition RemoveChild :: "INode \<Rightarrow> string \<Rightarrow> INode \<times> bool" where
  "RemoveChild parent name =
     (if FindChild parent name \<noteq> None
      then (INode (inode_type parent) (inode_name parent) (inode_blocks parent)
              (remove_first (\<lambda>c. inode_name c = name) (inode_children parent)), True)
      else (parent, False))"

text \<open>\<open>parent->children.push_back(node)\<close>.\<close>

definition add_child :: "INode \<Rightarrow> INode \<Rightarrow> INode" where
  "add_child parent node =
     INode (inode_type parent) (inode_name parent) (inode_blocks parent)
       (inode_children parent @ [node])"

text \<open>The parent after the child that \<open>FindChild\<close> returns has changed to \<open>f\<close> of it.\<close>

definition modify_child :: "INode \<Rightarrow> string \<Rightarrow> (INode \<Rightarrow> INode) \<Rightarrow> INode" where
  "modify_child parent name f =
     INode (inode_type parent) (inode_name parent) (inode_blocks parent)
       (modify_first (\<lambda>c. inode_name c = name) f (inode_children parent))"

subsection \<open>Operations on the tree\<close>

fun get_from :: "INode \<Rightarrow> path \<Rightarrow> INode option" where
  "get_from cur [] = Some cur"
| "get_from cur (part # parts) =
     (case FindChild cur part of None \<Rightarrow> None | Some child \<Rightarrow> get_from child parts)"

definition GetNode :: "INode \<Rightarrow> string \<Rightarrow> INode option" where
  "GetNode root path = get_from root (SplitPath path)"

text \<open>Assignment through the pointer that leads along \<open>parts\<close>.\<close>

fun update_at :: "path \<Rightarrow> (INode \<Rightarrow> INode) \<Rightarrow> INode \<Rightarrow> INode" where
  "update_at [] f cur = f cur"
| "update_at (part # parts) f cur = modify_child cur part (update_at parts f)"

text \<open>\<open>Mkdirs\<close> returns the changed tree, and whether the C++ function returned a node (the one at the
  path) or \<open>nullptr\<close>.\<close>

fun mkdirs_from :: "path \<Rightarrow> INode \<Rightarrow> INode \<times> bool" where
  "mkdirs_from [] cur = (cur, True)"
| "mkdirs_from (part # parts) cur =
     (case FindChild cur part of
        None \<Rightarrow> (let (child, ok) = mkdirs_from parts (INode kDirectory part [] [])
                 in (add_child cur child, ok))
      | Some child \<Rightarrow>
          if inode_type child = kDirectory
          then (let (child', ok) = mkdirs_from parts child
                in (modify_child cur part (\<lambda>_. child'), ok))
          else (cur, False))"

definition tree_Mkdirs :: "INode \<Rightarrow> string \<Rightarrow> INode \<times> bool" where
  "tree_Mkdirs root path = mkdirs_from (SplitPath path) root"

text \<open>\<open>CreateFile\<close> is \<open>None\<close> where the C++ function returns \<open>nullptr\<close>, which leaves the tree as it is.\<close>

fun create_from :: "path \<Rightarrow> string \<Rightarrow> INode \<Rightarrow> INode option" where
  "create_from [] filename parent =
     (if FindChild parent filename \<noteq> None then None
      else Some (add_child parent (INode kFile filename [] [])))"
| "create_from (part # parts) filename parent =
     (case FindChild parent part of
        None \<Rightarrow> None
      | Some child \<Rightarrow>
          if inode_type child \<noteq> kDirectory then None
          else map_option (\<lambda>child'. modify_child parent part (\<lambda>_. child'))
                 (create_from parts filename child))"

definition tree_CreateFile :: "INode \<Rightarrow> string \<Rightarrow> INode option" where
  "tree_CreateFile root path =
     (let parts = SplitPath path
      in if parts = [] then None else create_from (butlast parts) (last parts) root)"

fun delete_from :: "path \<Rightarrow> string \<Rightarrow> INode \<Rightarrow> INode \<times> bool" where
  "delete_from [] name parent = RemoveChild parent name"
| "delete_from (part # parts) name parent =
     (case FindChild parent part of
        None \<Rightarrow> (parent, False)
      | Some child \<Rightarrow>
          (let (child', ok) = delete_from parts name child
           in (modify_child parent part (\<lambda>_. child'), ok)))"

definition tree_Delete :: "INode \<Rightarrow> string \<Rightarrow> INode \<times> bool" where
  "tree_Delete root path =
     (let parts = SplitPath path
      in if parts = [] then (root, False) else delete_from (butlast parts) (last parts) root)"

definition tree_ListDir :: "INode \<Rightarrow> string \<Rightarrow> INode list" where
  "tree_ListDir root path =
     (case GetNode root path of
        None \<Rightarrow> []
      | Some node \<Rightarrow> if inode_type node \<noteq> kDirectory then [] else inode_children node)"

section \<open>Well-formed trees and their abstract view\<close>

definition valid_name :: "string \<Rightarrow> bool" where
  "valid_name n \<longleftrightarrow> n \<noteq> [] \<and> CHR ''/'' \<notin> set n"

fun wf_node :: "INode \<Rightarrow> bool" where
  "wf_node (INode t n bs cs) \<longleftrightarrow>
     distinct (map inode_name cs) \<and> (\<forall>c \<in> set cs. valid_name (inode_name c) \<and> wf_node c)
     \<and> (t = kFile \<longrightarrow> cs = []) \<and> (t = kDirectory \<longrightarrow> bs = [])"

definition wf_tree :: "INode \<Rightarrow> bool" where
  "wf_tree root \<longleftrightarrow> wf_node root \<and> inode_type root = kDirectory \<and> inode_name root = ''''"

datatype entry = Dir | File "int64 list"

definition entry_of :: "INode \<Rightarrow> entry" where
  "entry_of n = (case inode_type n of kDirectory \<Rightarrow> Dir | kFile \<Rightarrow> File (inode_blocks n))"

definition namespace :: "INode \<Rightarrow> path \<rightharpoonup> entry" where
  "namespace root ps = map_option entry_of (get_from root ps)"

text \<open>A file stands on the path or above it.\<close>

definition blocked :: "(path \<rightharpoonup> entry) \<Rightarrow> path \<Rightarrow> bool" where
  "blocked m ps \<longleftrightarrow> (\<exists>k \<le> length ps. \<exists>bs. m (take k ps) = Some (File bs))"

section \<open>Paths\<close>

fun comps :: "string \<Rightarrow> string \<Rightarrow> string list" where
  "comps cur [] = (if cur = [] then [] else [cur])"
| "comps cur (c # cs) =
     (if c = CHR ''/'' then (if cur = [] then [] else [cur]) @ comps [] cs else comps (cur @ [c]) cs)"

lemma split_loop_comps: "split_loop s cur parts = parts @ comps cur s"
  by (induction s cur parts rule: split_loop.induct) auto

lemma SplitPath_comps: "SplitPath path = comps [] path"
proof (cases path)
  case (Cons c cs)
  then show ?thesis by (cases cs) (auto simp: SplitPath_def split_loop_comps)
qed (simp add: SplitPath_def)

lemma comps_slash: "comps cur (a @ CHR ''/'' # b) = comps cur a @ comps [] b"
  by (induction a arbitrary: cur) auto

lemma comps_no_slash: "CHR ''/'' \<notin> set n \<Longrightarrow> comps cur n = (if cur @ n = [] then [] else [cur @ n])"
  by (induction n arbitrary: cur) auto

lemma SplitPath_slash: "SplitPath (a @ CHR ''/'' # b) = SplitPath a @ SplitPath b"
  by (simp add: SplitPath_comps comps_slash)

lemma SplitPath_no_slash: "CHR ''/'' \<notin> set n \<Longrightarrow> SplitPath n = (if n = [] then [] else [n])"
  by (simp add: SplitPath_comps comps_no_slash)

lemma SplitPath_Nil [simp]: "SplitPath [] = []"
  by (simp add: SplitPath_def)

lemma comps_valid: "CHR ''/'' \<notin> set cur \<Longrightarrow> list_all valid_name (comps cur s)"
  by (induction cur s rule: comps.induct) (auto simp: valid_name_def)

lemma SplitPath_valid: "list_all valid_name (SplitPath path)"
  by (simp add: SplitPath_comps comps_valid)

definition join_path :: "path \<Rightarrow> string" where
  "join_path ps = concat (map (\<lambda>p. CHR ''/'' # p) ps)"

lemma SplitPath_join: "list_all valid_name ps \<Longrightarrow> SplitPath (join_path ps) = ps"
proof (induction ps rule: rev_induct)
  case (snoc p ps)
  then show ?case
    by (simp add: join_path_def SplitPath_slash SplitPath_no_slash valid_name_def)
qed (simp add: join_path_def)

section \<open>Children\<close>

lemma wf_node_iff:
  "wf_node n \<longleftrightarrow> distinct (map inode_name (inode_children n))
     \<and> (\<forall>c \<in> set (inode_children n). valid_name (inode_name c) \<and> wf_node c)
     \<and> (inode_type n = kFile \<longrightarrow> inode_children n = [])
     \<and> (inode_type n = kDirectory \<longrightarrow> inode_blocks n = [])"
  by (cases n) simp

lemma FindChild_SomeD:
  "FindChild n p = Some c \<Longrightarrow> c \<in> set (inode_children n) \<and> inode_name c = p"
  unfolding FindChild_def by (drule find_SomeD) simp

lemma FindChild_wf: "wf_node n \<Longrightarrow> FindChild n p = Some c \<Longrightarrow> wf_node c \<and> inode_name c = p"
  by (auto simp: wf_node_iff [of n] dest: FindChild_SomeD)

lemma FindChild_dir: "wf_node n \<Longrightarrow> FindChild n p = Some c \<Longrightarrow> inode_type n = kDirectory"
  by (cases "inode_type n") (auto simp: wf_node_iff [of n] FindChild_def)

lemma FindChild_add_child:
  "FindChild n (inode_name c) = None \<Longrightarrow>
   FindChild (add_child n c) q = (if q = inode_name c then Some c else FindChild n q)"
  by (auto simp: FindChild_def add_child_def find_append split: option.split)

lemma FindChild_modify_child:
  assumes "\<And>c. inode_name c = p \<Longrightarrow> inode_name (f c) = p"
  shows "FindChild (modify_child n p f) q
       = (if q = p then map_option f (FindChild n p) else FindChild n q)"
  using find_modify_first [of "inode_children n" inode_name p f q] assms
  by (simp add: FindChild_def modify_child_def)

lemma FindChild_RemoveChild:
  "wf_node n \<Longrightarrow> FindChild (fst (RemoveChild n p)) q = (if q = p then None else FindChild n q)"
  by (auto simp: RemoveChild_def FindChild_def wf_node_iff [of n] find_remove_first)

lemma snd_RemoveChild: "snd (RemoveChild n p) \<longleftrightarrow> FindChild n p \<noteq> None"
  by (simp add: RemoveChild_def)

lemma node_sel_simps [simp]:
  "inode_type (add_child n c) = inode_type n" "inode_name (add_child n c) = inode_name n"
  "inode_type (modify_child n p f) = inode_type n" "inode_name (modify_child n p f) = inode_name n"
  "inode_blocks (modify_child n p f) = inode_blocks n" "inode_blocks (add_child n c) = inode_blocks n"
  "inode_type (fst (RemoveChild n p)) = inode_type n"
  "inode_name (fst (RemoveChild n p)) = inode_name n"
  "inode_blocks (fst (RemoveChild n p)) = inode_blocks n"
  by (simp_all add: add_child_def modify_child_def RemoveChild_def)

lemma wf_add_child:
  assumes "wf_node n" "inode_type n = kDirectory" "wf_node c" "valid_name (inode_name c)"
    "FindChild n (inode_name c) = None"
  shows "wf_node (add_child n c)"
proof -
  have "inode_name c \<notin> set (map inode_name (inode_children n))"
    using assms(5) unfolding FindChild_def find_None_map .
  with assms show ?thesis by (auto simp: wf_node_iff [of n] add_child_def)
qed

lemma wf_modify_child:
  assumes "wf_node n" "\<And>c. FindChild n p = Some c \<Longrightarrow> wf_node (f c)"
    and "\<And>c. inode_name c = p \<Longrightarrow> inode_name (f c) = p"
  shows "wf_node (modify_child n p f)"
proof -
  let ?cs = "modify_first (\<lambda>c. inode_name c = p) f (inode_children n)"
  have names: "map inode_name ?cs = map inode_name (inode_children n)"
    using assms(3) by (intro map_modify_first) auto
  have old: "valid_name (inode_name c) \<and> wf_node c" if "c \<in> set (inode_children n)" for c
    using assms(1) that by (simp add: wf_node_iff [of n])
  have "valid_name (inode_name c) \<and> wf_node c" if "c \<in> set ?cs" for c
    using set_modify_first [OF that]
  proof
    assume "\<exists>x. List.find (\<lambda>c. inode_name c = p) (inode_children n) = Some x \<and> c = f x"
    then obtain x where x: "FindChild n p = Some x" "c = f x" by (auto simp: FindChild_def)
    from FindChild_SomeD [OF x(1)] have "valid_name p" "inode_name x = p" using old by auto
    then show ?thesis using assms(2) [OF x(1)] assms(3) x(2) by simp
  qed (rule old)
  moreover have "inode_type n = kFile \<longrightarrow> ?cs = []"
    using assms(1) by (auto simp: wf_node_iff [of n])
  ultimately show ?thesis
    using assms(1) names by (simp add: modify_child_def wf_node_iff [of n])
qed

lemma wf_RemoveChild:
  assumes "wf_node n"
  shows "wf_node (fst (RemoveChild n p))"
proof -
  let ?cs = "remove_first (\<lambda>c. inode_name c = p) (inode_children n)"
  have "distinct (map inode_name ?cs)" "set ?cs \<subseteq> set (inode_children n)"
    using assms by (auto simp: wf_node_iff [of n] intro: distinct_map_remove_first
        dest: set_remove_first_subset [THEN subsetD])
  then show ?thesis
    using assms by (auto simp: RemoveChild_def wf_node_iff [of n])
qed

section \<open>What the operations do to the namespace\<close>

lemma get_from_append:
  "get_from n (ps @ qs) = (case get_from n ps of None \<Rightarrow> None | Some m \<Rightarrow> get_from m qs)"
  by (induction n ps rule: get_from.induct) (auto split: option.split)

lemma get_from_wf: "wf_node n \<Longrightarrow> get_from n ps = Some m \<Longrightarrow> wf_node m"
  by (induction n ps rule: get_from.induct) (auto split: option.splits dest: FindChild_wf)

lemma namespace_Nil: "namespace n [] = Some (entry_of n)"
  by (simp add: namespace_def)

lemma namespace_Cons:
  "namespace n (p # ps) = (case FindChild n p of None \<Rightarrow> None | Some c \<Rightarrow> namespace c ps)"
  by (simp add: namespace_def split: option.split)

lemmas namespace_simps = namespace_Nil namespace_Cons

lemma entry_of_simps [simp]:
  "inode_type n = kDirectory \<Longrightarrow> entry_of n = Dir"
  "inode_type n = kFile \<Longrightarrow> entry_of n = File (inode_blocks n)"
  by (simp_all add: entry_of_def)

lemma entry_of_eq_Dir [simp]: "entry_of n = Dir \<longleftrightarrow> inode_type n = kDirectory"
  by (simp add: entry_of_def split: INodeType.split)

lemma INodeType_not [simp]: "t \<noteq> kDirectory \<longleftrightarrow> t = kFile" "t \<noteq> kFile \<longleftrightarrow> t = kDirectory"
  by (cases t; simp)+

lemma entry_of_change [simp]:
  "entry_of (add_child n c) = entry_of n" "entry_of (modify_child n p f) = entry_of n"
  "entry_of (fst (RemoveChild n p)) = entry_of n"
  by (cases "inode_type n"; simp)+

lemma FindChild_leaf [simp]: "FindChild (INode t n bs []) p = None"
  by (simp add: FindChild_def)

text \<open>Every ancestor of an entry is a directory.\<close>

lemma namespace_parent:
  assumes "wf_node n" "namespace n (ps @ [p]) = Some e"
  shows "namespace n ps = Some Dir"
proof -
  obtain m c where m: "get_from n ps = Some m" and c: "FindChild m p = Some c"
    using assms(2) by (auto simp: namespace_def get_from_append split: option.splits)
  have "inode_type m = kDirectory"
    using get_from_wf [OF assms(1) m] c by (rule FindChild_dir)
  with m show ?thesis by (simp add: namespace_def)
qed

subsection \<open>Mkdirs\<close>

lemma blocked_Nil [simp]: "blocked m [] \<longleftrightarrow> (\<exists>bs. m [] = Some (File bs))"
  by (simp add: blocked_def)

lemma blocked_Cons:
  "blocked m (p # ps) \<longleftrightarrow> (\<exists>bs. m [] = Some (File bs)) \<or> blocked (\<lambda>q. m (p # q)) ps"
proof
  assume "blocked m (p # ps)"
  then obtain k bs where "k \<le> Suc (length ps)" "m (take k (p # ps)) = Some (File bs)"
    by (auto simp: blocked_def)
  then show "(\<exists>bs. m [] = Some (File bs)) \<or> blocked (\<lambda>q. m (p # q)) ps"
    by (cases k) (auto simp: blocked_def)
next
  assume "(\<exists>bs. m [] = Some (File bs)) \<or> blocked (\<lambda>q. m (p # q)) ps"
  then show "blocked m (p # ps)"
  proof
    assume "\<exists>bs. m [] = Some (File bs)"
    then show ?thesis unfolding blocked_def by (intro exI [of _ 0]) simp
  next
    assume "blocked (\<lambda>q. m (p # q)) ps"
    then obtain k where "k \<le> length ps" "\<exists>bs. m (take (Suc k) (p # ps)) = Some (File bs)"
      by (auto simp: blocked_def)
    then show ?thesis unfolding blocked_def by (intro exI [of _ "Suc k"]) simp
  qed
qed

lemma mkdirs_from_sel [simp]:
  "inode_type (fst (mkdirs_from ps n)) = inode_type n"
  "inode_name (fst (mkdirs_from ps n)) = inode_name n"
  by (cases ps; simp split: option.split prod.split)+

lemma wf_mkdirs_from:
  "wf_node n \<Longrightarrow> inode_type n = kDirectory \<Longrightarrow> list_all valid_name ps \<Longrightarrow>
   wf_node (fst (mkdirs_from ps n))"
proof (induction ps arbitrary: n)
  case (Cons p ps)
  show ?case
  proof (cases "FindChild n p")
    case None
    let ?c = "fst (mkdirs_from ps (INode kDirectory p [] []))"
    have "wf_node ?c" "inode_name ?c = p" using Cons by simp_all
    then have "wf_node (add_child n ?c)" using Cons.prems None by (intro wf_add_child) simp_all
    then show ?thesis using None by (simp add: case_prod_beta)
  next
    case (Some c)
    have "wf_node c" "inode_name c = p" using FindChild_wf [OF Cons.prems(1) Some] by simp_all
    then show ?thesis
      using Cons Some by (auto simp: case_prod_beta intro!: wf_modify_child)
  qed
qed simp

lemma namespace_empty_dir:
  "namespace (INode kDirectory p [] []) q = (if q = [] then Some Dir else None)"
  by (cases q) (simp_all add: namespace_simps FindChild_def)

lemma not_blocked_None [simp]: "\<not> blocked (\<lambda>q. None) ps"
  by (simp add: blocked_def)

lemma not_blocked_empty_dir: "\<not> blocked (namespace (INode kDirectory p [] [])) ps"
  by (simp add: blocked_def namespace_empty_dir)

lemma snd_mkdirs_from:
  "wf_node n \<Longrightarrow> inode_type n = kDirectory \<Longrightarrow>
   snd (mkdirs_from ps n) \<longleftrightarrow> \<not> blocked (namespace n) ps"
proof (induction ps arbitrary: n)
  case (Cons p ps)
  show ?case
  proof (cases "FindChild n p")
    case None
    have "snd (mkdirs_from ps (INode kDirectory p [] []))"
      using Cons.IH [of "INode kDirectory p [] []"] not_blocked_empty_dir by simp
    then show ?thesis
      using None Cons.prems by (simp add: case_prod_beta blocked_Cons namespace_simps)
  next
    case (Some c)
    have c: "wf_node c" using FindChild_wf [OF Cons.prems(1) Some] by simp
    show ?thesis
    proof (cases "inode_type c")
      case kDirectory
      then show ?thesis
        using Some Cons c by (simp add: case_prod_beta blocked_Cons namespace_simps)
    next
      case kFile
      then have "blocked (namespace c) ps"
        unfolding blocked_def by (intro exI [of _ 0]) (simp add: namespace_simps)
      then show ?thesis
        using Some Cons kFile by (simp add: case_prod_beta blocked_Cons namespace_simps)
    qed
  qed
qed (simp add: namespace_simps)

lemma fst_mkdirs_from_blocked:
  "wf_node n \<Longrightarrow> \<not> snd (mkdirs_from ps n) \<Longrightarrow> namespace (fst (mkdirs_from ps n)) = namespace n"
proof (induction ps arbitrary: n)
  case (Cons p ps)
  show ?case
  proof (cases "FindChild n p")
    case None
    have "snd (mkdirs_from ps (INode kDirectory p [] []))"
      using snd_mkdirs_from [of "INode kDirectory p [] []" ps] not_blocked_empty_dir by simp
    then show ?thesis using None Cons.prems by (simp add: case_prod_beta)
  next
    case (Some c)
    show ?thesis
    proof (cases "inode_type c")
      case kDirectory
      have c: "wf_node c" "inode_name c = p" using FindChild_wf [OF Cons.prems(1) Some] by simp_all
      have "\<not> snd (mkdirs_from ps c)"
        using Cons.prems(2) Some kDirectory by (simp add: case_prod_beta)
      then have IH: "namespace (fst (mkdirs_from ps c)) = namespace c"
        using c by (intro Cons.IH)
      have "namespace (modify_child n p (\<lambda>_. fst (mkdirs_from ps c))) q = namespace n q" for q
        using Some c IH by (cases q) (auto simp: namespace_simps FindChild_modify_child)
      then show ?thesis using Some kDirectory by (simp add: case_prod_beta fun_eq_iff)
    qed (use Some in simp)
  qed
qed simp

lemma fst_mkdirs_from:
  assumes "wf_node n" "snd (mkdirs_from ps n)" "inode_type n = kDirectory"
  shows "namespace (fst (mkdirs_from ps n)) q = (if prefix q ps then Some Dir else namespace n q)"
  using assms
proof (induction ps arbitrary: n q)
  case (Cons p ps)
  show ?case
  proof (cases q)
    case Nil
    then show ?thesis using Cons.prems(3) by (simp add: namespace_Nil del: mkdirs_from.simps)
  next
    case (Cons r q')
    show ?thesis
    proof (cases "FindChild n p")
      case None
      let ?new = "INode kDirectory p [] []"
      have ok: "snd (mkdirs_from ps ?new)"
        using snd_mkdirs_from [of ?new ps] not_blocked_empty_dir by simp
      have "namespace (fst (mkdirs_from ps ?new)) q' = (if prefix q' ps then Some Dir else namespace ?new q')"
        using Cons.IH [of ?new q'] ok by simp
      then show ?thesis
        using None Cons by (auto simp: case_prod_beta namespace_Cons FindChild_add_child
            namespace_empty_dir)
    next
      case (Some c)
      have c: "wf_node c" "inode_name c = p" using FindChild_wf [OF Cons.prems(1) Some] by simp_all
      have dir: "inode_type c = kDirectory" and ok: "snd (mkdirs_from ps c)"
        using Cons.prems(2) Some by (auto simp: case_prod_beta split: if_splits)
      have "namespace (fst (mkdirs_from ps c)) q' = (if prefix q' ps then Some Dir else namespace c q')"
        using Cons.IH [of c q'] c ok dir by simp
      then show ?thesis
        using Some Cons c dir by (auto simp: case_prod_beta namespace_Cons FindChild_modify_child)
    qed
  qed
qed (simp add: namespace_simps)

subsection \<open>CreateFile\<close>

lemma create_from_sel:
  "create_from ps f n = Some n' \<Longrightarrow> inode_type n' = inode_type n \<and> inode_name n' = inode_name n"
  by (cases ps) (auto split: option.splits if_splits)

lemma wf_create_from:
  "create_from ps f n = Some n' \<Longrightarrow> wf_node n \<Longrightarrow> inode_type n = kDirectory \<Longrightarrow> valid_name f \<Longrightarrow> wf_node n'"
proof (induction ps f n arbitrary: n' rule: create_from.induct)
  case (1 f n)
  then show ?case by (auto split: if_splits intro!: wf_add_child)
next
  case (2 p ps f n)
  then obtain c c' where c: "FindChild n p = Some c" "inode_type c = kDirectory"
    "create_from ps f c = Some c'" "n' = modify_child n p (\<lambda>_. c')"
    by (auto split: option.splits if_splits)
  have "wf_node c" "inode_name c = p" using FindChild_wf [OF "2.prems"(2) c(1)] by simp_all
  then have "wf_node c'" "inode_name c' = p"
    using 2 c create_from_sel [OF c(3)] by auto
  then show ?case using c "2.prems" by (auto intro!: wf_modify_child)
qed

lemma create_from_None:
  assumes "wf_node n" "inode_type n = kDirectory"
  shows "create_from ps f n = None \<longleftrightarrow> namespace n ps \<noteq> Some Dir \<or> namespace n (ps @ [f]) \<noteq> None"
  using assms
proof (induction ps f n rule: create_from.induct)
  case (1 f n)
  then show ?case by (auto simp: namespace_simps split: option.splits)
next
  case (2 p ps f n)
  show ?case
  proof (cases "FindChild n p")
    case (Some c)
    have c: "wf_node c" using FindChild_wf [OF "2.prems"(1) Some] by simp
    show ?thesis
    proof (cases "inode_type c")
      case kDirectory
      then show ?thesis using 2 Some c by (simp add: namespace_simps)
    next
      case kFile
      have "namespace c ps \<noteq> Some Dir"
      proof (cases ps)
        case (Cons q qs)
        have "FindChild c q = None" using c kFile by (simp add: wf_node_iff [of c] FindChild_def)
        then show ?thesis using Cons by (simp add: namespace_simps)
      qed (use kFile in \<open>simp add: namespace_simps\<close>)
      then show ?thesis using Some kFile by (simp add: namespace_simps)
    qed
  qed (simp add: namespace_simps)
qed

lemma create_from_namespace:
  "create_from ps f n = Some n' \<Longrightarrow> wf_node n \<Longrightarrow>
   namespace n' q = (if q = ps @ [f] then Some (File []) else namespace n q)"
proof (induction ps f n arbitrary: n' q rule: create_from.induct)
  case (1 f n)
  then have "FindChild n f = None" "n' = add_child n (INode kFile f [] [])"
    by (auto split: if_splits)
  then show ?case
    by (cases q; cases "tl q")
       (auto simp: namespace_simps FindChild_add_child)
next
  case (2 p ps f n)
  then obtain c c' where c: "FindChild n p = Some c" "inode_type c = kDirectory"
    "create_from ps f c = Some c'" "n' = modify_child n p (\<lambda>_. c')"
    by (auto split: option.splits if_splits)
  have wf: "wf_node c" "inode_name c = p" using FindChild_wf [OF "2.prems"(2) c(1)] by simp_all
  have "namespace c' r = (if r = ps @ [f] then Some (File []) else namespace c r)" for r
    using 2 c wf by auto
  moreover have "inode_name c' = p" using create_from_sel [OF c(3)] wf by simp
  ultimately show ?case
    using c by (cases q) (auto simp: namespace_simps FindChild_modify_child)
qed

subsection \<open>Delete\<close>

lemma delete_from_sel [simp]:
  "inode_type (fst (delete_from ps f n)) = inode_type n"
  "inode_name (fst (delete_from ps f n)) = inode_name n"
  by (cases ps; simp add: case_prod_beta split: option.split)+

lemma wf_delete_from: "wf_node n \<Longrightarrow> wf_node (fst (delete_from ps f n))"
proof (induction ps f n rule: delete_from.induct)
  case (1 f n)
  then show ?case by (simp add: wf_RemoveChild)
next
  case (2 p ps f n)
  show ?case
  proof (cases "FindChild n p")
    case (Some c)
    have c: "wf_node c" "inode_name c = p" using FindChild_wf [OF "2.prems" Some] by simp_all
    then show ?thesis
      using 2 Some by (auto simp: case_prod_beta intro!: wf_modify_child)
  qed (use 2 in simp)
qed

lemma delete_from_namespace:
  "wf_node n \<Longrightarrow>
   snd (delete_from ps f n) = (namespace n (ps @ [f]) \<noteq> None)
   \<and> namespace (fst (delete_from ps f n)) q = (if prefix (ps @ [f]) q then None else namespace n q)"
proof (induction ps f n arbitrary: q rule: delete_from.induct)
  case (1 f n)
  then show ?case
    by (cases q) (auto simp: namespace_simps FindChild_RemoveChild snd_RemoveChild
        split: option.splits)
next
  case (2 p ps f n)
  show ?case
  proof (cases "FindChild n p")
    case None
    then show ?thesis by (cases q) (auto simp: namespace_simps)
  next
    case (Some c)
    have c: "wf_node c" "inode_name c = p" using FindChild_wf [OF "2.prems" Some] by simp_all
    then have "inode_name (fst (delete_from ps f c)) = p" by simp
    then show ?thesis
      using 2 Some c
      by (cases q) (auto simp: case_prod_beta namespace_simps FindChild_modify_child)
  qed
qed

subsection \<open>Appending a block to a file\<close>

text \<open>\<open>node->blocks.push_back(b)\<close>.\<close>

definition push_block :: "int64 \<Rightarrow> INode \<Rightarrow> INode" where
  "push_block b n = INode (inode_type n) (inode_name n) (inode_blocks n @ [b]) (inode_children n)"

lemma push_block_sel [simp]:
  "inode_type (push_block b n) = inode_type n" "inode_name (push_block b n) = inode_name n"
  "inode_blocks (push_block b n) = inode_blocks n @ [b]"
  "inode_children (push_block b n) = inode_children n"
  by (simp_all add: push_block_def)

lemma update_at_name: "(\<And>m. inode_name (f m) = inode_name m) \<Longrightarrow> inode_name (update_at ps f n) = inode_name n"
  by (cases ps) simp_all

lemma FindChild_push_block [simp]: "FindChild (push_block b n) p = FindChild n p"
  by (simp add: FindChild_def)

lemma update_at_push_block:
  assumes "wf_node n" "namespace n ps = Some (File bs)"
  shows "wf_node (update_at ps (push_block b) n)
    \<and> inode_type (update_at ps (push_block b) n) = inode_type n
    \<and> namespace (update_at ps (push_block b) n) q
      = (if q = ps then Some (File (bs @ [b])) else namespace n q)"
  using assms
proof (induction ps arbitrary: n q)
  case Nil
  then have "inode_type n = kFile" "inode_blocks n = bs"
    by (auto simp: namespace_simps entry_of_def split: INodeType.splits)
  then show ?case
    using Nil.prems by (cases q) (auto simp: namespace_simps wf_node_iff [of "push_block b n"]
        wf_node_iff [of n])
next
  case (Cons p ps)
  then obtain c where c: "FindChild n p = Some c" "namespace c ps = Some (File bs)"
    by (auto simp: namespace_simps split: option.splits)
  have wf: "wf_node c" "inode_name c = p" using FindChild_wf [OF Cons.prems(1) c(1)] by simp_all
  have name: "inode_name (update_at ps (push_block b) m) = inode_name m" for m
    by (simp add: update_at_name)
  have IH: "wf_node (update_at ps (push_block b) c)"
    "namespace (update_at ps (push_block b) c) r
      = (if r = ps then Some (File (bs @ [b])) else namespace c r)" for r
    using Cons.IH [OF wf(1) c(2)] by blast+
  have "wf_node (modify_child n p (update_at ps (push_block b)))"
    using Cons.prems(1) c IH(1) name by (intro wf_modify_child) auto
  moreover have "namespace (modify_child n p (update_at ps (push_block b))) q
      = (if q = p # ps then Some (File (bs @ [b])) else namespace n q)"
    using c IH(2) name by (cases q) (auto simp: namespace_simps FindChild_modify_child)
  ultimately show ?case by simp
qed

section \<open>The contract of the tree\<close>

text \<open>The operations at path level, as the string operations use them after \<open>SplitPath\<close>.\<close>

definition create_at :: "path \<Rightarrow> INode \<Rightarrow> INode option" where
  "create_at ps root = (if ps = [] then None else create_from (butlast ps) (last ps) root)"

definition delete_at :: "path \<Rightarrow> INode \<Rightarrow> INode \<times> bool" where
  "delete_at ps root = (if ps = [] then (root, False) else delete_from (butlast ps) (last ps) root)"

lemma tree_ops_at_path:
  "tree_CreateFile root path = create_at (SplitPath path) root"
  "tree_Delete root path = delete_at (SplitPath path) root"
  by (simp_all add: tree_CreateFile_def create_at_def tree_Delete_def delete_at_def Let_def)

locale file_namespace =
  fixes inv :: "'t \<Rightarrow> bool"
    and look :: "'t \<Rightarrow> path \<Rightarrow> entry option"
    and mkdirs :: "path \<Rightarrow> 't \<Rightarrow> 't \<times> bool"
    and create :: "path \<Rightarrow> 't \<Rightarrow> 't option"
    and delete :: "path \<Rightarrow> 't \<Rightarrow> 't \<times> bool"
    and push :: "path \<Rightarrow> int64 \<Rightarrow> 't \<Rightarrow> 't"
  assumes look_root: "inv t \<Longrightarrow> look t [] = Some Dir"
    and look_parent: "inv t \<Longrightarrow> look t (ps @ [p]) = Some e \<Longrightarrow> look t ps = Some Dir"
    and mkdirs_inv: "inv t \<Longrightarrow> list_all valid_name ps \<Longrightarrow> inv (fst (mkdirs ps t))"
    and mkdirs_ok: "inv t \<Longrightarrow> snd (mkdirs ps t) \<longleftrightarrow> \<not> blocked (look t) ps"
    and mkdirs_look: "inv t \<Longrightarrow> look (fst (mkdirs ps t)) q
          = (if \<not> blocked (look t) ps \<and> prefix q ps then Some Dir else look t q)"
    and create_inv: "inv t \<Longrightarrow> list_all valid_name ps \<Longrightarrow> create ps t = Some t' \<Longrightarrow> inv t'"
    and create_None: "inv t \<Longrightarrow>
          create ps t = None \<longleftrightarrow> ps = [] \<or> look t (butlast ps) \<noteq> Some Dir \<or> look t ps \<noteq> None"
    and create_look: "inv t \<Longrightarrow> create ps t = Some t' \<Longrightarrow>
          look t' q = (if q = ps then Some (File []) else look t q)"
    and delete_inv: "inv t \<Longrightarrow> inv (fst (delete ps t))"
    and delete_ok: "inv t \<Longrightarrow> snd (delete ps t) \<longleftrightarrow> ps \<noteq> [] \<and> look t ps \<noteq> None"
    and delete_look: "inv t \<Longrightarrow> look (fst (delete ps t)) q
          = (if ps \<noteq> [] \<and> prefix ps q then None else look t q)"
    and push_inv: "inv t \<Longrightarrow> look t ps = Some (File bs) \<Longrightarrow> inv (push ps b t)"
    and push_look: "inv t \<Longrightarrow> look t ps = Some (File bs) \<Longrightarrow>
          look (push ps b t) q = (if q = ps then Some (File (bs @ [b])) else look t q)"
begin

lemma look_ancestors: "inv t \<Longrightarrow> look t (ps @ qs) = Some e \<Longrightarrow> qs \<noteq> [] \<Longrightarrow> look t ps = Some Dir"
proof (induction qs arbitrary: e rule: rev_induct)
  case (snoc q qs)
  then have "look t (ps @ qs) = Some Dir" using look_parent [of t "ps @ qs" q] by simp
  then show ?case using snoc by (cases qs) auto
qed simp

text \<open>A free path whose ancestors are not files can be made a file.\<close>

lemma make_file:
  assumes "inv t" "list_all valid_name ps" "ps \<noteq> []" "look t ps = None" "\<not> blocked (look t) (butlast ps)"
  shows "\<exists>t'. create ps (fst (mkdirs (butlast ps) t)) = Some t' \<and> inv t' \<and>
    (\<forall>q. look t' q = (if q = ps then Some (File [])
                      else if strict_prefix q ps then Some Dir else look t q))"
proof -
  let ?t1 = "fst (mkdirs (butlast ps) t)"
  have valid: "list_all valid_name (butlast ps)" "list_all valid_name ps"
    using assms(2) by (auto simp: list_all_iff dest: in_set_butlastD)
  have t1: "inv ?t1" using assms(1) valid(1) by (rule mkdirs_inv)
  have look1: "look ?t1 q = (if prefix q (butlast ps) then Some Dir else look t q)" for q
    using mkdirs_look [OF assms(1)] assms(5) by simp
  have pre: "prefix q (butlast ps) \<longleftrightarrow> strict_prefix q ps" for q
    using assms(3) by (metis append_butlast_last_id prefix_order.le_less_trans prefix_snoc
        strict_prefixI' strict_prefix_def)
  have "look ?t1 ps = None" using look1 pre assms(4) by simp
  moreover have "look ?t1 (butlast ps) = Some Dir" using look1 by simp
  ultimately obtain t' where t': "create ps ?t1 = Some t'"
    using create_None [OF t1, of ps] assms(3) by fastforce
  have "inv t'" using t1 valid(2) t' by (rule create_inv)
  moreover have "look t' q = (if q = ps then Some (File [])
      else if strict_prefix q ps then Some Dir else look t q)" for q
    using create_look [OF t1 t'] look1 pre by simp
  ultimately show ?thesis using t' by blast
qed

text \<open>Creating a file and deleting it leaves the namespace as it was.\<close>

lemma create_delete:
  assumes "inv t" "list_all valid_name ps" "create ps t = Some t'"
  shows "snd (delete ps t') \<and> look (fst (delete ps t')) = look t"
proof -
  have ps: "ps \<noteq> []" "look t ps = None" using create_None [OF assms(1), of ps] assms(3) by auto
  have t': "inv t'" using assms by (rule create_inv)
  have below: "look t q = None" if q: "prefix ps q" for q
  proof (cases "q = ps")
    case False
    with q obtain r where "q = ps @ r" "r \<noteq> []" by (auto elim: prefixE)
    then show ?thesis using look_ancestors [OF assms(1), of ps r] ps(2) by (cases "look t q") auto
  qed (use ps in simp)
  have "look (fst (delete ps t')) q = look t q" for q
    using delete_look [OF t', of ps q] create_look [OF assms(1,3), of q] ps below [of q] by auto
  moreover have "snd (delete ps t')"
    using delete_ok [OF t', of ps] create_look [OF assms(1,3), of ps] ps by simp
  ultimately show ?thesis by blast
qed

end

lemma wf_tree_node: "wf_tree t \<Longrightarrow> wf_node t" "wf_tree t \<Longrightarrow> inode_type t = kDirectory"
  by (simp_all add: wf_tree_def)

lemma wf_tree_new: "wf_tree InodeTree_new"
  by (simp add: wf_tree_def InodeTree_new_def)

interpretation tree: file_namespace wf_tree namespace mkdirs_from create_at delete_at
  "\<lambda>ps b. update_at ps (push_block b)"
proof unfold_locales
  fix t t' :: INode and ps q :: path and p :: string and e bs b
  assume t: "wf_tree t"
  note t' = wf_tree_node [OF t]
  show "namespace t [] = Some Dir" using t' by (simp add: namespace_Nil)
  show "namespace t ps = Some Dir" if "namespace t (ps @ [p]) = Some e"
    using t'(1) that by (rule namespace_parent)
  show "wf_tree (fst (mkdirs_from ps t))" if "list_all valid_name ps"
    using t that by (simp add: wf_tree_def wf_mkdirs_from)
  show "snd (mkdirs_from ps t) = (\<not> blocked (namespace t) ps)"
    using t' by (rule snd_mkdirs_from)
  show "namespace (fst (mkdirs_from ps t)) q
      = (if \<not> blocked (namespace t) ps \<and> prefix q ps then Some Dir else namespace t q)"
    using t' snd_mkdirs_from [OF t', of ps] fst_mkdirs_from [OF t'(1), of ps q]
      fst_mkdirs_from_blocked [OF t'(1), of ps] by auto
  show "wf_tree t'" if "list_all valid_name ps" "create_at ps t = Some t'"
    using t that create_from_sel [of "butlast ps" "last ps" t t']
    by (auto simp: wf_tree_def create_at_def list_all_iff split: if_splits intro: wf_create_from)
  show "(create_at ps t = None)
      = (ps = [] \<or> namespace t (butlast ps) \<noteq> Some Dir \<or> namespace t ps \<noteq> None)"
    using create_from_None [OF t', of "butlast ps" "last ps"] by (simp add: create_at_def)
  show "namespace t' q = (if q = ps then Some (File []) else namespace t q)"
    if "create_at ps t = Some t'"
    using that create_from_namespace [of "butlast ps" "last ps" t t' q] t'
    by (auto simp: create_at_def split: if_splits)
  show "wf_tree (fst (delete_at ps t))"
    using t by (simp add: wf_tree_def delete_at_def wf_delete_from)
  show "snd (delete_at ps t) = (ps \<noteq> [] \<and> namespace t ps \<noteq> None)"
    using delete_from_namespace [OF t'(1), of "butlast ps" "last ps"] by (simp add: delete_at_def)
  show "namespace (fst (delete_at ps t)) q
      = (if ps \<noteq> [] \<and> prefix ps q then None else namespace t q)"
    using delete_from_namespace [OF t'(1), of "butlast ps" "last ps" q] by (simp add: delete_at_def)
  show "wf_tree (update_at ps (push_block b) t)" if "namespace t ps = Some (File bs)"
    using t update_at_push_block [OF t'(1) that] by (simp add: wf_tree_def update_at_name)
  show "namespace (update_at ps (push_block b) t) q
      = (if q = ps then Some (File (bs @ [b])) else namespace t q)"
    if "namespace t ps = Some (File bs)"
    using update_at_push_block [OF t'(1) that] by blast
qed

section \<open>Properties\<close>

text \<open>C17. \<open>Mkdirs\<close> on a well-formed tree keeps it well-formed; it succeeds exactly if no file stands on
  the path or above it; then the path and all its ancestors are directories and every other path is
  as before, and on failure nothing changes.\<close>

theorem tree_Mkdirs_refines:
  assumes "wf_tree t" "tree_Mkdirs t path = (t', ok)"
  shows "wf_tree t' \<and> (ok \<longleftrightarrow> \<not> blocked (namespace t) (SplitPath path))
    \<and> namespace t' q = (if ok \<and> prefix q (SplitPath path) then Some Dir else namespace t q)"
  using tree.mkdirs_inv [OF assms(1) SplitPath_valid, of path]
    tree.mkdirs_ok [OF assms(1), of "SplitPath path"]
    tree.mkdirs_look [OF assms(1), of "SplitPath path" q] assms(2)
  by (simp_all add: tree_Mkdirs_def)

theorem tree_Mkdirs_refines_witness:
  "namespace (fst (tree_Mkdirs InodeTree_new ''/a/b'')) [''a''] = Some Dir
   \<and> wf_tree (fst (tree_Mkdirs InodeTree_new ''/a/b''))"
proof -
  let ?r = "tree_Mkdirs InodeTree_new ''/a/b''"
  have r: "?r = (fst ?r, snd ?r)" by simp
  have "snd ?r" "prefix [''a''] (SplitPath ''/a/b'')" by code_simp+
  then show ?thesis
    using tree_Mkdirs_refines [OF wf_tree_new r, of "[''a'']"] by simp
qed

text \<open>C18. \<open>CreateFile\<close> on a well-formed tree succeeds exactly if the path is not the root, its parent
  is a directory and nothing is at the path; then the tree is well-formed and has an empty file there
  and is otherwise unchanged.\<close>

theorem tree_CreateFile_refines:
  assumes "wf_tree t"
  shows "case tree_CreateFile t path of
      None \<Rightarrow> SplitPath path = [] \<or> namespace t (butlast (SplitPath path)) \<noteq> Some Dir
              \<or> namespace t (SplitPath path) \<noteq> None
    | Some t' \<Rightarrow> wf_tree t' \<and> SplitPath path \<noteq> [] \<and> namespace t (butlast (SplitPath path)) = Some Dir
              \<and> namespace t (SplitPath path) = None
              \<and> namespace t' = (namespace t)(SplitPath path \<mapsto> File [])"
proof (cases "tree_CreateFile t path")
  case None
  then show ?thesis using tree.create_None [OF assms, of "SplitPath path"]
    by (simp add: tree_ops_at_path)
next
  case (Some t')
  then have create: "create_at (SplitPath path) t = Some t'" by (simp add: tree_ops_at_path)
  have "namespace t' = (namespace t)(SplitPath path \<mapsto> File [])"
    using tree.create_look [OF assms create] by (simp add: fun_eq_iff)
  then show ?thesis
    using Some tree.create_None [OF assms, of "SplitPath path"] create
      tree.create_inv [OF assms SplitPath_valid create] by auto
qed

theorem tree_CreateFile_refines_witness:
  "\<exists>t'. tree_CreateFile InodeTree_new ''/f'' = Some t' \<and> wf_tree t'
     \<and> namespace t' [''f''] = Some (File [])"
proof -
  have split: "SplitPath ''/f'' = [''f'']" by code_simp
  have "tree_CreateFile InodeTree_new ''/f'' \<noteq> None" by code_simp
  then show ?thesis
    using tree_CreateFile_refines [OF wf_tree_new, of "''/f''"] split by (auto split: option.splits)
qed

text \<open>C19. \<open>Delete\<close> on a well-formed tree keeps it well-formed, reports whether the path was there (the
  root never counts), and removes exactly the path and everything below it.\<close>

theorem tree_Delete_refines:
  assumes "wf_tree t" "tree_Delete t path = (t', ok)"
  shows "wf_tree t' \<and> (ok \<longleftrightarrow> SplitPath path \<noteq> [] \<and> namespace t (SplitPath path) \<noteq> None)
    \<and> namespace t' q
      = (if SplitPath path \<noteq> [] \<and> prefix (SplitPath path) q then None else namespace t q)"
  using tree.delete_inv [OF assms(1), of "SplitPath path"]
    tree.delete_ok [OF assms(1), of "SplitPath path"]
    tree.delete_look [OF assms(1), of "SplitPath path" q] assms(2)
  by (simp_all add: tree_ops_at_path)

theorem tree_Delete_refines_witness:
  "snd (tree_Delete (fst (tree_Mkdirs InodeTree_new ''/a/b'')) ''/a'')
   \<and> namespace (fst (tree_Delete (fst (tree_Mkdirs InodeTree_new ''/a/b'')) ''/a'')) [''a'', ''b''] = None"
proof -
  let ?t = "fst (tree_Mkdirs InodeTree_new ''/a/b'')" and ?r = "tree_Delete (fst (tree_Mkdirs InodeTree_new ''/a/b'')) ''/a''"
  have t: "wf_tree ?t"
    using tree.mkdirs_inv [OF wf_tree_new SplitPath_valid] by (simp add: tree_Mkdirs_def)
  have r: "?r = (fst ?r, snd ?r)" by simp
  have "SplitPath ''/a'' = [''a'']" "snd ?r" by code_simp+
  then show ?thesis using tree_Delete_refines [OF t r, of "[''a'', ''b'']"] by simp
qed

text \<open>\<open>ListDir\<close> of a directory returns each of its entries once, and nothing else; of a file or of
  a missing path it returns nothing.\<close>

theorem tree_ListDir_entries:
  assumes "wf_tree t"
  shows "distinct (map inode_name (tree_ListDir t path))
    \<and> inode_name ` set (tree_ListDir t path)
      = (if namespace t (SplitPath path) = Some Dir
         then {n. namespace t (SplitPath path @ [n]) \<noteq> None} else {})"
proof (cases "get_from t (SplitPath path)")
  case None
  then show ?thesis by (simp add: tree_ListDir_def GetNode_def namespace_def)
next
  case (Some d)
  have "wf_node d" using assms Some by (auto simp: wf_tree_def intro: get_from_wf)
  then have "distinct (map inode_name (inode_children d))" by (simp add: wf_node_iff [of d])
  moreover have "(\<exists>c. FindChild d n = Some c) \<longleftrightarrow> n \<in> inode_name ` set (inode_children d)" for n
    using find_None_map [of inode_name n "inode_children d"] by (auto simp: FindChild_def)
  ultimately show ?thesis
    using Some by (auto simp: tree_ListDir_def GetNode_def namespace_def get_from_append
        split: option.splits)
qed

theorem tree_ListDir_entries_witness:
  "inode_name ` set (tree_ListDir (fst (tree_Mkdirs InodeTree_new ''/a/b'')) ''/a'') = {''b''}
   \<and> distinct (map inode_name (tree_ListDir (fst (tree_Mkdirs InodeTree_new ''/a/b'')) ''/a''))"
proof -
  let ?t = "fst (tree_Mkdirs InodeTree_new ''/a/b'')"
  have t: "wf_tree ?t"
    using tree.mkdirs_inv [OF wf_tree_new SplitPath_valid] by (simp add: tree_Mkdirs_def)
  have "map inode_name (tree_ListDir ?t ''/a'') = [''b'']" by code_simp
  then have "inode_name ` set (tree_ListDir ?t ''/a'') = {''b''}" by (metis list.set_map list.set(1,2))
  then show ?thesis using tree_ListDir_entries [OF t, of "''/a''"] by blast
qed

end
