(* ===== verification/Text.thy ===== *)
theory Text
  imports Prelude "HOL-Library.Sublist"
begin

text \<open>
  The text operations of the C++ standard library that the sources use: \<open>std::getline\<close> with a
  delimiter, extraction of a word with \<open>operator>>\<close>, \<open>std::to_string\<close> and \<open>operator<<\<close> of a 64-bit
  integer, and \<open>std::stoll\<close>. The lemmas are the round trips that the file formats rest on.
\<close>

section \<open>Definitions\<close>

text \<open>The files of a host, by name.\<close>

type_synonym files = "string \<rightharpoonup> string"

abbreviation nl :: char where "nl \<equiv> CHR 0x0A"
abbreviation tab :: char where "tab \<equiv> CHR 0x09"

text \<open>\<open>std::isspace\<close> in the "C" locale.\<close>

definition isspace :: "char \<Rightarrow> bool" where
  "isspace c \<longleftrightarrow> c \<in> {CHR '' '', CHR 0x09, CHR 0x0A, CHR 0x0B, CHR 0x0C, CHR 0x0D}"

text \<open>\<open>while (std::getline(stream, line, d)) \<dots>\<close>: the lines that the loop sees. At the end of the
  stream \<open>getline\<close> fails, unless there are characters after the last delimiter.\<close>

function getlines :: "char \<Rightarrow> string \<Rightarrow> string list" where
  "getlines d s =
     (if s = [] then []
      else takeWhile (\<lambda>c. c \<noteq> d) s # getlines d (tl (dropWhile (\<lambda>c. c \<noteq> d) s)))"
  by pat_completeness auto
termination
proof (relation "measure (\<lambda>(d, s). length s)")
  fix d :: char and s :: string
  assume "s \<noteq> []"
  then have "0 < length s" by simp
  then have "length (tl (dropWhile (\<lambda>c. c \<noteq> d) s)) < length s"
    using length_dropWhile_le [of "\<lambda>c. c \<noteq> d" s] unfolding length_tl by linarith
  then show "((d, tl (dropWhile (\<lambda>c. c \<noteq> d) s)), d, s) \<in> measure (\<lambda>(d, s). length s)" by simp
qed simp

declare getlines.simps [simp del]

text \<open>\<open>stream >> word\<close>: the word (empty if there is none) and what is left of the stream.\<close>

definition extract_word :: "string \<Rightarrow> string \<times> string" where
  "extract_word s =
     (let s' = dropWhile isspace s
      in (takeWhile (\<lambda>c. \<not> isspace c) s', dropWhile (\<lambda>c. \<not> isspace c) s'))"

text \<open>\<open>while (stream >> word) \<dots>\<close>: the words that the loop sees.\<close>

function extract_words :: "string \<Rightarrow> string list" where
  "extract_words s =
     (let (w, r) = extract_word s in if w = [] then [] else w # extract_words r)"
  by pat_completeness auto
termination
proof (relation "measure length")
  fix s r :: string and x w
  assume x: "x = extract_word s" "(w, r) = x" "w \<noteq> []"
  let ?s = "dropWhile isspace s"
  have "length ?s = length w + length r"
    using x by (auto simp: extract_word_def Let_def) (metis length_append takeWhile_dropWhile_id)
  moreover have "length ?s \<le> length s" by (rule length_dropWhile_le)
  ultimately show "(r, s) \<in> measure length" using x(3) by (simp add: length_greater_0_conv [symmetric] del: length_greater_0_conv)
qed simp

declare extract_words.simps [simp del]

text \<open>Decimal output.\<close>

definition digit :: "nat \<Rightarrow> char" where
  "digit n = char_of (48 + n)"

fun show_nat :: "nat \<Rightarrow> string" where
  "show_nat n = (if n < 10 then [digit n] else show_nat (n div 10) @ [digit (n mod 10)])"

declare show_nat.simps [simp del]

definition show_int :: "int \<Rightarrow> string" where
  "show_int i = (if i < 0 then CHR ''-'' # show_nat (nat (- i)) else show_nat (nat i))"

definition show_int64 :: "int64 \<Rightarrow> string" where
  "show_int64 w = show_int (sint w)"

text \<open>\<open>std::stoll\<close> in base 10: leading white space, an optional sign, digits; what follows is ignored.\<close>

definition isdigit :: "char \<Rightarrow> bool" where
  "isdigit c \<longleftrightarrow> 48 \<le> (of_char c :: nat) \<and> (of_char c :: nat) \<le> 57"

definition digits_value :: "string \<Rightarrow> nat" where
  "digits_value ds = foldl (\<lambda>v c. 10 * v + (of_char c - 48)) 0 ds"

definition stoll :: "string \<Rightarrow> int64 result" where
  "stoll s =
     (let s1 = dropWhile isspace s;
          neg = (s1 \<noteq> [] \<and> hd s1 = CHR ''-'');
          s2 = (if s1 \<noteq> [] \<and> (hd s1 = CHR ''-'' \<or> hd s1 = CHR ''+'') then tl s1 else s1);
          ds = takeWhile isdigit s2;
          v = (if neg then - int (digits_value ds) else int (digits_value ds))
      in if ds = [] then Inl InvalidArgument
         else if v < - (2 ^ 63) \<or> 2 ^ 63 \<le> v then Inl OutOfRange
         else Inr (word_of_int v))"

section \<open>Lines and words\<close>

lemma getlines_Nil [simp]: "getlines d [] = []"
  by (simp add: getlines.simps)

lemma getlines_line: "d \<notin> set l \<Longrightarrow> getlines d (l @ d # s) = l # getlines d s"
  by (subst getlines.simps) (auto simp: takeWhile_append dropWhile_append)

lemma getlines_last: "d \<notin> set l \<Longrightarrow> l \<noteq> [] \<Longrightarrow> getlines d l = [l]"
proof -
  assume d: "d \<notin> set l" and l: "l \<noteq> []"
  have "takeWhile (\<lambda>c. c \<noteq> d) l = l" "dropWhile (\<lambda>c. c \<noteq> d) l = []"
    using d by (auto simp: takeWhile_eq_all_conv dropWhile_eq_Nil_conv)
  then show ?thesis
    using l by (subst getlines.simps) (simp only: if_False list.sel getlines_Nil)
qed

lemma getlines_concat:
  "(\<And>l. l \<in> set ls \<Longrightarrow> d \<notin> set l) \<Longrightarrow> getlines d (concat (map (\<lambda>l. l @ [d]) ls)) = ls"
  by (induction ls) (simp_all add: getlines_line)

text \<open>Items separated by a delimiter, the last one without it.\<close>

fun join_with :: "char \<Rightarrow> string list \<Rightarrow> string" where
  "join_with d [] = []"
| "join_with d [x] = x"
| "join_with d (x # y # xs) = x @ d # join_with d (y # xs)"

lemma getlines_join:
  "(\<And>x. x \<in> set xs \<Longrightarrow> x \<noteq> [] \<and> d \<notin> set x) \<Longrightarrow> getlines d (join_with d xs) = xs"
  by (induction d xs rule: join_with.induct) (simp_all add: getlines_line getlines_last)

definition is_word :: "string \<Rightarrow> bool" where
  "is_word w \<longleftrightarrow> w \<noteq> [] \<and> list_all (\<lambda>c. \<not> isspace c) w"

lemma is_word_hd: "is_word w \<Longrightarrow> \<exists>c cs. w = c # cs \<and> \<not> isspace c"
  by (cases w) (auto simp: is_word_def)

lemma extract_word_space: "isspace c \<Longrightarrow> extract_word (c # s) = extract_word s"
  by (simp add: extract_word_def)

lemma extract_word_sep: "is_word w \<Longrightarrow> isspace c \<Longrightarrow> extract_word (w @ c # s) = (w, c # s)"
  unfolding extract_word_def Let_def
  by (cases w) (auto simp: is_word_def list_all_iff takeWhile_append dropWhile_append)

lemma extract_word_end: "is_word w \<Longrightarrow> extract_word w = (w, [])"
proof -
  assume w: "is_word w"
  then have "dropWhile isspace w = w" by (cases w) (auto simp: is_word_def)
  moreover have "takeWhile (\<lambda>c. \<not> isspace c) w = w" "dropWhile (\<lambda>c. \<not> isspace c) w = []"
    using w by (auto simp: is_word_def list_all_iff takeWhile_eq_all_conv dropWhile_eq_Nil_conv)
  ultimately show ?thesis by (simp add: extract_word_def)
qed

lemma extract_word_is_word: "extract_word s = (w, r) \<Longrightarrow> w \<noteq> [] \<Longrightarrow> is_word w"
  by (auto simp: extract_word_def Let_def is_word_def list_all_iff dest: set_takeWhileD)

lemma extract_words_are_words: "w \<in> set (extract_words s) \<Longrightarrow> is_word w"
proof (induction s rule: extract_words.induct)
  case (1 s)
  obtain v r where e: "extract_word s = (v, r)" by fastforce
  show ?case
  proof (cases "v = []")
    case False
    then have "extract_words s = v # extract_words r" using e by (subst extract_words.simps) simp
    then show ?thesis using 1 e False by (auto dest: extract_word_is_word)
  qed (use 1 e in \<open>subst (asm) extract_words.simps, simp\<close>)
qed

lemma extract_words_none: "fst (extract_word s) = [] \<Longrightarrow> extract_words s = []"
  by (subst extract_words.simps) (simp add: split_def)

lemma extract_words_some: "extract_word s = (w, r) \<Longrightarrow> w \<noteq> [] \<Longrightarrow> extract_words s = w # extract_words r"
  by (subst extract_words.simps) simp

lemma extract_word_length: "extract_word s = (w, r) \<Longrightarrow> length w + length r \<le> length s"
proof -
  assume "extract_word s = (w, r)"
  then have "dropWhile isspace s = w @ r" by (auto simp: extract_word_def Let_def)
  then show ?thesis by (metis length_append length_dropWhile_le)
qed

lemma length_extract_words: "length (extract_words s) \<le> length s"
proof (induction s rule: extract_words.induct)
  case (1 s)
  obtain w r where e: "extract_word s = (w, r)" by fastforce
  show ?case
  proof (cases "w = []")
    case True
    then show ?thesis using e by (simp add: extract_words_none)
  next
    case False
    then have "0 < length w" by simp
    moreover have "length (extract_words r) \<le> length r" using 1 [OF e [symmetric] refl] False by simp
    ultimately have "Suc (length (extract_words r)) \<le> length s" using extract_word_length [OF e] by linarith
    then show ?thesis by (simp add: extract_words_some [OF e False])
  qed
qed

lemma sum_extract_words: "sum_list (map length (extract_words s)) \<le> length s"
proof (induction s rule: extract_words.induct)
  case (1 s)
  obtain w r where e: "extract_word s = (w, r)" by fastforce
  show ?case
  proof (cases "w = []")
    case True
    then show ?thesis using e by (simp add: extract_words_none)
  next
    case False
    then have "sum_list (map length (extract_words r)) \<le> length r" using 1 [OF e [symmetric] refl] by simp
    then show ?thesis using extract_word_length [OF e] by (simp add: extract_words_some [OF e False])
  qed
qed

lemma extract_word_append_space:
  assumes "isspace c" "extract_word a = (w, r)"
  shows "extract_word (a @ c # b) = (if w = [] then extract_word b else (w, r @ c # b))"
proof (cases "dropWhile isspace a")
  case Nil
  then have "\<forall>x\<in>set a. isspace x" by (simp add: dropWhile_eq_Nil_conv)
  then have "dropWhile isspace (a @ c # b) = dropWhile isspace b" using assms(1) by (simp add: dropWhile_append2)
  moreover have "w = []" using Nil assms(2) unfolding extract_word_def by (simp only: Nil Let_def takeWhile.simps prod.inject)
  ultimately show ?thesis by (simp only: extract_word_def simp_thms if_True)
next
  case (Cons x t)
  then have x: "\<not> isspace x" by (metis hd_dropWhile list.discI list.sel(1))
  have "\<not> (\<forall>y\<in>set a. isspace y)" using Cons by (metis dropWhile_eq_Nil_conv list.discI)
  then have d: "dropWhile isspace (a @ c # b) = (x # t) @ c # b" using Cons by (metis dropWhile_append1)
  have "takeWhile (\<lambda>c. \<not> isspace c) (t @ c # b) = takeWhile (\<lambda>c. \<not> isspace c) t"
    "dropWhile (\<lambda>c. \<not> isspace c) (t @ c # b) = dropWhile (\<lambda>c. \<not> isspace c) t @ c # b"
    using assms(1) by (induction t) auto
  then show ?thesis using assms(2) Cons x by (auto simp: extract_word_def Let_def d)
qed

lemma extract_words_space: "isspace c \<Longrightarrow> extract_words (a @ c # b) = extract_words a @ extract_words b"
proof (induction a rule: extract_words.induct)
  case (1 a)
  obtain w r where e: "extract_word a = (w, r)" by fastforce
  note app = extract_word_append_space [OF "1.prems" e, of b]
  show ?case
  proof (cases "w = []")
    case True
    then have "extract_words (a @ c # b) = extract_words b"
      using app extract_words.simps [of "a @ c # b"] extract_words.simps [of b] by simp
    then show ?thesis using True e by (simp add: extract_words_none)
  next
    case False
    then show ?thesis using app "1.IH" [OF e [symmetric] refl False "1.prems"] by (simp add: extract_words_some [OF e] extract_words_some)
  qed
qed

text \<open>The words of a text are the words of its lines.\<close>

lemma extract_words_lines: "concat (map extract_words (getlines nl s)) = extract_words s"
proof (induction s rule: length_induct)
  case (1 s)
  let ?l = "takeWhile (\<lambda>c. c \<noteq> nl) s" and ?d = "dropWhile (\<lambda>c. c \<noteq> nl) s"
  show ?case
  proof (cases ?d)
    case Nil
    then have "?l = s" by (metis append_Nil2 takeWhile_dropWhile_id)
    then have "nl \<notin> set s" by (metis (mono_tags, lifting) set_takeWhileD)
    then show ?thesis by (cases "s = []") (simp_all add: getlines_last extract_words_none extract_word_def)
  next
    case (Cons c t)
    then have "c = nl" by (metis (mono_tags, lifting) hd_dropWhile list.discI list.sel(1))
    then have st: "s = ?l @ nl # t" using Cons by (metis takeWhile_dropWhile_id)
    have "nl \<notin> set ?l" by (metis (mono_tags, lifting) set_takeWhileD)
    then have lines: "getlines nl s = ?l # getlines nl t" using getlines_line st by metis
    have "length t < length s" using arg_cong [OF st, of length] by simp
    then have "concat (map extract_words (getlines nl s)) = extract_words ?l @ extract_words t" using 1 lines by simp
    also have "\<dots> = extract_words (?l @ nl # t)" by (simp add: extract_words_space isspace_def)
    finally show ?thesis using st by simp
  qed
qed

section \<open>Decimal numbers\<close>

lemma of_char_digit [simp]: "n < 10 \<Longrightarrow> (of_char (digit n) :: nat) = 48 + n"
  by (simp add: digit_def)

lemma isdigit_digit [simp]: "n < 10 \<Longrightarrow> isdigit (digit n)"
  by (simp add: isdigit_def)

lemma show_nat_nonempty [simp]: "show_nat n \<noteq> []"
  by (subst show_nat.simps) simp

lemma length_show_nat: "n < 10 ^ k \<Longrightarrow> 0 < k \<Longrightarrow> length (show_nat n) \<le> k"
proof (induction n arbitrary: k rule: show_nat.induct)
  case (1 n)
  show ?case
  proof (cases "n < 10")
    case False
    obtain j where k: "k = Suc j" using "1.prems"(2) by (cases k) auto
    then have "n div 10 < 10 ^ j" "0 < j" using "1.prems" False by (auto simp: less_mult_imp_div_less intro: gr0I)
    then have "length (show_nat (n div 10)) \<le> j" using "1.IH" False by blast
    then show ?thesis using False k by (subst show_nat.simps) simp
  qed (use "1.prems" in \<open>subst show_nat.simps, simp\<close>)
qed

lemma show_nat_digits: "list_all isdigit (show_nat n)"
proof (induction n rule: show_nat.induct)
  case (1 n)
  then show ?case by (subst show_nat.simps) auto
qed

lemma digits_value_snoc: "digits_value (ds @ [c]) = 10 * digits_value ds + (of_char c - 48)"
  by (simp add: digits_value_def)

lemma digits_value_show_nat [simp]: "digits_value (show_nat n) = n"
proof (induction n rule: show_nat.induct)
  case (1 n)
  show ?case
  proof (cases "n < 10")
    case True
    then show ?thesis by (subst show_nat.simps) (simp add: digits_value_def)
  next
    case False
    then show ?thesis using 1 by (subst show_nat.simps) (simp add: digits_value_snoc)
  qed
qed

lemma isdigit_not_special: "isdigit c \<Longrightarrow> \<not> isspace c \<and> c \<noteq> CHR ''-'' \<and> c \<noteq> CHR ''+'' \<and> c \<noteq> CHR '',''"
  by (auto simp: isdigit_def isspace_def)

lemma show_int_chars: "c \<in> set (show_int i) \<Longrightarrow> isdigit c \<or> c = CHR ''-''"
  using show_nat_digits by (auto simp: show_int_def list_all_iff split: if_splits)

lemma show_int_nonempty [simp]: "show_int i \<noteq> []"
  by (simp add: show_int_def)

lemma show_int_word: "is_word (show_int i)"
  using show_int_chars [of _ i] isdigit_not_special
  by (auto simp: is_word_def list_all_iff isspace_def)

lemma show_int_no_comma: "CHR '','' \<notin> set (show_int i)"
  using show_int_chars [of "CHR '',''" i] isdigit_not_special by auto

lemma takeWhile_show_nat [simp]: "takeWhile isdigit (show_nat n) = show_nat n"
  using show_nat_digits by (auto simp: takeWhile_eq_all_conv list_all_iff)

lemma hd_show_nat: "\<not> isspace (hd (show_nat n)) \<and> hd (show_nat n) \<noteq> CHR ''-'' \<and> hd (show_nat n) \<noteq> CHR ''+''"
  using show_nat_digits [of n] isdigit_not_special by (cases "show_nat n") auto

lemma dropWhile_show_nat: "dropWhile isspace (show_nat n) = show_nat n"
  using hd_show_nat [of n] by (cases "show_nat n") auto

lemma stoll_show_nat: "n < 2 ^ 63 \<Longrightarrow> stoll (show_nat n) = Inr (word_of_nat n)"
  using hd_show_nat [of n] by (simp add: stoll_def Let_def dropWhile_show_nat)

lemma stoll_show_neg: "n \<le> 2 ^ 63 \<Longrightarrow> stoll (CHR ''-'' # show_nat n) = Inr (- word_of_nat n)"
  by (simp add: stoll_def Let_def isspace_def)

lemma stoll_show_int:
  assumes "- (2 ^ 63) \<le> i" "i < 2 ^ 63"
  shows "stoll (show_int i) = Inr (word_of_int i)"
proof (cases "i < 0")
  case True
  then have "nat (- i) \<le> 2 ^ 63" using assms by simp
  then show ?thesis using stoll_show_neg True by (simp add: show_int_def)
next
  case False
  then have "nat i < 2 ^ 63" using assms by simp
  then show ?thesis using stoll_show_nat False by (simp add: show_int_def)
qed

lemma stoll_show_int64: "stoll (show_int64 w) = Inr w"
  using sint_greater_eq [of w] sint_less [of w] by (simp add: show_int64_def stoll_show_int)

end
