(* ===== verification/FsImage.thy ===== *)
theory FsImage
  imports InodeTree Text
begin

text \<open>
  Model of \<^verbatim>\<open>src/ndfs/fsimage.h\<close>: writing the tree to a text file and rebuilding it when the NameNode
  starts. The text is modelled character by character, so that the round trip covers the printing and
  parsing of paths and of block identifiers. The file system is a map from file names to contents;
  \<open>can_write\<close> says which files can be opened for writing, and \<open>renames\<close> is whether the rename of the file just
  written succeeds; the code does not look, but it raises when it asks for the size of an image that is not there. A block identifier that does not parse makes \<open>Load\<close> raise, as \<open>std::stoll\<close> does.
\<close>

section \<open>Save\<close>

fun SerializeNode :: "INode \<Rightarrow> string \<Rightarrow> string" where
  "SerializeNode (INode t n bs children) pre =
     concat (map (\<lambda>child.
       let full_path = pre @ ''/'' @ inode_name child
       in if inode_type child = kDirectory
          then ''DIR '' @ full_path @ [nl] @ SerializeNode child full_path
          else ''FILE '' @ full_path @ '' blocks=''
               @ join_with CHR '','' (map show_int64 (inode_blocks child)) @ [nl]) children)"

definition image_header :: string where
  "image_header = ''# mini-hadoop FsImage v1''"

definition FsImage_text :: "INode \<Rightarrow> string" where
  "FsImage_text root = image_header @ [nl] @ SerializeNode root ''''"

definition FsImage_Save :: "(string \<Rightarrow> bool) \<Rightarrow> bool \<Rightarrow> INode \<Rightarrow> string \<Rightarrow> files \<Rightarrow> files result" where
  "FsImage_Save can_write renames root path fs =
     (let tmp = path @ ''.tmp''
      in if \<not> can_write tmp then Inr fs
         else let fs1 = fs(tmp \<mapsto> FsImage_text root);
                  fs2 = (if renames then (fs1(path := fs1 tmp))(tmp := None) else fs1)
              in if fs2 path = None then Inl FilesystemError else Inr fs2)"

section \<open>Load\<close>

definition rfind :: "char \<Rightarrow> string \<Rightarrow> nat option" where
  "rfind c s = (if c \<in> set s then Some (length s - 1 - length (takeWhile (\<lambda>x. x \<noteq> c) (rev s)))
                else None)"

definition FsImage_GetParentDir :: "string \<Rightarrow> string" where
  "FsImage_GetParentDir path =
     (case rfind CHR ''/'' path of
        None \<Rightarrow> ''/''
      | Some pos \<Rightarrow> if pos = 0 then ''/'' else take pos path)"

fun load_blocks :: "string list \<Rightarrow> path \<Rightarrow> INode \<Rightarrow> INode result" where
  "load_blocks [] node root = Inr root"
| "load_blocks (bid # bids) node root =
     (if bid \<noteq> [] then
        (case stoll bid of
           Inl e \<Rightarrow> Inl e
         | Inr b \<Rightarrow> load_blocks bids node (update_at node (push_block b) root))
      else load_blocks bids node root)"

definition load_line :: "INode \<Rightarrow> string \<Rightarrow> INode result" where
  "load_line root line =
     (if line = [] \<or> line ! 0 = CHR ''#'' then Inr root
      else
        let (type, iss) = extract_word line
        in if type = ''DIR'' then
             (let (dirpath, iss1) = extract_word iss
              in Inr (if dirpath \<noteq> [] \<and> dirpath \<noteq> ''/'' then fst (tree_Mkdirs root dirpath) else root))
           else if type = ''FILE'' then
             (let (filepath, iss1) = extract_word iss;
                  (blocks_token, iss2) = extract_word iss1;
                  parent = FsImage_GetParentDir filepath;
                  root1 = (if parent \<noteq> ''/'' then fst (tree_Mkdirs root parent) else root)
              in case tree_CreateFile root1 filepath of
                   None \<Rightarrow> Inr root1
                 | Some root2 \<Rightarrow>
                     if prefix ''blocks='' blocks_token
                     then load_blocks (getlines CHR '','' (drop 7 blocks_token))
                            (SplitPath filepath) root2
                     else Inr root2)
           else Inr root)"

fun load_lines :: "INode \<Rightarrow> string list \<Rightarrow> INode result" where
  "load_lines root [] = Inr root"
| "load_lines root (line # lines) =
     (case load_line root line of Inl e \<Rightarrow> Inl e | Inr root' \<Rightarrow> load_lines root' lines)"

text \<open>The first line, if any, is skipped as the header.\<close>

definition FsImage_Load :: "INode \<Rightarrow> string \<Rightarrow> files \<Rightarrow> INode result" where
  "FsImage_Load root path fs =
     (case fs path of
        None \<Rightarrow> Inr root
      | Some content \<Rightarrow> load_lines root (tl (getlines nl content)))"

section \<open>Parent directories\<close>

lemma rfind_last: "c \<notin> set b \<Longrightarrow> rfind c (a @ c # b) = Some (length a)"
  by (simp add: rfind_def takeWhile_append)

lemma FsImage_GetParentDir_slash:
  "CHR ''/'' \<notin> set b \<Longrightarrow>
   FsImage_GetParentDir (a @ CHR ''/'' # b) = (if a = [] then ''/'' else a)"
  by (simp add: FsImage_GetParentDir_def rfind_last)

section \<open>Round trip\<close>

text \<open>Names that the text format can hold: no white space.\<close>

fun plain_names :: "INode \<Rightarrow> bool" where
  "plain_names (INode t n bs cs) \<longleftrightarrow> (\<forall>c \<in> set cs. is_word (inode_name c) \<and> plain_names c)"

lemma plain_names_iff:
  "plain_names n \<longleftrightarrow> (\<forall>c \<in> set (inode_children n). is_word (inode_name c) \<and> plain_names c)"
  by (cases n) simp

subsection \<open>Changing a subtree\<close>

text \<open>Children appended one by one, the way the loader builds a directory up.\<close>

definition add_children :: "INode list \<Rightarrow> INode \<Rightarrow> INode" where
  "add_children cs n =
     INode (inode_type n) (inode_name n) (inode_blocks n) (inode_children n @ cs)"

lemma add_children_simps [simp]:
  "add_children [] n = n" "add_children (c # cs) n = add_children cs (add_child n c)"
  "inode_name (add_children cs n) = inode_name n" "inode_type (add_children cs n) = inode_type n"
  by (simp_all add: add_children_def add_child_def)

lemma modify_child_comp:
  "(\<And>c. inode_name c = p \<Longrightarrow> inode_name (g c) = p) \<Longrightarrow>
   modify_child (modify_child n p g) p f = modify_child n p (f \<circ> g)"
proof -
  assume g: "\<And>c. inode_name c = p \<Longrightarrow> inode_name (g c) = p"
  have "modify_first (\<lambda>c. inode_name c = p) f (modify_first (\<lambda>c. inode_name c = p) g cs)
      = modify_first (\<lambda>c. inode_name c = p) (f \<circ> g) cs" for cs
    using g by (induction cs) auto
  then show ?thesis by (simp add: modify_child_def)
qed

lemma modify_child_cong:
  assumes "\<And>c. FindChild n p = Some c \<Longrightarrow> f c = g c"
  shows "modify_child n p f = modify_child n p g"
proof -
  have "modify_first P f cs = modify_first P g cs" if "\<And>c. List.find P cs = Some c \<Longrightarrow> f c = g c" for P cs
    using that by (induction cs) (auto split: if_splits)
  then show ?thesis using assms by (simp add: modify_child_def FindChild_def)
qed

lemma modify_child_id: "(\<And>c. FindChild n p = Some c \<Longrightarrow> f c = c) \<Longrightarrow> modify_child n p f = n"
proof -
  assume f: "\<And>c. FindChild n p = Some c \<Longrightarrow> f c = c"
  have "modify_first P id cs = cs" for P and cs :: "INode list"
    by (induction cs) auto
  then have "modify_child n p id = n" by (cases n) (simp add: modify_child_def)
  then show ?thesis using modify_child_cong [of n p f id] f by simp
qed

lemma update_at_comp:
  "(\<And>m. inode_name (g m) = inode_name m) \<Longrightarrow>
   update_at ps f (update_at ps g n) = update_at ps (f \<circ> g) n"
proof (induction ps arbitrary: n)
  case (Cons p ps)
  have "modify_child (modify_child n p (update_at ps g)) p (update_at ps f)
      = modify_child n p (update_at ps f \<circ> update_at ps g)"
    using Cons.prems by (intro modify_child_comp) (simp add: update_at_name)
  also have "update_at ps f \<circ> update_at ps g = update_at ps (f \<circ> g)"
    using Cons by (intro ext) (simp add: comp_def)
  finally show ?case by (simp add: comp_def)
qed simp

lemma update_at_Nil [simp]: "update_at [] f = f"
  by (intro ext) simp

lemma update_at_append: "update_at (ps @ qs) f = update_at ps (update_at qs f)"
  by (induction ps) (intro ext, simp)+

lemma update_at_cong:
  "(\<And>m. get_from n ps = Some m \<Longrightarrow> f m = g m) \<Longrightarrow> update_at ps f n = update_at ps g n"
  by (induction ps arbitrary: n) (auto intro!: modify_child_cong)

lemma get_from_update_at:
  "(\<And>m. inode_name (f m) = inode_name m) \<Longrightarrow> get_from n ps = Some d \<Longrightarrow>
   get_from (update_at ps f n) ps = Some (f d)"
  by (induction ps arbitrary: n)
     (auto simp: FindChild_modify_child update_at_name split: option.splits)

text \<open>A change below a child that was just added is a change of that child before it is added.\<close>

lemma update_added_child:
  assumes "get_from n ps = Some d" "FindChild d (inode_name x) = None"
  shows "update_at (ps @ [inode_name x]) g (update_at ps (\<lambda>d. add_child d x) n)
       = update_at ps (\<lambda>d. add_child d (g x)) n"
proof -
  have "modify_child (add_child d x) (inode_name x) g = add_child d (g x)"
  proof -
    have "modify_first (\<lambda>c. inode_name c = inode_name x) g (cs @ [x]) = cs @ [g x]"
      if "List.find (\<lambda>c. inode_name c = inode_name x) cs = None" for cs
      using that by (induction cs) (auto split: if_splits)
    then show ?thesis using assms(2) by (simp add: modify_child_def add_child_def FindChild_def)
  qed
  then have "update_at ps ((\<lambda>m. modify_child m (inode_name x) g) \<circ> (\<lambda>d. add_child d x)) n
      = update_at ps (\<lambda>d. add_child d (g x)) n"
    using assms(1) by (intro update_at_cong) simp
  moreover have "update_at [inode_name x] g = (\<lambda>m. modify_child m (inode_name x) g)"
    by (intro ext) simp
  ultimately show ?thesis by (simp add: update_at_append update_at_comp)
qed

subsection \<open>Operations on a path whose directories are there\<close>

lemma mkdirs_from_exists:
  "wf_node n \<Longrightarrow> get_from n ps = Some d \<Longrightarrow> inode_type d = kDirectory \<Longrightarrow> mkdirs_from ps n = (n, True)"
proof (induction ps arbitrary: n)
  case (Cons p ps)
  then obtain c where c: "FindChild n p = Some c" "get_from c ps = Some d"
    by (auto split: option.splits)
  have wf: "wf_node c" using FindChild_wf [OF Cons.prems(1) c(1)] by simp
  have "inode_type c = kDirectory"
  proof (cases ps)
    case (Cons q qs)
    then obtain e where "FindChild c q = Some e" using c(2) by (auto split: option.splits)
    with wf show ?thesis by (rule FindChild_dir)
  qed (use c Cons.prems in simp)
  moreover have "modify_child n p (\<lambda>_. c) = n" using c(1) by (intro modify_child_id) simp
  ultimately show ?case using c Cons wf by simp
qed simp

lemma mkdirs_from_snoc:
  "wf_node n \<Longrightarrow> get_from n ps = Some d \<Longrightarrow> inode_type d = kDirectory \<Longrightarrow> FindChild d p = None \<Longrightarrow>
   mkdirs_from (ps @ [p]) n = (update_at ps (\<lambda>d. add_child d (INode kDirectory p [] [])) n, True)"
proof (induction ps arbitrary: n)
  case (Cons q ps)
  then obtain c where c: "FindChild n q = Some c" "get_from c ps = Some d"
    by (auto split: option.splits)
  have wf: "wf_node c" using FindChild_wf [OF Cons.prems(1) c(1)] by simp
  have "inode_type c = kDirectory"
  proof (cases ps)
    case (Cons r qs)
    then obtain e where "FindChild c r = Some e" using c(2) by (auto split: option.splits)
    with wf show ?thesis by (rule FindChild_dir)
  qed (use c Cons.prems in simp)
  then show ?case using c Cons wf by (auto intro!: modify_child_cong)
qed simp

lemma create_from_exists:
  "wf_node n \<Longrightarrow> get_from n ps = Some d \<Longrightarrow> inode_type d = kDirectory \<Longrightarrow> FindChild d p = None \<Longrightarrow>
   create_from ps p n = Some (update_at ps (\<lambda>d. add_child d (INode kFile p [] [])) n)"
proof (induction ps arbitrary: n)
  case (Cons q ps)
  then obtain c where c: "FindChild n q = Some c" "get_from c ps = Some d"
    by (auto split: option.splits)
  have wf: "wf_node c" using FindChild_wf [OF Cons.prems(1) c(1)] by simp
  have "inode_type c = kDirectory"
  proof (cases ps)
    case (Cons r qs)
    then obtain e where "FindChild c r = Some e" using c(2) by (auto split: option.splits)
    with wf show ?thesis by (rule FindChild_dir)
  qed (use c Cons.prems in simp)
  then show ?case using c Cons wf by (auto intro!: modify_child_cong)
qed simp

lemma wf_update_add_child:
  "wf_node n \<Longrightarrow> get_from n ps = Some d \<Longrightarrow> inode_type d = kDirectory \<Longrightarrow>
   FindChild d (inode_name x) = None \<Longrightarrow> wf_node x \<Longrightarrow> valid_name (inode_name x) \<Longrightarrow>
   wf_node (update_at ps (\<lambda>d. add_child d x) n)"
proof (induction ps arbitrary: n)
  case Nil
  then show ?case by (auto intro: wf_add_child)
next
  case (Cons q ps)
  then obtain c where c: "FindChild n q = Some c" "get_from c ps = Some d"
    by (auto split: option.splits)
  have "wf_node c" using FindChild_wf [OF Cons.prems(1) c(1)] by simp
  then show ?case
    using Cons c by (auto intro!: wf_modify_child simp: update_at_name)
qed

subsection \<open>Loading one line\<close>

lemma load_blocks_shows:
  "load_blocks (map show_int64 bs) ps n = Inr (update_at ps (\<lambda>m. fold push_block bs m) n)"
proof (induction bs arbitrary: n)
  case Nil
  have "update_at ps (\<lambda>m. m) n = n"
    by (induction ps arbitrary: n) (auto intro!: modify_child_id)
  then show ?case by simp
next
  case (Cons b bs)
  have "show_int64 b \<noteq> []" by (simp add: show_int64_def)
  then show ?case using Cons by (simp add: stoll_show_int64 update_at_comp comp_def)
qed

lemma fold_push_block:
  "fold push_block bs (INode t n cs xs) = INode t n (cs @ bs) xs"
  by (induction bs arbitrary: cs) (simp_all add: push_block_def)

lemma join_path_word: "list_all is_word ps \<Longrightarrow> ps \<noteq> [] \<Longrightarrow> is_word (join_path ps)"
  by (cases ps) (auto simp: join_path_def is_word_def list_all_iff isspace_def)

lemma join_path_snoc: "join_path (ps @ [p]) = join_path ps @ CHR ''/'' # p"
  by (simp add: join_path_def)

lemma load_line_DIR:
  assumes "list_all is_word ps" "list_all valid_name ps" "is_word p" "valid_name p"
  shows "load_line root (''DIR '' @ join_path ps @ CHR ''/'' # p)
       = Inr (fst (mkdirs_from (ps @ [p]) root))"
proof -
  let ?d = "join_path ps @ CHR ''/'' # p"
  have d: "?d = join_path (ps @ [p])" by (simp add: join_path_snoc)
  have word: "is_word ?d" unfolding d using assms by (intro join_path_word) simp_all
  have "extract_word (''DIR'' @ CHR '' '' # ?d) = (''DIR'', CHR '' '' # ?d)"
    by (rule extract_word_sep) (simp_all add: is_word_def isspace_def)
  moreover have "extract_word (CHR '' '' # ?d) = (?d, [])"
    using extract_word_end [OF word] by (simp add: extract_word_space isspace_def)
  moreover have "?d \<noteq> [] \<and> ?d \<noteq> ''/''" using assms(4) by (auto simp: valid_name_def append_eq_Cons_conv)
  moreover have "SplitPath ?d = ps @ [p]" unfolding d using assms by (intro SplitPath_join) simp
  ultimately show ?thesis by (simp add: load_line_def tree_Mkdirs_def)
qed

lemma load_line_FILE:
  assumes "list_all is_word ps" "list_all valid_name ps" "is_word p" "valid_name p"
    and "wf_node root" "get_from root ps = Some d" "inode_type d = kDirectory" "FindChild d p = None"
  shows "load_line root (''FILE '' @ (join_path ps @ CHR ''/'' # p) @ '' blocks=''
           @ join_with CHR '','' (map show_int64 bs))
       = Inr (update_at ps (\<lambda>d. add_child d (INode kFile p bs [])) root)"
proof -
  let ?f = "join_path ps @ CHR ''/'' # p"
    and ?t = "''blocks='' @ join_with CHR '','' (map show_int64 bs)"
  have f: "?f = join_path (ps @ [p])" by (simp add: join_path_snoc)
  have wordf: "is_word ?f" unfolding f using assms by (intro join_path_word) simp_all
  have join_chars: "c \<in> set (join_with CHR '','' (map show_int64 xs)) \<Longrightarrow> \<not> isspace c" for c xs
  proof (induction xs rule: induct_list012)
    case (2 x)
    then show ?case using show_int_word [of "sint x"] by (auto simp: is_word_def list_all_iff show_int64_def)
  next
    case (3 x y xs)
    then show ?case
      using show_int_word [of "sint x"]
      by (auto simp: is_word_def list_all_iff show_int64_def isspace_def)
  qed simp
  then have wordt: "is_word ?t" by (auto simp: is_word_def list_all_iff isspace_def)
  have "extract_word (''FILE'' @ CHR '' '' # ?f @ CHR '' '' # ?t) = (''FILE'', CHR '' '' # ?f @ CHR '' '' # ?t)"
    by (rule extract_word_sep) (simp_all add: is_word_def isspace_def)
  moreover have "extract_word (CHR '' '' # ?f @ CHR '' '' # ?t) = (?f, CHR '' '' # ?t)"
    using extract_word_sep [OF wordf, of "CHR '' ''" ?t] by (simp add: extract_word_space isspace_def)
  moreover have "extract_word (CHR '' '' # ?t) = (?t, [])"
    using extract_word_end [OF wordt] by (simp add: extract_word_space isspace_def)
  moreover have "getlines CHR '','' (drop 7 ?t) = map show_int64 bs"
  proof -
    have "getlines CHR '','' (join_with CHR '','' (map show_int64 bs)) = map show_int64 bs"
      using show_int_no_comma by (intro getlines_join) (auto simp: show_int64_def)
    then show ?thesis by simp
  qed
  moreover have split: "SplitPath ?f = ps @ [p]" unfolding f using assms by (intro SplitPath_join) simp
  moreover have "(if FsImage_GetParentDir ?f \<noteq> ''/'' then fst (tree_Mkdirs root (FsImage_GetParentDir ?f)) else root) = root"
  proof (cases "ps = []")
    case False
    have "FsImage_GetParentDir ?f = join_path ps"
      using FsImage_GetParentDir_slash [of p "join_path ps"] assms(4) False
      by (auto simp: valid_name_def join_path_def)
    then show ?thesis
      using mkdirs_from_exists [OF assms(5-7)] SplitPath_join [OF assms(2)] by (simp add: tree_Mkdirs_def)
  qed (use assms(4) FsImage_GetParentDir_slash [of p "[]"] in \<open>simp add: join_path_def valid_name_def\<close>)
  moreover have "tree_CreateFile root ?f
      = Some (update_at ps (\<lambda>d. add_child d (INode kFile p [] [])) root)"
    using create_from_exists [OF assms(5-8)] split by (simp add: tree_CreateFile_def)
  moreover have "load_blocks (map show_int64 bs) (ps @ [p])
        (update_at ps (\<lambda>d. add_child d (INode kFile p [] [])) root)
      = Inr (update_at ps (\<lambda>d. add_child d (INode kFile p bs [])) root)"
    using update_added_child [OF assms(6), of "INode kFile p [] []"] assms(8)
    by (simp add: load_blocks_shows fold_push_block)
  moreover have "prefix ''blocks='' ?t" by (rule prefixI) (rule refl)
  ultimately show ?thesis by (simp add: load_line_def)
qed

subsection \<open>The lines of an image\<close>

fun node_lines :: "INode \<Rightarrow> string \<Rightarrow> string list" where
  "node_lines (INode t n bs cs) pre =
     concat (map (\<lambda>c.
       if inode_type c = kDirectory
       then (''DIR '' @ pre @ CHR ''/'' # inode_name c) # node_lines c (pre @ CHR ''/'' # inode_name c)
       else [''FILE '' @ (pre @ CHR ''/'' # inode_name c) @ '' blocks=''
             @ join_with CHR '','' (map show_int64 (inode_blocks c))]) cs)"

lemma SerializeNode_lines: "SerializeNode n pre = concat (map (\<lambda>l. l @ [nl]) (node_lines n pre))"
proof (induction n pre rule: SerializeNode.induct)
  case (1 t n bs cs pre)
  then show ?case
    by (induction cs) (auto simp: Let_def)
qed

lemma join_blocks_no_nl: "nl \<notin> set (join_with CHR '','' (map show_int64 bs))"
proof (induction bs rule: induct_list012)
  case (2 x)
  then show ?case using show_int_chars [of nl "sint x"] by (auto simp: show_int64_def isdigit_def)
next
  case (3 x y xs)
  then show ?case using show_int_chars [of nl "sint x"] by (auto simp: show_int64_def isdigit_def)
qed simp

lemma is_word_no_nl: "is_word w \<Longrightarrow> nl \<notin> set w"
  by (auto simp: is_word_def list_all_iff isspace_def)

lemma node_lines_no_nl:
  "plain_names n \<Longrightarrow> nl \<notin> set pre \<Longrightarrow> l \<in> set (node_lines n pre) \<Longrightarrow> nl \<notin> set l"
proof (induction n pre arbitrary: l rule: node_lines.induct)
  case (1 t n bs cs pre)
  then obtain c where c: "c \<in> set cs" "is_word (inode_name c)" "plain_names c"
    and l: "l \<in> set (if inode_type c = kDirectory
       then (''DIR '' @ pre @ CHR ''/'' # inode_name c) # node_lines c (pre @ CHR ''/'' # inode_name c)
       else [''FILE '' @ (pre @ CHR ''/'' # inode_name c) @ '' blocks=''
             @ join_with CHR '','' (map show_int64 (inode_blocks c))])"
    by auto
  have "nl \<notin> set (pre @ CHR ''/'' # inode_name c)"
    using is_word_no_nl [OF c(2)] "1.prems"(2) by simp
  then show ?case
    using "1.IH" [OF c(1) _ c(3)] l join_blocks_no_nl by (auto split: if_splits)
qed

lemma load_lines_append:
  "load_lines root (xs @ ys)
   = (case load_lines root xs of Inl e \<Rightarrow> Inl e | Inr root' \<Rightarrow> load_lines root' ys)"
  by (induction xs arbitrary: root) (auto split: sum.split)

text \<open>Loading the lines of a node below the path \<open>ps\<close> gives the directory there the node's children.\<close>

definition loads :: "INode \<Rightarrow> bool" where
  "loads n \<longleftrightarrow> (\<forall>root ps d. wf_node root \<longrightarrow> get_from root ps = Some d \<longrightarrow> inode_type d = kDirectory \<longrightarrow>
     list_all is_word ps \<longrightarrow> list_all valid_name ps \<longrightarrow>
     (\<forall>c \<in> set (inode_children n). FindChild d (inode_name c) = None) \<longrightarrow>
     load_lines root (node_lines n (join_path ps))
     = Inr (update_at ps (add_children (inode_children n)) root))"

lemma load_child:
  assumes root: "wf_node root" "get_from root ps = Some d" "inode_type d = kDirectory"
    and ps: "list_all is_word ps" "list_all valid_name ps"
    and c: "loads c" "wf_node c" "is_word (inode_name c)" "valid_name (inode_name c)"
    and free: "FindChild d (inode_name c) = None"
  shows "load_lines root (node_lines (INode t n bs [c]) (join_path ps))
       = Inr (update_at ps (\<lambda>d. add_child d c) root)"
proof (cases "inode_type c")
  case kDirectory
  let ?p = "inode_name c" and ?new = "INode kDirectory (inode_name c) [] []"
  let ?root1 = "update_at ps (\<lambda>d. add_child d ?new) root"
  have line: "load_line root (''DIR '' @ join_path ps @ CHR ''/'' # ?p) = Inr ?root1"
    using load_line_DIR [OF ps c(3,4)] mkdirs_from_snoc [OF root free] by simp
  have wf1: "wf_node ?root1" using root c free by (intro wf_update_add_child) simp_all
  have "get_from ?root1 ps = Some (add_child d ?new)"
    using root(2) by (intro get_from_update_at) simp_all
  then have "get_from ?root1 (ps @ [?p]) = Some ?new"
    using FindChild_add_child [of d ?new] free by (simp add: get_from_append)
  then have "load_lines ?root1 (node_lines c (join_path (ps @ [?p])))
      = Inr (update_at (ps @ [?p]) (add_children (inode_children c)) ?root1)"
    using c ps wf1 by (simp add: loads_def)
  also have "update_at (ps @ [?p]) (add_children (inode_children c)) ?root1
      = update_at ps (\<lambda>d. add_child d (add_children (inode_children c) ?new)) root"
    using update_added_child [OF root(2), of ?new] free by simp
  also have "add_children (inode_children c) ?new = c"
    using kDirectory c(2) by (cases c) (simp add: add_children_def)
  finally show ?thesis using line kDirectory by (simp add: join_path_snoc)
next
  case kFile
  have "c = INode kFile (inode_name c) (inode_blocks c) []"
    using kFile c(2) by (cases c) simp
  then show ?thesis
    using load_line_FILE [OF ps c(3,4) root free, of "inode_blocks c"] kFile by simp
qed

lemma node_lines_Cons:
  "node_lines (INode t n bs (c # cs)) pre
   = node_lines (INode t n bs [c]) pre @ node_lines (INode t n bs cs) pre"
  by simp

lemma load_children:
  assumes "\<And>c. c \<in> set cs \<Longrightarrow> loads c \<and> wf_node c \<and> is_word (inode_name c) \<and> valid_name (inode_name c)"
    and "distinct (map inode_name cs)"
    and "wf_node root" "get_from root ps = Some d" "inode_type d = kDirectory"
    and ps: "list_all is_word ps" "list_all valid_name ps"
    and "\<And>c. c \<in> set cs \<Longrightarrow> FindChild d (inode_name c) = None"
  shows "load_lines root (node_lines (INode t n bs cs) (join_path ps))
       = Inr (update_at ps (add_children cs) root)"
  using assms(1-5,8)
proof (induction cs arbitrary: root d)
  case Nil
  have "update_at ps (\<lambda>m. m) root = root" for root
    by (induction ps arbitrary: root) (auto intro!: modify_child_id)
  moreover have "add_children [] = (\<lambda>m. m)" by (intro ext) simp
  ultimately show ?case by simp
next
  case (Cons c cs)
  have c: "loads c" "wf_node c" "is_word (inode_name c)" "valid_name (inode_name c)"
    and free: "FindChild d (inode_name c) = None"
    using Cons.prems(1,6) by simp_all
  let ?root1 = "update_at ps (\<lambda>d. add_child d c) root"
  have first: "load_lines root (node_lines (INode t n bs [c]) (join_path ps)) = Inr ?root1"
    using Cons.prems(3-5) ps c free by (rule load_child)
  have "load_lines ?root1 (node_lines (INode t n bs cs) (join_path ps))
      = Inr (update_at ps (add_children cs) ?root1)"
  proof (rule Cons.IH)
    show "get_from ?root1 ps = Some (add_child d c)"
      using Cons.prems(4) by (intro get_from_update_at) simp_all
    show "wf_node ?root1" by (rule wf_update_add_child [OF Cons.prems(3-5) free c(2,4)])
    show "FindChild (add_child d c) (inode_name c') = None" if "c' \<in> set cs" for c'
    proof -
      have "inode_name c' \<noteq> inode_name c" using that Cons.prems(2) by (auto simp: image_iff)
      moreover have "FindChild d (inode_name c') = None" using that Cons.prems(6) by simp
      ultimately show ?thesis using free by (simp add: FindChild_add_child)
    qed
  qed (use Cons.prems in auto)
  moreover have "update_at ps (add_children cs) ?root1 = update_at ps (add_children (c # cs)) root"
  proof -
    have "add_children cs \<circ> (\<lambda>d. add_child d c) = add_children (c # cs)" by (intro ext) simp
    then show ?thesis by (simp add: update_at_comp)
  qed
  ultimately show ?case
    using first unfolding node_lines_Cons [of t n bs c cs] load_lines_append
    by (simp only: sum.case)
qed

lemma loads_plain: "wf_node n \<Longrightarrow> plain_names n \<Longrightarrow> loads n"
proof (induction n)
  case (INode t n bs cs)
  have cs: "loads c \<and> wf_node c \<and> is_word (inode_name c) \<and> valid_name (inode_name c)" if "c \<in> set cs" for c
    using INode.IH [OF that] INode.prems that by simp
  show ?case
    unfolding loads_def using cs INode.prems(1)
    by (auto simp del: node_lines.simps intro!: load_children)
qed

lemma load_saved_text:
  assumes "wf_tree t" "plain_names t"
  shows "load_lines InodeTree_new (tl (getlines nl (FsImage_text t))) = Inr t"
proof -
  have body: "getlines nl (concat (map (\<lambda>l. l @ [nl]) (node_lines t []))) = node_lines t []"
    using node_lines_no_nl [OF assms(2), of "[]"] by (intro getlines_concat) simp
  have "FsImage_text t = image_header @ nl # concat (map (\<lambda>l. l @ [nl]) (node_lines t []))"
    by (simp add: FsImage_text_def SerializeNode_lines)
  moreover have "nl \<notin> set image_header" by (simp add: image_header_def)
  ultimately have "getlines nl (FsImage_text t) = image_header # node_lines t (join_path [])"
    using body by (simp only: getlines_line not_False_eq_True join_path_def list.map concat.simps)
  moreover have "load_lines InodeTree_new (node_lines t (join_path []))
      = Inr (update_at [] (add_children (inode_children t)) InodeTree_new)"
    using loads_plain [of t] assms(1,2) by (auto simp: wf_tree_def loads_def InodeTree_new_def)
  moreover have "add_children (inode_children t) InodeTree_new = t"
    using assms(1) by (cases t) (simp add: wf_tree_def add_children_def InodeTree_new_def)
  ultimately show ?thesis by simp
qed

lemma FsImage_Save_content:
  assumes "can_write (path @ ''.tmp'')"
  shows "\<exists>fs'. FsImage_Save can_write True t path fs = Inr fs' \<and> fs' path = Some (FsImage_text t)"
proof -
  have "path \<noteq> path @ ''.tmp''" by simp
  then show ?thesis using assms by (simp add: FsImage_Save_def Let_def)
qed

text \<open>A save that fails: nothing happens if the temporary file cannot be written; if it cannot be renamed, an old image
  stays as it was without a word, and without one the save raises.\<close>

lemma FsImage_Save_fails:
  "\<not> can_write (path @ ''.tmp'') \<Longrightarrow> FsImage_Save can_write renames t path fs = Inr fs"
  "can_write (path @ ''.tmp'') \<Longrightarrow> fs path = Some old \<Longrightarrow>
     FsImage_Save can_write False t path fs = Inr (fs(path @ ''.tmp'' \<mapsto> FsImage_text t))
     \<and> (fs(path @ ''.tmp'' \<mapsto> FsImage_text t)) path = Some old"
  "can_write (path @ ''.tmp'') \<Longrightarrow> fs path = None \<Longrightarrow> FsImage_Save can_write False t path fs = Inl FilesystemError"
  by (simp_all add: FsImage_Save_def Let_def)

text \<open>A name with a blank does not survive: the rest of the name is taken for the block list.\<close>

lemma FsImage_blank_in_name:
  "load_lines InodeTree_new (tl (getlines nl (FsImage_text (INode kDirectory [] [] [INode kFile ''a b'' [7] []]))))
   = Inr (INode kDirectory [] [] [INode kFile ''a'' [] []])"
  by code_simp

section \<open>Properties\<close>

text \<open>C4. Saving a namespace and loading it into an empty tree, as a restart of the NameNode does,
  gives back exactly the same tree (directories, files, their order and the block lists of the files,
  negative identifiers included), provided that no name contains white space and the image can be written and renamed.\<close>

theorem FsImage_roundtrip:
  assumes "wf_tree t" "plain_names t" "can_write (path @ ''.tmp'')"
  shows "\<exists>fs'. FsImage_Save can_write True t path fs = Inr fs' \<and> FsImage_Load InodeTree_new path fs' = Inr t"
  using FsImage_Save_content [of can_write, OF assms(3)] load_saved_text [OF assms(1,2)] by (fastforce simp: FsImage_Load_def)

text \<open>A tree with a directory, a file with two blocks and an empty file.\<close>

definition sample_tree :: INode where
  "sample_tree = INode kDirectory [] []
     [INode kDirectory ''data'' [] [INode kFile ''a.txt'' [12, -7] []], INode kFile ''empty'' [] []]"

lemma wf_sample_tree: "wf_tree sample_tree"
  by (simp add: wf_tree_def sample_tree_def valid_name_def)

theorem FsImage_roundtrip_witness:
  "\<exists>fs'. FsImage_Save (\<lambda>_. True) True sample_tree ''img'' Map.empty = Inr fs'
     \<and> FsImage_Load InodeTree_new ''img'' fs' = Inr sample_tree"
  by (rule FsImage_roundtrip [OF wf_sample_tree])
     (simp_all add: sample_tree_def is_word_def isspace_def)

end
