(* ===== verification/Sums.thy ===== *)
theory Sums
  imports Prelude
begin

text \<open>
  Loops that add up \<open>int64_t\<close> values. The sum of two is undefined if it overflows (\<open>add64\<close>); a loop over a
  list whose body may raise is \<open>fold_result\<close>. Adding up a list returns its sum if the sums of all its prefixes fit,
  and runs into the overflow otherwise. The word count and the statistics of the NameNode are such loops.
\<close>

text \<open>A loop over a list whose body may raise.\<close>

fun fold_result :: "('a \<Rightarrow> 's \<Rightarrow> 's result) \<Rightarrow> 'a list \<Rightarrow> 's \<Rightarrow> 's result" where
  "fold_result f [] s = Inr s"
| "fold_result f (x # xs) s = (case f x s of Inl e \<Rightarrow> Inl e | Inr s' \<Rightarrow> fold_result f xs s')"

definition in_int64 :: "int \<Rightarrow> bool" where
  "in_int64 i \<longleftrightarrow> - (2 ^ 63) \<le> i \<and> i < 2 ^ 63"

definition add64 :: "int64 \<Rightarrow> int64 \<Rightarrow> int64 result" where
  "add64 a b = (if in_int64 (sint a + sint b) then Inr (a + b) else Inl Undefined)"

lemma sint_in_int64: "in_int64 i \<Longrightarrow> sint (word_of_int i :: int64) = i"
  by (simp add: in_int64_def signed_of_int signed_take_bit_int_eq_self)

lemma sint_add_int: "in_int64 (sint (a :: int64) + i) \<Longrightarrow> sint (a + word_of_int i) = sint a + i"
  using sint_in_int64 [of "sint a + i"] by simp

lemma sint_add_length:
  "in_int64 (sint (a :: int64) + (int n + 1)) \<Longrightarrow> sint (a + (word_of_nat n + 1)) = sint a + (int n + 1)"
  using sint_add_int [of a "int n + 1"] by simp

lemma sint_length: "in_int64 (int n + 1) \<Longrightarrow> sint (word_of_nat n + 1 :: int64) = int n + 1"
  using sint_add_length [of 0 n] by simp

text \<open>The sums of all prefixes fit into an \<open>int64_t\<close>: adding up the list overflows nowhere.\<close>

definition sums_ok :: "int64 list \<Rightarrow> bool" where
  "sums_ok vs \<longleftrightarrow> (\<forall>n\<in>set [0..<Suc (length vs)]. in_int64 (sum_list (map sint (take n vs))))"

definition total64 :: "int64 list \<Rightarrow> int64" where
  "total64 vs = word_of_int (sum_list (map sint vs))"

lemma sums_ok_iff: "sums_ok vs \<longleftrightarrow> (\<forall>n\<le>length vs. in_int64 (sum_list (map sint (take n vs))))"
  by (auto simp: sums_ok_def le_less)

lemma sums_okD: "sums_ok vs \<Longrightarrow> n \<le> length vs \<Longrightarrow> in_int64 (sum_list (map sint (take n vs)))"
  by (simp add: sums_ok_iff)

lemma sums_ok_total: "sums_ok vs \<Longrightarrow> sint (total64 vs) = sum_list (map sint vs)"
  using sums_okD [of vs "length vs"] by (simp add: total64_def sint_in_int64)

lemma sums_ok_prefix: "sums_ok (vs @ ws) \<Longrightarrow> sums_ok vs"
proof (unfold sums_ok_iff [of vs], intro allI impI)
  fix n
  assume "sums_ok (vs @ ws)" "n \<le> length vs"
  then show "in_int64 (sum_list (map sint (take n vs)))" using sums_okD [of "vs @ ws" n] by simp
qed

lemma total64_snoc: "total64 (vs @ [v]) = total64 vs + v"
  by (simp add: total64_def)

lemma add64_total: "sums_ok (vs @ [v]) \<Longrightarrow> add64 (total64 vs) v = Inr (total64 (vs @ [v]))"
  using sums_ok_total [OF sums_ok_prefix, of vs "[v]"] sums_okD [of "vs @ [v]" "length (vs @ [v])"]
  by (simp add: add64_def total64_snoc)

lemma sums_ok_single [simp]: "sums_ok [v]" "total64 [v] = v"
  using sint_greater_eq [of v] sint_less [of v] by (auto simp: sums_ok_def in_int64_def total64_def)

lemma sums_ok_snoc: "sums_ok (vs @ [v]) \<longleftrightarrow> sums_ok vs \<and> in_int64 (sint (total64 vs) + sint v)"
proof
  assume ok: "sums_ok (vs @ [v])"
  then have "sums_ok vs" by (rule sums_ok_prefix)
  then show "sums_ok vs \<and> in_int64 (sint (total64 vs) + sint v)"
    using sums_okD [OF ok, of "length (vs @ [v])"] by (simp add: sums_ok_total)
next
  assume ok: "sums_ok vs \<and> in_int64 (sint (total64 vs) + sint v)"
  show "sums_ok (vs @ [v])"
    unfolding sums_ok_iff
  proof (intro allI impI)
    fix n assume "n \<le> length (vs @ [v])"
    then consider "n \<le> length vs" | "n = length (vs @ [v])" by fastforce
    then show "in_int64 (sum_list (map sint (take n (vs @ [v]))))"
      using ok sums_okD [of vs n] by cases (auto simp: sums_ok_total)
  qed
qed

lemma sum_loop_from:
  assumes "sums_ok us"
  shows "fold_result (\<lambda>x s. add64 s (g x)) xs (total64 us)
    = (if sums_ok (us @ map g xs) then Inr (total64 (us @ map g xs)) else Inl Undefined)"
  using assms
proof (induction xs arbitrary: us)
  case (Cons x xs)
  show ?case
  proof (cases "sums_ok (us @ [g x])")
    case True
    then show ?thesis using Cons.IH [of "us @ [g x]"] by (simp add: add64_total)
  next
    case False
    then have "\<not> sums_ok (us @ map g (x # xs))" using sums_ok_prefix [of "us @ [g x]" "map g xs"] by auto
    moreover have "add64 (total64 us) (g x) = Inl Undefined" using False Cons.prems by (simp add: sums_ok_snoc add64_def)
    ultimately show ?thesis by simp
  qed
qed simp

text \<open>The loop from 0, for the values that \<open>g\<close> has on the elements.\<close>

lemma sum_loop:
  "fold_result (\<lambda>x s. add64 s (g x)) xs 0 = (if sums_ok (map g xs) then Inr (total64 (map g xs)) else Inl Undefined)"
proof -
  have "sums_ok []" "total64 [] = 0" by (simp_all add: sums_ok_def in_int64_def total64_def)
  then show ?thesis using sum_loop_from [of "[]" g xs] by simp
qed

end
