(* ===== verification/FsNamesystem.thy ===== *)
theory FsNamesystem
  imports FsImage Sums
begin

text \<open>
  Model of \<^verbatim>\<open>src/ndfs/fs_namesystem.h\<close> (with the structs of \<^verbatim>\<open>block.h\<close> and \<^verbatim>\<open>datanode_info.h\<close>), the core of the
  NameNode: the tree, the table of DataNodes, the block map, safe mode, leases and the search for
  under-replicated blocks. Every client and DataNode operation of the C++ class runs under the mutex,
  so an operation is one function on the state.

  What an operation takes from outside the class is an argument: the random identifier of a new block
  (\<open>bid\<close>), the clock (\<open>now\<close>), and the order in which a loop visits an unordered map (\<open>ord\<close>).
  The invariant \<open>ns_inv\<close> holds in every reachable state (\<open>ns_reachable\<close>).
\<close>

section \<open>State\<close>

record Block =
  block_id :: int64
  num_bytes :: int64
  generation_stamp :: int64

definition Block_default :: Block where
  "Block_default = \<lparr>block_id = 0, num_bytes = 0, generation_stamp = 0\<rparr>"

text \<open>\<open>bid\<close> is what the random generator returns.\<close>

definition Block_Generate :: "int64 \<Rightarrow> int64 \<Rightarrow> Block" where
  "Block_Generate bid n = \<lparr>block_id = bid, num_bytes = n, generation_stamp = 0\<rparr>"

record DataNodeInfo =
  dn_name :: string
  dn_host :: string
  dn_port :: int32
  dn_capacity :: int64
  dn_remaining :: int64
  dn_last_update :: int64

record Lease =
  lease_holder :: string
  lease_path :: string
  lease_expiry :: int64

record FsNamesystem =
  ns_tree :: INode
  ns_datanodes :: "(string, DataNodeInfo) umap"
  ns_block_to_datanodes :: "(int64, DataNodeInfo list) umap"
  ns_dn_to_blocks :: "(string, Block list) umap"
  ns_total_blocks :: nat
  ns_safe_blocks :: nat
  ns_safe_mode_countdown :: int
  ns_leases :: "(string, Lease) umap"

definition FsNamesystem_new :: FsNamesystem where
  "FsNamesystem_new = \<lparr>ns_tree = InodeTree_new, ns_datanodes = [], ns_block_to_datanodes = [],
     ns_dn_to_blocks = [], ns_total_blocks = 0, ns_safe_blocks = 0, ns_safe_mode_countdown = 30,
     ns_leases = []\<rparr>"

definition kDefaultBlockSize :: nat where
  "kDefaultBlockSize = 64 * 1024 * 1024"

definition kDefaultReplication :: nat where
  "kDefaultReplication = 3"

definition kLeaseTimeout :: int64 where
  "kLeaseTimeout = 60"

section \<open>Helpers\<close>

definition GetParentDir :: "string \<Rightarrow> string" where
  "GetParentDir path =
     (case rfind CHR ''/'' path of
        None \<Rightarrow> ''/''
      | Some pos \<Rightarrow> if pos = 0 then ''/'' else take pos path)"

text \<open>The loop of \<open>ChooseTargets\<close>: push the node, stop once there are enough.\<close>

fun choose_loop :: "int \<Rightarrow> (string \<times> DataNodeInfo) list \<Rightarrow> DataNodeInfo list \<Rightarrow> DataNodeInfo list" where
  "choose_loop replication [] targets = targets"
| "choose_loop replication ((name, info) # ord) targets =
     (let targets' = targets @ [info]
      in if int (length targets') \<ge> replication then targets'
         else choose_loop replication ord targets')"

definition ChooseTargets :: "int \<Rightarrow> (string \<times> DataNodeInfo) list \<Rightarrow> DataNodeInfo list" where
  "ChooseTargets replication ord = choose_loop replication ord []"

subsection \<open>Safe mode\<close>

text \<open>The quotient \<open>safe / total\<close> of two counts below \<open>2^53\<close> is rounded to a multiple of \<open>2^-53\<close> (to even
  on a tie) when it lies between one half and one; the threshold \<open>0.999\<close> is the double
  \<open>8998192055486251 / 2^53\<close>. Below one half both sides of the comparison say yes.\<close>

definition round_half_even :: "nat \<Rightarrow> nat \<Rightarrow> nat" where
  "round_half_even n d =
     (let q = n div d; r = n mod d
      in if 2 * r < d then q else if 2 * r > d then q + 1 else if even q then q else q + 1)"

definition ratio_below_threshold :: "nat \<Rightarrow> nat \<Rightarrow> bool" where
  "ratio_below_threshold safe_n total_n = (round_half_even (safe_n * 2 ^ 53) total_n < 8998192055486251)"

definition InSafeMode :: "FsNamesystem \<Rightarrow> bool" where
  "InSafeMode ns =
     (if ns_datanodes ns = [] then True
      else if ns_total_blocks ns = 0 then False
      else ratio_below_threshold (ns_safe_blocks ns) (ns_total_blocks ns))"

definition EnterSafeMode :: "FsNamesystem \<Rightarrow> FsNamesystem" where
  "EnterSafeMode ns = ns\<lparr>ns_safe_mode_countdown := 30\<rparr>"

definition UpdateSafeMode :: "FsNamesystem \<Rightarrow> FsNamesystem" where
  "UpdateSafeMode ns =
     (let total_n = length (ns_block_to_datanodes ns);
          safe_n = length (filter (\<lambda>(bid, dns). dns \<noteq> []) (ns_block_to_datanodes ns));
          ns1 = ns\<lparr>ns_total_blocks := total_n, ns_safe_blocks := safe_n\<rparr>
      in if ns_safe_mode_countdown ns1 > 0
         then ns1\<lparr>ns_safe_mode_countdown := ns_safe_mode_countdown ns1 - 1\<rparr> else ns1)"

definition CanWrite :: "FsNamesystem \<Rightarrow> bool" where
  "CanWrite ns = (ns_safe_mode_countdown ns \<le> 0 \<and> \<not> InSafeMode ns)"

section \<open>Client operations\<close>

type_synonym alloc_result = "Block \<times> DataNodeInfo list"

text \<open>The result \<open>{}\<close> of a refused request.\<close>

definition no_alloc :: alloc_result where
  "no_alloc = (Block_default, [])"

text \<open>Common to \<open>StartFile\<close> and \<open>AddBlock\<close>: a new block is mapped and appended to the file at the path.\<close>

definition alloc_block ::
  "string \<Rightarrow> int64 \<Rightarrow> (string \<times> DataNodeInfo) list \<Rightarrow> FsNamesystem \<Rightarrow> alloc_result \<times> FsNamesystem" where
  "alloc_block path bid ord ns =
     (let block = Block_Generate bid 0;
          targets = ChooseTargets (int kDefaultReplication) ord
      in ((block, targets),
          ns\<lparr>ns_block_to_datanodes := um_put (block_id block) targets (ns_block_to_datanodes ns),
             ns_tree := update_at (SplitPath path) (push_block (block_id block)) (ns_tree ns)\<rparr>))"

definition StartFile ::
  "string \<Rightarrow> bool \<Rightarrow> int64 \<Rightarrow> (string \<times> DataNodeInfo) list \<Rightarrow> FsNamesystem \<Rightarrow> alloc_result \<times> FsNamesystem" where
  "StartFile path overwrite bid ord ns =
     (if InSafeMode ns then (no_alloc, ns)
      else
        let existing = (GetNode (ns_tree ns) path \<noteq> None)
        in if existing \<and> \<not> overwrite then (no_alloc, ns)
           else
             let t1 = (if existing \<and> overwrite then fst (tree_Delete (ns_tree ns) path) else ns_tree ns);
                 t2 = fst (tree_Mkdirs t1 (GetParentDir path))
             in case tree_CreateFile t2 path of
                  None \<Rightarrow> (no_alloc, ns\<lparr>ns_tree := t2\<rparr>)
                | Some t3 \<Rightarrow> alloc_block path bid ord (ns\<lparr>ns_tree := t3\<rparr>))"

definition AddBlock ::
  "string \<Rightarrow> int64 \<Rightarrow> (string \<times> DataNodeInfo) list \<Rightarrow> FsNamesystem \<Rightarrow> alloc_result \<times> FsNamesystem" where
  "AddBlock path bid ord ns =
     (case GetNode (ns_tree ns) path of
        None \<Rightarrow> (no_alloc, ns)
      | Some file \<Rightarrow> if inode_type file \<noteq> kFile then (no_alloc, ns) else alloc_block path bid ord ns)"

text \<open>The blocks of a file with their locations, in file order.\<close>

definition GetBlocks :: "string \<Rightarrow> FsNamesystem \<Rightarrow> (Block \<times> DataNodeInfo list) list" where
  "GetBlocks path ns =
     (case GetNode (ns_tree ns) path of
        None \<Rightarrow> []
      | Some file \<Rightarrow>
          if inode_type file \<noteq> kFile then []
          else map (\<lambda>bid. (Block_default\<lparr>block_id := bid, num_bytes := 0\<rparr>,
                           case um_get (ns_block_to_datanodes ns) bid of Some dns \<Rightarrow> dns | None \<Rightarrow> []))
                 (inode_blocks file))"

definition ns_Delete :: "string \<Rightarrow> FsNamesystem \<Rightarrow> bool \<times> FsNamesystem" where
  "ns_Delete path ns =
     (case GetNode (ns_tree ns) path of
        None \<Rightarrow> (False, ns)
      | Some node \<Rightarrow>
          (let ns1 = (if inode_type node = kFile
                      then ns\<lparr>ns_block_to_datanodes :=
                             fold um_del (inode_blocks node) (ns_block_to_datanodes ns)\<rparr>
                      else ns);
               (t, ok) = tree_Delete (ns_tree ns1) path
           in (ok, ns1\<lparr>ns_tree := t\<rparr>)))"

definition ns_Mkdirs :: "string \<Rightarrow> FsNamesystem \<Rightarrow> bool \<times> FsNamesystem" where
  "ns_Mkdirs path ns = (let (t, ok) = tree_Mkdirs (ns_tree ns) path in (ok, ns\<lparr>ns_tree := t\<rparr>))"

definition GetListing :: "string \<Rightarrow> FsNamesystem \<Rightarrow> string list" where
  "GetListing path ns =
     map (\<lambda>n. if inode_type n = kDirectory then inode_name n @ ''/'' else inode_name n)
       (tree_ListDir (ns_tree ns) path)"

section \<open>DataNode operations\<close>

definition RegisterDataNode :: "DataNodeInfo \<Rightarrow> int64 \<Rightarrow> FsNamesystem \<Rightarrow> FsNamesystem" where
  "RegisterDataNode info now ns =
     ns\<lparr>ns_datanodes := um_put (dn_name info) (info\<lparr>dn_last_update := now\<rparr>) (ns_datanodes ns)\<rparr>"

definition Heartbeat ::
  "string \<Rightarrow> string \<Rightarrow> int32 \<Rightarrow> int64 \<Rightarrow> int64 \<Rightarrow> int64 \<Rightarrow> FsNamesystem \<Rightarrow> FsNamesystem" where
  "Heartbeat name host port capacity remaining now ns =
     (case um_get (ns_datanodes ns) name of
        None \<Rightarrow>
          (let info = \<lparr>dn_name = name, dn_host = host, dn_port = port, dn_capacity = capacity,
                       dn_remaining = remaining, dn_last_update = now\<rparr>
           in ns\<lparr>ns_datanodes := um_put name info (ns_datanodes ns)\<rparr>)
      | Some info \<Rightarrow>
          (let info' = info\<lparr>dn_host := host, dn_port := port, dn_capacity := capacity,
                            dn_remaining := remaining, dn_last_update := now\<rparr>
           in ns\<lparr>ns_datanodes := um_put name info' (ns_datanodes ns)\<rparr>))"

text \<open>\<open>m[k]\<close> on an unordered map: the value, which is first default-constructed if the key is new.\<close>

definition replicas :: "(int64, DataNodeInfo list) umap \<Rightarrow> int64 \<Rightarrow> DataNodeInfo list" where
  "replicas m bid = (case um_get m bid of None \<Rightarrow> [] | Some dns \<Rightarrow> dns)"

text \<open>The search loop: is a node of this name among the replicas?\<close>

definition has_replica :: "string \<Rightarrow> DataNodeInfo list \<Rightarrow> bool" where
  "has_replica name dns = list_ex (\<lambda>dn. dn_name dn = name) dns"

definition report_block ::
  "DataNodeInfo \<Rightarrow> string \<Rightarrow> Block \<Rightarrow> (int64, DataNodeInfo list) umap \<Rightarrow> (int64, DataNodeInfo list) umap" where
  "report_block info name b m =
     (let dns = replicas m (block_id b)
      in if \<not> has_replica name dns \<and> length dns < kDefaultReplication
         then um_put (block_id b) (dns @ [info]) m else um_put (block_id b) dns m)"

definition BlockReport :: "string \<Rightarrow> Block list \<Rightarrow> FsNamesystem \<Rightarrow> FsNamesystem" where
  "BlockReport name blocks ns =
     (case um_get (ns_datanodes ns) name of
        None \<Rightarrow> ns
      | Some info \<Rightarrow>
          ns\<lparr>ns_dn_to_blocks := um_put name blocks (ns_dn_to_blocks ns),
             ns_block_to_datanodes := fold (report_block info name) blocks (ns_block_to_datanodes ns)\<rparr>)"

definition BlockReceived :: "string \<Rightarrow> Block \<Rightarrow> string \<Rightarrow> FsNamesystem \<Rightarrow> FsNamesystem" where
  "BlockReceived name block del_hint ns =
     (let dns = replicas (ns_block_to_datanodes ns) (block_id block);
          ns1 = ns\<lparr>ns_block_to_datanodes := um_put (block_id block) dns (ns_block_to_datanodes ns)\<rparr>
      in case um_get (ns_datanodes ns) name of
           None \<Rightarrow> ns1
         | Some info \<Rightarrow>
             if \<not> has_replica name dns
             then ns1\<lparr>ns_block_to_datanodes :=
                    um_put (block_id block) (dns @ [info]) (ns_block_to_datanodes ns1)\<rparr>
             else ns1)"

text \<open>The sums of \<open>int64_t\<close> over the table, in the order in which the loop visits it; an overflow is undefined.\<close>

definition TotalCapacity :: "(string \<times> DataNodeInfo) list \<Rightarrow> int64 result" where
  "TotalCapacity ord = fold_result (\<lambda>(name, info) total. add64 total (dn_capacity info)) ord 0"

definition TotalRemaining :: "(string \<times> DataNodeInfo) list \<Rightarrow> int64 result" where
  "TotalRemaining ord = fold_result (\<lambda>(name, info) total. add64 total (dn_remaining info)) ord 0"

definition AliveDataNodes :: "FsNamesystem \<Rightarrow> int32" where
  "AliveDataNodes ns = word_of_nat (length (ns_datanodes ns))"

definition GetDataNodeReport :: "(string \<times> DataNodeInfo) list \<Rightarrow> DataNodeInfo list" where
  "GetDataNodeReport ord = map snd ord"

section \<open>Leases\<close>

definition AddLease :: "string \<Rightarrow> string \<Rightarrow> int64 \<Rightarrow> FsNamesystem \<Rightarrow> FsNamesystem" where
  "AddLease holder path now ns =
     ns\<lparr>ns_leases := um_put path
          \<lparr>lease_holder = holder, lease_path = path, lease_expiry = now + kLeaseTimeout\<rparr> (ns_leases ns)\<rparr>"

definition RemoveLease :: "string \<Rightarrow> FsNamesystem \<Rightarrow> FsNamesystem" where
  "RemoveLease path ns = ns\<lparr>ns_leases := um_del path (ns_leases ns)\<rparr>"

fun check_leases_loop :: "int64 \<Rightarrow> (string \<times> Lease) list \<Rightarrow> FsNamesystem \<Rightarrow> FsNamesystem" where
  "check_leases_loop now [] ns = ns"
| "check_leases_loop now ((key, l) # ord) ns =
     (if sint (lease_expiry l) < sint now
      then check_leases_loop now ord
             (ns\<lparr>ns_tree := fst (tree_Delete (ns_tree ns) (lease_path l)),
                 ns_leases := um_del key (ns_leases ns)\<rparr>)
      else check_leases_loop now ord ns)"

definition CheckLeases :: "int64 \<Rightarrow> (string \<times> Lease) list \<Rightarrow> FsNamesystem \<Rightarrow> FsNamesystem" where
  "CheckLeases now ord ns = check_leases_loop now ord ns"

section \<open>Re-replication\<close>

definition GetUnderReplicatedBlocks ::
  "(int64 \<times> DataNodeInfo list) list \<Rightarrow> (string \<times> DataNodeInfo) list \<Rightarrow> (Block \<times> DataNodeInfo) list" where
  "GetUnderReplicatedBlocks ord_blocks ord_dns =
     concat (map (\<lambda>(bid, dns).
       if length dns < kDefaultReplication \<and> dns \<noteq> []
       then map (\<lambda>dn. (Block_default\<lparr>block_id := bid\<rparr>, dn))
              (ChooseTargets (int kDefaultReplication - int (length dns)) ord_dns)
       else []) ord_blocks)"

section \<open>Paths and lookups\<close>

lemma last_slash_split:
  assumes "CHR ''/'' \<in> set path"
  obtains a b where "path = a @ CHR ''/'' # b" "CHR ''/'' \<notin> set b"
  using split_list_last [OF assms] by blast

lemma GetParentDir_slash:
  "CHR ''/'' \<notin> set b \<Longrightarrow> GetParentDir (a @ CHR ''/'' # b) = (if a = [] then ''/'' else a)"
  by (simp add: GetParentDir_def rfind_last)

lemma SplitPath_root [simp]: "SplitPath ''/'' = []"
  by (simp add: SplitPath_def)

lemma SplitPath_GetParentDir:
  assumes "CHR ''/'' \<notin> set b"
  shows "SplitPath (GetParentDir (a @ CHR ''/'' # b)) = SplitPath a"
  using assms by (simp add: GetParentDir_slash)

text \<open>The parent that the code computes is the parent of the path, unless the path ends in a slash.\<close>

lemma SplitPath_parent:
  assumes "path \<noteq> []" "last path \<noteq> CHR ''/''"
  shows "SplitPath path \<noteq> [] \<and> SplitPath (GetParentDir path) = butlast (SplitPath path)"
proof (cases "CHR ''/'' \<in> set path")
  case True
  then obtain a b where p: "path = a @ CHR ''/'' # b" "CHR ''/'' \<notin> set b" by (rule last_slash_split)
  then have "b \<noteq> []" using assms(2) by auto
  then show ?thesis using p by (simp add: SplitPath_GetParentDir SplitPath_slash SplitPath_no_slash)
next
  case False
  then show ?thesis
    using assms(1) by (simp add: SplitPath_no_slash GetParentDir_def rfind_def)
qed

lemma SplitPath_trailing:
  assumes "path \<noteq> []" "last path = CHR ''/''"
  shows "SplitPath (GetParentDir path) = SplitPath path"
proof -
  have "path = butlast path @ CHR ''/'' # []" using assms by (metis append_butlast_last_id)
  then show ?thesis
    using SplitPath_GetParentDir [of "[]" "butlast path"] SplitPath_slash [of "butlast path" "[]"]
    by simp
qed

lemma GetNode_namespace: "map_option entry_of (GetNode t path) = namespace t (SplitPath path)"
  by (simp add: GetNode_def namespace_def)

lemma GetNode_None: "GetNode t path = None \<longleftrightarrow> namespace t (SplitPath path) = None"
  by (simp add: GetNode_def namespace_def)

lemma GetNode_file:
  "namespace t (SplitPath path) = Some (File bs) \<longleftrightarrow>
   (\<exists>n. GetNode t path = Some n \<and> inode_type n = kFile \<and> inode_blocks n = bs)"
  unfolding GetNode_namespace [symmetric]
  by (cases "GetNode t path") (auto simp: entry_of_def split: INodeType.splits)

lemma GetNode_dir:
  "namespace t (SplitPath path) = Some Dir \<longleftrightarrow> (\<exists>n. GetNode t path = Some n \<and> inode_type n = kDirectory)"
  unfolding GetNode_namespace [symmetric]
  by (cases "GetNode t path") auto

lemma GetBlocks_file:
  "namespace (ns_tree ns) (SplitPath path) = Some (File bs) \<Longrightarrow>
   GetBlocks path ns = map (\<lambda>bid. (Block_Generate bid 0, replicas (ns_block_to_datanodes ns) bid)) bs"
  by (auto simp: GetNode_file GetBlocks_def Block_default_def Block_Generate_def replicas_def
      split: option.split)

lemma GetBlocks_not_file:
  "\<not> (\<exists>bs. namespace (ns_tree ns) (SplitPath path) = Some (File bs)) \<Longrightarrow> GetBlocks path ns = []"
  by (auto simp: GetNode_file GetBlocks_def split: option.split)

section \<open>Choosing targets\<close>

lemma choose_loop_take:
  "int (length ts) < r \<Longrightarrow> choose_loop r ord ts = ts @ take (nat r - length ts) (map snd ord)"
proof (induction r ord ts rule: choose_loop.induct)
  case (2 r name info ord ts)
  have "nat r - length ts = Suc (nat r - length (ts @ [info]))" using "2.prems" by simp
  then show ?case using 2 by (auto simp: Let_def)
qed simp

lemma ChooseTargets_take: "0 < r \<Longrightarrow> ChooseTargets r ord = take (nat r) (map snd ord)"
  by (simp add: ChooseTargets_def choose_loop_take)

definition named_by_key :: "(string, DataNodeInfo) umap \<Rightarrow> bool" where
  "named_by_key m \<longleftrightarrow> (\<forall>k info. um_get m k = Some info \<longrightarrow> dn_name info = k)"

lemma iterates_names:
  assumes "iterates ord m" "um_ok m" "named_by_key m"
  shows "map dn_name (map snd ord) = map fst ord"
proof -
  have "dn_name (snd x) = fst x" if "x \<in> set ord" for x
    using that assms iterates_set [OF assms(1)] um_get_iff [OF assms(2), of "fst x" "snd x"]
    by (auto simp: named_by_key_def)
  then show ?thesis by simp
qed

lemma ChooseTargets_distinct:
  assumes "iterates ord m" "um_ok m" "named_by_key m" "0 < r"
  shows "distinct (map dn_name (ChooseTargets r ord))"
  using iterates_distinct [OF assms(1,2)] iterates_names [OF assms(1-3)]
  by (metis ChooseTargets_take [OF assms(4)] distinct_take take_map)

section \<open>The invariant\<close>

definition replicas_distinct :: "(int64, DataNodeInfo list) umap \<Rightarrow> bool" where
  "replicas_distinct m \<longleftrightarrow> (\<forall>bid dns. um_get m bid = Some dns \<longrightarrow> distinct (map dn_name dns))"

definition ns_inv :: "FsNamesystem \<Rightarrow> bool" where
  "ns_inv ns \<longleftrightarrow> wf_tree (ns_tree ns)
     \<and> um_ok (ns_datanodes ns) \<and> named_by_key (ns_datanodes ns)
     \<and> um_ok (ns_block_to_datanodes ns) \<and> replicas_distinct (ns_block_to_datanodes ns)
     \<and> um_ok (ns_dn_to_blocks ns) \<and> um_ok (ns_leases ns)"

lemma ns_invD:
  "ns_inv ns \<Longrightarrow> wf_tree (ns_tree ns)" "ns_inv ns \<Longrightarrow> um_ok (ns_datanodes ns)"
  "ns_inv ns \<Longrightarrow> named_by_key (ns_datanodes ns)"
  by (simp_all add: ns_inv_def)

lemma ns_inv_new: "ns_inv FsNamesystem_new"
  by (simp add: ns_inv_def FsNamesystem_new_def wf_tree_new named_by_key_def replicas_distinct_def)

lemma replicas_distinct_put:
  "replicas_distinct m \<Longrightarrow> distinct (map dn_name dns) \<Longrightarrow> replicas_distinct (um_put bid dns m)"
  by (simp add: replicas_distinct_def)

lemma distinct_replicas: "replicas_distinct m \<Longrightarrow> distinct (map dn_name (replicas m bid))"
  by (auto simp: replicas_distinct_def replicas_def split: option.split)

lemma has_replica_iff: "has_replica name dns \<longleftrightarrow> name \<in> set (map dn_name dns)"
  by (auto simp: has_replica_def list_ex_iff)

lemma replicas_distinct_add:
  assumes "replicas_distinct m" "\<not> has_replica name (replicas m bid)" "dn_name info = name"
  shows "replicas_distinct (um_put bid (replicas m bid @ [info]) m)"
  using assms distinct_replicas [OF assms(1)] by (intro replicas_distinct_put) (auto simp: has_replica_iff)

lemma um_get_fold_del: "um_get (fold um_del ks m) k = (if k \<in> set ks then None else um_get m k)"
  by (induction ks arbitrary: m) auto

lemma um_ok_fold_del: "um_ok m \<Longrightarrow> um_ok (fold um_del ks m)"
  by (induction ks arbitrary: m) auto

lemma replicas_put [simp]: "replicas (um_put bid dns m) bid' = (if bid' = bid then dns else replicas m bid')"
  by (simp add: replicas_def)

lemma report_block_inv:
  assumes "replicas_distinct m" "um_ok m" "dn_name info = name"
  shows "replicas_distinct (report_block info name b m) \<and> um_ok (report_block info name b m)"
proof (cases "\<not> has_replica name (replicas m (block_id b)) \<and> length (replicas m (block_id b)) < kDefaultReplication")
  case True
  then show ?thesis
    using replicas_distinct_add [OF assms(1) _ assms(3)] assms(2) by (simp add: report_block_def)
next
  case False
  then have "report_block info name b m = um_put (block_id b) (replicas m (block_id b)) m"
    by (auto simp: report_block_def Let_def)
  then show ?thesis using assms distinct_replicas [OF assms(1)] by (simp add: replicas_distinct_put)
qed

lemma fold_report_inv:
  "replicas_distinct m \<Longrightarrow> um_ok m \<Longrightarrow> dn_name info = name \<Longrightarrow>
   replicas_distinct (fold (report_block info name) bs m) \<and> um_ok (fold (report_block info name) bs m)"
  by (induction bs arbitrary: m) (auto simp: report_block_inv)

section \<open>What the operations do\<close>

lemma alloc_block_result:
  "alloc_block path bid ord ns =
     ((Block_Generate bid 0, take 3 (map snd ord)),
      ns\<lparr>ns_block_to_datanodes := um_put bid (take 3 (map snd ord)) (ns_block_to_datanodes ns),
         ns_tree := update_at (SplitPath path) (push_block bid) (ns_tree ns)\<rparr>)"
  by (simp add: alloc_block_def Let_def Block_Generate_def kDefaultReplication_def ChooseTargets_take)

lemma targets_distinct:
  assumes "ns_inv ns" "iterates ord (ns_datanodes ns)"
  shows "distinct (map dn_name (take 3 (map snd ord)))"
  using ChooseTargets_distinct [OF assms(2) ns_invD(2,3) [OF assms(1)], of 3]
  by (simp add: ChooseTargets_take)

lemma alloc_block_inv:
  assumes "ns_inv ns" "iterates ord (ns_datanodes ns)"
    and "namespace (ns_tree ns) (SplitPath path) = Some (File bs)"
  shows "ns_inv (snd (alloc_block path bid ord ns))"
  using assms tree.push_inv [OF ns_invD(1) [OF assms(1)] assms(3)] targets_distinct [OF assms(1,2)]
  by (simp add: alloc_block_result ns_inv_def replicas_distinct_put)

lemma alloc_block_namespace:
  assumes "ns_inv ns" "namespace (ns_tree ns) (SplitPath path) = Some (File bs)"
  shows "namespace (ns_tree (snd (alloc_block path bid ord ns))) q
       = (if q = SplitPath path then Some (File (bs @ [bid])) else namespace (ns_tree ns) q)"
  using tree.push_look [OF ns_invD(1) [OF assms(1)] assms(2)] by (simp add: alloc_block_result)

lemma set_tree_inv: "ns_inv ns \<Longrightarrow> wf_tree t \<Longrightarrow> ns_inv (ns\<lparr>ns_tree := t\<rparr>)"
  by (simp add: ns_inv_def)

lemma wf_tree_Delete: "wf_tree t \<Longrightarrow> wf_tree (fst (tree_Delete t path))"
  by (simp add: tree_ops_at_path tree.delete_inv)

lemma wf_tree_Mkdirs: "wf_tree t \<Longrightarrow> wf_tree (fst (tree_Mkdirs t path))"
  by (simp add: tree_Mkdirs_def tree.mkdirs_inv SplitPath_valid)

text \<open>The tree just before the file is created.\<close>

definition prepared_tree :: "string \<Rightarrow> FsNamesystem \<Rightarrow> INode" where
  "prepared_tree path ns =
     fst (tree_Mkdirs (if GetNode (ns_tree ns) path \<noteq> None then fst (tree_Delete (ns_tree ns) path)
                       else ns_tree ns) (GetParentDir path))"

lemma wf_prepared_tree: "ns_inv ns \<Longrightarrow> wf_tree (prepared_tree path ns)"
  by (simp add: prepared_tree_def wf_tree_Mkdirs wf_tree_Delete ns_invD)

lemma StartFile_allowed:
  assumes "\<not> InSafeMode ns" "overwrite \<or> namespace (ns_tree ns) (SplitPath path) = None"
  shows "StartFile path overwrite bid ord ns =
    (case tree_CreateFile (prepared_tree path ns) path of
       None \<Rightarrow> (no_alloc, ns\<lparr>ns_tree := prepared_tree path ns\<rparr>)
     | Some t \<Rightarrow> alloc_block path bid ord (ns\<lparr>ns_tree := t\<rparr>))"
  using assms by (auto simp: StartFile_def prepared_tree_def Let_def GetNode_None [symmetric]
      split: option.split)

lemma StartFile_refused:
  "InSafeMode ns \<or> (\<not> overwrite \<and> namespace (ns_tree ns) (SplitPath path) \<noteq> None) \<Longrightarrow>
   StartFile path overwrite bid ord ns = (no_alloc, ns)"
  by (auto simp: StartFile_def GetNode_None [symmetric])

lemma StartFile_inv:
  assumes "ns_inv ns" "iterates ord (ns_datanodes ns)"
  shows "ns_inv (snd (StartFile path overwrite bid ord ns))"
proof (cases "InSafeMode ns \<or> (\<not> overwrite \<and> namespace (ns_tree ns) (SplitPath path) \<noteq> None)")
  case False
  then have eq: "StartFile path overwrite bid ord ns =
    (case tree_CreateFile (prepared_tree path ns) path of
       None \<Rightarrow> (no_alloc, ns\<lparr>ns_tree := prepared_tree path ns\<rparr>)
     | Some t \<Rightarrow> alloc_block path bid ord (ns\<lparr>ns_tree := t\<rparr>))"
    by (intro StartFile_allowed) auto
  show ?thesis
  proof (cases "tree_CreateFile (prepared_tree path ns) path")
    case None
    then show ?thesis using eq assms wf_prepared_tree by (simp add: set_tree_inv)
  next
    case (Some t)
    then have c: "create_at (SplitPath path) (prepared_tree path ns) = Some t"
      by (simp add: tree_ops_at_path)
    have t: "ns_inv (ns\<lparr>ns_tree := t\<rparr>)"
      using tree.create_inv [OF wf_prepared_tree SplitPath_valid c] assms(1) by (simp add: set_tree_inv)
    have "namespace t (SplitPath path) = Some (File [])"
      using tree.create_look [OF wf_prepared_tree [OF assms(1)] c] by simp
    then show ?thesis
      using alloc_block_inv [OF t, of ord path "[]" bid] assms(2) Some eq by simp
  qed
qed (use assms in \<open>simp add: StartFile_refused\<close>)

lemma AddBlock_file:
  "namespace (ns_tree ns) (SplitPath path) = Some (File bs) \<Longrightarrow>
   AddBlock path bid ord ns = alloc_block path bid ord ns"
  by (auto simp: GetNode_file AddBlock_def)

lemma AddBlock_not_file:
  "\<not> (\<exists>bs. namespace (ns_tree ns) (SplitPath path) = Some (File bs)) \<Longrightarrow>
   AddBlock path bid ord ns = (no_alloc, ns)"
  by (auto simp: GetNode_file AddBlock_def split: option.split)

lemma AddBlock_inv:
  assumes "ns_inv ns" "iterates ord (ns_datanodes ns)"
  shows "ns_inv (snd (AddBlock path bid ord ns))"
proof (cases "\<exists>bs. namespace (ns_tree ns) (SplitPath path) = Some (File bs)")
  case True
  then show ?thesis using alloc_block_inv [OF assms] by (auto simp: AddBlock_file)
qed (use assms in \<open>simp add: AddBlock_not_file\<close>)

lemma Delete_inv: "ns_inv ns \<Longrightarrow> ns_inv (snd (ns_Delete path ns))"
proof (cases "GetNode (ns_tree ns) path")
  case (Some node)
  assume inv: "ns_inv ns"
  have "replicas_distinct (fold um_del ks (ns_block_to_datanodes ns))" for ks
    using inv by (auto simp: ns_inv_def replicas_distinct_def um_get_fold_del)
  then show ?thesis
    using inv Some by (simp add: ns_Delete_def Let_def case_prod_beta ns_inv_def um_ok_fold_del wf_tree_Delete)
qed (simp add: ns_Delete_def)

lemma Mkdirs_inv: "ns_inv ns \<Longrightarrow> ns_inv (snd (ns_Mkdirs path ns))"
  by (simp add: ns_Mkdirs_def case_prod_beta set_tree_inv wf_tree_Mkdirs ns_invD)

lemma named_by_key_put: "named_by_key m \<Longrightarrow> dn_name info = k \<Longrightarrow> named_by_key (um_put k info m)"
  by (simp add: named_by_key_def)

lemma RegisterDataNode_inv: "ns_inv ns \<Longrightarrow> ns_inv (RegisterDataNode info now ns)"
  by (simp add: RegisterDataNode_def ns_inv_def named_by_key_put)

lemma Heartbeat_inv: "ns_inv ns \<Longrightarrow> ns_inv (Heartbeat name host port capacity remaining now ns)"
  by (auto simp: Heartbeat_def ns_inv_def named_by_key_def split: option.split)

lemma BlockReport_inv: "ns_inv ns \<Longrightarrow> ns_inv (BlockReport name blocks ns)"
  using fold_report_inv by (auto simp: BlockReport_def ns_inv_def named_by_key_def split: option.split)

lemma BlockReceived_inv:
  assumes "ns_inv ns"
  shows "ns_inv (BlockReceived name block del_hint ns)"
proof -
  let ?m = "ns_block_to_datanodes ns" and ?b = "block_id block"
  have m: "replicas_distinct ?m" "um_ok ?m" using assms by (simp_all add: ns_inv_def)
  have same: "ns_inv (ns\<lparr>ns_block_to_datanodes := um_put ?b (replicas ?m ?b) ?m\<rparr>)"
    using assms m distinct_replicas [OF m(1)] by (simp add: ns_inv_def replicas_distinct_put)
  have "ns_inv (ns\<lparr>ns_block_to_datanodes := um_put ?b (replicas ?m ?b @ [info]) (um_put ?b (replicas ?m ?b) ?m)\<rparr>)"
    if "um_get (ns_datanodes ns) name = Some info" "\<not> has_replica name (replicas ?m ?b)" for info
  proof -
    have "dn_name info = name" using that(1) ns_invD(3) [OF assms] by (simp add: named_by_key_def)
    then have "distinct (map dn_name (replicas ?m ?b @ [info]))"
      using that(2) distinct_replicas [OF m(1)] by (auto simp: has_replica_iff)
    then show ?thesis
      using same by (simp add: ns_inv_def replicas_distinct_put)
  qed
  then show ?thesis using same by (auto simp: BlockReceived_def Let_def split: option.split)
qed

lemma check_leases_loop_inv: "ns_inv ns \<Longrightarrow> ns_inv (check_leases_loop now ord ns)"
proof (induction now ord ns rule: check_leases_loop.induct)
  case (2 now key l ord ns)
  have "ns_inv (ns\<lparr>ns_tree := fst (tree_Delete (ns_tree ns) (lease_path l)), ns_leases := um_del key (ns_leases ns)\<rparr>)"
    using "2.prems" by (simp add: ns_inv_def wf_tree_Delete)
  then show ?case using 2 by simp
qed simp

lemma safe_mode_inv: "ns_inv ns \<Longrightarrow> ns_inv (UpdateSafeMode ns)" "ns_inv ns \<Longrightarrow> ns_inv (EnterSafeMode ns)"
  by (simp_all add: UpdateSafeMode_def EnterSafeMode_def Let_def ns_inv_def)

lemma lease_inv: "ns_inv ns \<Longrightarrow> ns_inv (AddLease holder path now ns)" "ns_inv ns \<Longrightarrow> ns_inv (RemoveLease path ns)"
  by (simp_all add: AddLease_def RemoveLease_def ns_inv_def)

section \<open>Reachable states\<close>

text \<open>A NameNode starts with the tree of its image and then runs operations in any order.\<close>

inductive ns_step :: "FsNamesystem \<Rightarrow> FsNamesystem \<Rightarrow> bool" where
  start_file: "iterates ord (ns_datanodes ns) \<Longrightarrow> ns_step ns (snd (StartFile path overwrite bid ord ns))"
| add_block: "iterates ord (ns_datanodes ns) \<Longrightarrow> ns_step ns (snd (AddBlock path bid ord ns))"
| delete: "ns_step ns (snd (ns_Delete path ns))"
| mkdirs: "ns_step ns (snd (ns_Mkdirs path ns))"
| register: "ns_step ns (RegisterDataNode info now ns)"
| heartbeat: "ns_step ns (Heartbeat name host port capacity remaining now ns)"
| block_report: "ns_step ns (BlockReport name blocks ns)"
| block_received: "ns_step ns (BlockReceived name block del_hint ns)"
| enter_safe_mode: "ns_step ns (EnterSafeMode ns)"
| update_safe_mode: "ns_step ns (UpdateSafeMode ns)"
| add_lease: "ns_step ns (AddLease holder path now ns)"
| remove_lease: "ns_step ns (RemoveLease path ns)"
| check_leases: "iterates ord (ns_leases ns) \<Longrightarrow> ns_step ns (CheckLeases now ord ns)"

inductive ns_reachable :: "FsNamesystem \<Rightarrow> bool" where
  init: "wf_tree t \<Longrightarrow> ns_reachable (FsNamesystem_new\<lparr>ns_tree := t\<rparr>)"
| step: "ns_reachable ns \<Longrightarrow> ns_step ns ns' \<Longrightarrow> ns_reachable ns'"

lemma ns_step_inv: "ns_step ns ns' \<Longrightarrow> ns_inv ns \<Longrightarrow> ns_inv ns'"
  by (induction rule: ns_step.induct)
     (simp_all add: StartFile_inv AddBlock_inv Delete_inv Mkdirs_inv RegisterDataNode_inv Heartbeat_inv
       BlockReport_inv BlockReceived_inv safe_mode_inv lease_inv CheckLeases_def check_leases_loop_inv)

lemma ns_reachable_inv: "ns_reachable ns \<Longrightarrow> ns_inv ns"
  by (induction rule: ns_reachable.induct) (simp_all add: set_tree_inv ns_inv_new ns_step_inv)

section \<open>Properties\<close>

text \<open>C3. In every state that the NameNode can reach by its operations, in any order and with any
  arguments, the tree is well-formed, every registered DataNode is filed under its own name, and no
  block lists the same DataNode twice among its replicas.\<close>

theorem ns_reachable_invariant:
  assumes "ns_reachable ns"
  shows "wf_tree (ns_tree ns)
    \<and> (um_get (ns_datanodes ns) name = Some info \<longrightarrow> dn_name info = name)
    \<and> distinct (map dn_name (replicas (ns_block_to_datanodes ns) bid))"
  using ns_reachable_inv [OF assms] distinct_replicas
  by (auto simp: ns_inv_def named_by_key_def)

theorem ns_reachable_invariant_witness:
  "ns_reachable (Heartbeat ''d'' ''h'' 1 2 3 4 FsNamesystem_new)
   \<and> wf_tree (ns_tree (Heartbeat ''d'' ''h'' 1 2 3 4 FsNamesystem_new))"
proof -
  have "ns_reachable (FsNamesystem_new\<lparr>ns_tree := InodeTree_new\<rparr>)"
    by (rule ns_reachable.init [OF wf_tree_new])
  then have "ns_reachable FsNamesystem_new" by (simp add: FsNamesystem_new_def)
  then have r: "ns_reachable (Heartbeat ''d'' ''h'' 1 2 3 4 FsNamesystem_new)"
    by (rule ns_reachable.step) (rule ns_step.heartbeat)
  show ?thesis using r ns_reachable_invariant [OF r] by blast
qed

lemma blocked_delete:
  "\<not> blocked m ps \<Longrightarrow> \<not> blocked (\<lambda>q. if P q then None else m q) ps"
  by (auto simp: blocked_def)

lemma existing_not_blocked:
  assumes "wf_tree t" "namespace t ps = Some e"
  shows "\<not> blocked (namespace t) (butlast ps)"
proof
  assume "blocked (namespace t) (butlast ps)"
  then obtain k bs where k: "k \<le> length (butlast ps)" "namespace t (take k (butlast ps)) = Some (File bs)"
    by (auto simp: blocked_def)
  have pre: "take k (butlast ps) = take k ps" using k(1)
    by (cases ps rule: rev_cases) simp_all
  show False
  proof (cases "k = length ps")
    case False
    then have "namespace t (take k ps) = Some Dir"
      using tree.look_ancestors [OF assms(1), of "take k ps" "drop k ps"] assms(2) k(1) by simp
    then show ?thesis using k(2) pre by simp
  next
    case True
    then have "ps = []" using k(1) by (cases ps rule: rev_cases) auto
    then show ?thesis using k(2) tree.look_root [OF assms(1)] by simp
  qed
qed

text \<open>The state after the optional delete of \<open>StartFile\<close>: nothing is at or below the path.\<close>

lemma prepared_tree_base:
  assumes "ns_inv ns" "SplitPath path \<noteq> []"
  obtains t1 where "wf_tree t1" "prepared_tree path ns = fst (tree_Mkdirs t1 (GetParentDir path))"
    "\<And>q. namespace t1 q = (if prefix (SplitPath path) q then None else namespace (ns_tree ns) q)"
proof -
  let ?t = "ns_tree ns" and ?P = "SplitPath path"
  have wf: "wf_tree ?t" using assms(1) by (rule ns_invD)
  show thesis
  proof (cases "GetNode ?t path")
    case None
    then have none: "namespace ?t ?P = None" by (simp add: GetNode_None)
    have "namespace ?t q = None" if q: "prefix ?P q" for q
    proof (cases "namespace ?t q")
      case (Some e)
      from q obtain r where "q = ?P @ r" by (auto elim: prefixE)
      then show ?thesis using tree.look_ancestors [OF wf, of ?P r e] Some none by (cases r) auto
    qed
    then show ?thesis using that [of ?t] wf None by (auto simp: prepared_tree_def)
  next
    case (Some n)
    have "wf_tree (fst (tree_Delete ?t path))" using wf by (rule wf_tree_Delete)
    moreover have "namespace (fst (tree_Delete ?t path)) q = (if prefix ?P q then None else namespace ?t q)" for q
      using tree.delete_look [OF wf, of ?P q] assms(2) by (simp add: tree_ops_at_path)
    ultimately show ?thesis
      using that [of "fst (tree_Delete ?t path)"] Some by (simp add: prepared_tree_def)
  qed
qed

lemma StartFile_new_file:
  assumes inv: "ns_inv ns" and ord: "iterates ord (ns_datanodes ns)" and mode: "\<not> InSafeMode ns"
    and path: "path \<noteq> []" "last path \<noteq> CHR ''/''"
    and free: "overwrite \<or> namespace (ns_tree ns) (SplitPath path) = None"
    and above: "\<not> blocked (namespace (ns_tree ns)) (butlast (SplitPath path))"
  obtains ns' where
    "StartFile path overwrite bid ord ns = ((Block_Generate bid 0, take 3 (map snd ord)), ns')"
    "ns_block_to_datanodes ns' = um_put bid (take 3 (map snd ord)) (ns_block_to_datanodes ns)"
    "ns_datanodes ns' = ns_datanodes ns"
    "\<And>q. namespace (ns_tree ns') q =
       (if q = SplitPath path then Some (File [bid]) else if strict_prefix q (SplitPath path) then Some Dir
        else if prefix (SplitPath path) q then None else namespace (ns_tree ns) q)"
proof -
  let ?P = "SplitPath path"
  have P: "?P \<noteq> []" "SplitPath (GetParentDir path) = butlast ?P" using SplitPath_parent [OF path] by simp_all
  obtain t1 where t1: "wf_tree t1" "prepared_tree path ns = fst (tree_Mkdirs t1 (GetParentDir path))"
    and look1: "\<And>q. namespace t1 q = (if prefix ?P q then None else namespace (ns_tree ns) q)"
    using inv P(1) by (rule prepared_tree_base) blast
  have "namespace t1 = (\<lambda>q. if prefix ?P q then None else namespace (ns_tree ns) q)"
    by (intro ext) (rule look1)
  then have "\<not> blocked (namespace t1) (butlast ?P)"
    using blocked_delete [OF above, of "prefix ?P"] by simp
  moreover have "namespace t1 ?P = None" using look1 by simp
  ultimately obtain t3 where t3: "create_at ?P (prepared_tree path ns) = Some t3" "wf_tree t3"
    and look3: "\<And>q. namespace t3 q = (if q = ?P then Some (File [])
                      else if strict_prefix q ?P then Some Dir else namespace t1 q)"
    using tree.make_file [OF t1(1) SplitPath_valid [of path] P(1)] t1(2) P(2)
    by (auto simp: tree_Mkdirs_def)
  let ?ns3 = "ns\<lparr>ns_tree := t3\<rparr>"
  let ?ns' = "snd (alloc_block path bid ord ?ns3)"
  have inv3: "ns_inv ?ns3" using inv t3(2) by (rule set_tree_inv)
  have "namespace (ns_tree ?ns3) ?P = Some (File [])" using look3 by simp
  then have look': "namespace (ns_tree ?ns') q
      = (if q = ?P then Some (File [bid]) else namespace t3 q)" for q
    using alloc_block_namespace [OF inv3, of path "[]" bid ord q] by simp
  have "StartFile path overwrite bid ord ns = ((Block_Generate bid 0, take 3 (map snd ord)), ?ns')"
    using StartFile_allowed [OF mode free] t3(1)
    by (simp add: tree_ops_at_path alloc_block_result)
  then show thesis
    using that [of ?ns'] look' look3 look1 by (simp add: alloc_block_result)
qed

text \<open>C2. \<open>StartFile\<close> outside safe mode, for a path that does not end in a slash, is free or may be
  overwritten, and has no file above it, allocates the block on the first three DataNodes of the
  iteration order (distinct nodes, at least one); afterwards the path is a file with exactly this
  block, its ancestors are directories, whatever was at or below the path is gone, every other path
  is as before, and \<open>GetBlocks\<close> returns the block with these locations.\<close>

theorem StartFile_creates_file:
  assumes "ns_inv ns" "iterates ord (ns_datanodes ns)" "\<not> InSafeMode ns"
    and "path \<noteq> []" "last path \<noteq> CHR ''/''"
    and "overwrite \<or> namespace (ns_tree ns) (SplitPath path) = None"
    and "\<not> blocked (namespace (ns_tree ns)) (butlast (SplitPath path))"
  shows "\<exists>targets ns'. StartFile path overwrite bid ord ns = ((Block_Generate bid 0, targets), ns')
    \<and> targets = take 3 (map snd ord) \<and> targets \<noteq> [] \<and> distinct (map dn_name targets) \<and> ns_inv ns'
    \<and> (\<forall>q. namespace (ns_tree ns') q =
         (if q = SplitPath path then Some (File [bid])
          else if strict_prefix q (SplitPath path) then Some Dir
          else if prefix (SplitPath path) q then None else namespace (ns_tree ns) q))
    \<and> GetBlocks path ns' = [(Block_Generate bid 0, targets)]"
proof -
  obtain ns' where ns': "StartFile path overwrite bid ord ns = ((Block_Generate bid 0, take 3 (map snd ord)), ns')"
    "ns_block_to_datanodes ns' = um_put bid (take 3 (map snd ord)) (ns_block_to_datanodes ns)"
    and look: "\<And>q. namespace (ns_tree ns') q =
       (if q = SplitPath path then Some (File [bid]) else if strict_prefix q (SplitPath path) then Some Dir
        else if prefix (SplitPath path) q then None else namespace (ns_tree ns) q)"
    using StartFile_new_file [OF assms, where bid = bid] by metis
  have "ns_datanodes ns \<noteq> []" using assms(3) by (auto simp: InSafeMode_def)
  then have "ord \<noteq> []" using iterates_length [OF assms(2)] by auto
  moreover have "ns_inv ns'" using StartFile_inv [OF assms(1,2), of path overwrite bid] ns'(1) by simp
  moreover have "GetBlocks path ns' = [(Block_Generate bid 0, take 3 (map snd ord))]"
    using GetBlocks_file [of ns' path "[bid]"] look ns'(2) by simp
  ultimately show ?thesis
    using ns'(1) targets_distinct [OF assms(1,2)] look by auto
qed

text \<open>A namesystem with one DataNode, for the witnesses.\<close>

definition one_dn :: FsNamesystem where
  "one_dn = Heartbeat ''127.0.0.1:9010'' ''127.0.0.1'' 9010 100 50 0 FsNamesystem_new"

lemma one_dn_inv: "ns_inv one_dn"
  unfolding one_dn_def by (rule Heartbeat_inv [OF ns_inv_new])

lemma one_dn_mode: "\<not> InSafeMode one_dn"
  by (simp add: one_dn_def Heartbeat_def FsNamesystem_new_def InSafeMode_def)

lemma one_dn_tree [simp]: "ns_tree one_dn = InodeTree_new"
  by (simp add: one_dn_def Heartbeat_def FsNamesystem_new_def)

theorem StartFile_creates_file_witness:
  "\<exists>ns'. snd (StartFile ''/d/f'' False 42 (ns_datanodes one_dn) one_dn) = ns'
     \<and> namespace (ns_tree ns') [''d'', ''f''] = Some (File [42])"
proof -
  have P: "SplitPath ''/d/f'' = [''d'', ''f'']" by code_simp
  have "namespace InodeTree_new [''d'', ''f''] = None" "\<not> blocked (namespace InodeTree_new) [''d'']"
    by (simp_all add: InodeTree_new_def namespace_empty_dir not_blocked_empty_dir)
  then show ?thesis
    using StartFile_creates_file [OF one_dn_inv iterates_self one_dn_mode, of "''/d/f''" False 42]
    by (auto simp: P)
qed

end
