(* ===== verification/NamesystemLaws.thy ===== *)
theory NamesystemLaws
  imports FsNamesystem
begin

text \<open>
  The laws of the operations of \<open>FsNamesystem\<close>, branch by branch: a refused \<open>StartFile\<close>, the blocks that
  \<open>AddBlock\<close> appends and \<open>Delete\<close> frees, the replicas that a block report records, the threshold of
  safe mode as an exact statement on integers, and the expiry of leases.
\<close>

section \<open>Refused requests\<close>

text \<open>A path with a trailing slash can never become a file: outside safe mode, when the path is free
  or may be overwritten, \<open>StartFile\<close> returns the empty result, and what it leaves at the path is a
  directory. A file that stood there is gone.\<close>

theorem StartFile_trailing_slash:
  assumes "ns_inv ns" "\<not> InSafeMode ns" "path \<noteq> []" "last path = CHR ''/''" "SplitPath path \<noteq> []"
    and "overwrite \<or> namespace (ns_tree ns) (SplitPath path) = None"
    and "\<not> blocked (namespace (ns_tree ns)) (butlast (SplitPath path))"
  shows "fst (StartFile path overwrite bid ord ns) = no_alloc
    \<and> namespace (ns_tree (snd (StartFile path overwrite bid ord ns))) (SplitPath path) = Some Dir"
proof -
  let ?P = "SplitPath path"
  obtain t1 where t1: "wf_tree t1" "prepared_tree path ns = fst (tree_Mkdirs t1 (GetParentDir path))"
    and look1: "\<And>q. namespace t1 q = (if prefix ?P q then None else namespace (ns_tree ns) q)"
    using assms(1,5) by (rule prepared_tree_base) blast
  have "blocked (namespace t1) ?P \<Longrightarrow> blocked (namespace (ns_tree ns)) (butlast ?P)"
  proof -
    assume "blocked (namespace t1) ?P"
    then obtain k bs where k: "k \<le> length ?P" "namespace t1 (take k ?P) = Some (File bs)"
      by (auto simp: blocked_def)
    then have "k \<noteq> length ?P" using look1 [of ?P] by auto
    then have "k < length ?P" using k(1) by simp
    then have "take k (butlast ?P) = take k ?P" "k \<le> length (butlast ?P)" by (simp_all add: take_butlast)
    then show ?thesis using k(2) look1 by (auto simp: blocked_def split: if_splits)
  qed
  then have free: "\<not> blocked (namespace t1) ?P" using assms(7) by blast
  have dir: "namespace (prepared_tree path ns) ?P = Some Dir"
    using t1 free tree.mkdirs_look [OF t1(1), of ?P ?P] SplitPath_trailing [OF assms(3,4)]
    by (simp add: tree_Mkdirs_def)
  have "create_at ?P (prepared_tree path ns) = None"
    using tree.create_None [OF wf_prepared_tree [OF assms(1)], of ?P] dir by simp
  then show ?thesis
    using StartFile_allowed [OF assms(2,6)] dir by (simp add: tree_ops_at_path)
qed

theorem StartFile_trailing_slash_witness:
  "let ns = snd (StartFile ''/d/f'' False 42 (ns_datanodes one_dn) one_dn)
   in fst (StartFile ''/d/f/'' True 43 [] ns) = no_alloc
    \<and> namespace (ns_tree (snd (StartFile ''/d/f/'' True 43 [] ns))) [''d'', ''f''] = Some Dir"
proof -
  let ?ns = "snd (StartFile ''/d/f'' False 42 (ns_datanodes one_dn) one_dn)"
  have P: "SplitPath ''/d/f/'' = [''d'', ''f'']" by code_simp
  have "ns_inv ?ns" using one_dn_inv by (rule StartFile_inv) simp
  moreover have "\<not> InSafeMode ?ns" by code_simp
  moreover have "namespace (ns_tree ?ns) [] = Some Dir" "namespace (ns_tree ?ns) [''d''] = Some Dir"
    by code_simp+
  then have "\<not> blocked (namespace (ns_tree ?ns)) [''d'']"
    by (auto simp: blocked_def take_Cons' split: if_splits)
  ultimately show ?thesis
    using StartFile_trailing_slash [of ?ns "''/d/f/''" True 43 "[]"] by (simp add: P Let_def)
qed

section \<open>Blocks of a file\<close>

lemma GetBlocks_cong:
  assumes "namespace (ns_tree ns') (SplitPath path) = namespace (ns_tree ns) (SplitPath path)"
    and "\<And>bs b. namespace (ns_tree ns) (SplitPath path) = Some (File bs) \<Longrightarrow> b \<in> set bs \<Longrightarrow>
      replicas (ns_block_to_datanodes ns') b = replicas (ns_block_to_datanodes ns) b"
  shows "GetBlocks path ns' = GetBlocks path ns"
proof (cases "\<exists>bs. namespace (ns_tree ns) (SplitPath path) = Some (File bs)")
  case True
  then show ?thesis using assms by (auto simp: GetBlocks_file)
qed (use assms in \<open>simp add: GetBlocks_not_file\<close>)

text \<open>C20. \<open>AddBlock\<close> on a file, with a block identifier that the file does not have yet, returns the
  block with the first three DataNodes and appends it: \<open>GetBlocks\<close> then gives the old blocks with
  their locations followed by the new one, and no other path of the namespace changes. On anything
  that is not a file it returns the empty result and changes nothing.\<close>

theorem AddBlock_appends:
  assumes "ns_inv ns" "AddBlock path bid ord ns = ((block, targets), ns')"
  shows "(case namespace (ns_tree ns) (SplitPath path) of
       Some (File bs) \<Rightarrow> block = Block_Generate bid 0 \<and> targets = take 3 (map snd ord)
         \<and> (bid \<notin> set bs \<longrightarrow> GetBlocks path ns' = GetBlocks path ns @ [(block, targets)])
         \<and> (\<forall>q. namespace (ns_tree ns') q
              = (if q = SplitPath path then Some (File (bs @ [bid])) else namespace (ns_tree ns) q))
     | _ \<Rightarrow> (block, targets) = no_alloc \<and> ns' = ns)"
proof (cases "\<exists>bs. namespace (ns_tree ns) (SplitPath path) = Some (File bs)")
  case True
  then obtain bs where bs: "namespace (ns_tree ns) (SplitPath path) = Some (File bs)" by blast
  have alloc: "alloc_block path bid ord ns = ((block, targets), ns')"
    using assms(2) AddBlock_file [OF bs] by simp
  then have res: "block = Block_Generate bid 0" "targets = take 3 (map snd ord)"
    "ns_block_to_datanodes ns' = um_put bid targets (ns_block_to_datanodes ns)"
    by (auto simp: alloc_block_result)
  have look: "namespace (ns_tree ns') q
      = (if q = SplitPath path then Some (File (bs @ [bid])) else namespace (ns_tree ns) q)" for q
    using alloc_block_namespace [OF assms(1) bs, of bid ord q] alloc by simp
  have "GetBlocks path ns' = GetBlocks path ns @ [(block, targets)]" if "bid \<notin> set bs"
    using GetBlocks_file [of ns' path "bs @ [bid]"] GetBlocks_file [OF bs] look res that by auto
  then show ?thesis using bs res look by simp
next
  case False
  then show ?thesis
    using assms(2) AddBlock_not_file [OF False, of bid ord] by (auto split: option.split entry.split)
qed

theorem AddBlock_appends_witness:
  "let ns = snd (StartFile ''/d/f'' False 42 (ns_datanodes one_dn) one_dn);
       r = AddBlock ''/d/f'' 43 (ns_datanodes one_dn) ns
   in GetBlocks ''/d/f'' (snd r) = GetBlocks ''/d/f'' ns @ [fst r]"
proof -
  let ?ns = "snd (StartFile ''/d/f'' False 42 (ns_datanodes one_dn) one_dn)"
  let ?r = "AddBlock ''/d/f'' 43 (ns_datanodes one_dn) ?ns"
  have "ns_inv ?ns" using one_dn_inv by (rule StartFile_inv) simp
  moreover have "namespace (ns_tree ?ns) (SplitPath ''/d/f'') = Some (File [42])" by code_simp
  ultimately show ?thesis
    using AddBlock_appends [of ?ns "''/d/f''" 43 "ns_datanodes one_dn" "fst (fst ?r)" "snd (fst ?r)" "snd ?r"]
    by (simp add: Let_def)
qed

text \<open>C21. \<open>Delete\<close> succeeds exactly for an existing path other than the root. Everything at and below the
  path is then gone and the rest of the namespace is as before; the replicas of the blocks of a
  deleted file are forgotten and those of all other blocks are kept.\<close>

theorem Delete_frees_blocks:
  assumes "ns_inv ns" "ns_Delete path ns = (ok, ns')"
  shows "(ok \<longleftrightarrow> SplitPath path \<noteq> [] \<and> namespace (ns_tree ns) (SplitPath path) \<noteq> None)
    \<and> (\<forall>q. namespace (ns_tree ns') q
         = (if ok \<and> prefix (SplitPath path) q then None else namespace (ns_tree ns) q))
    \<and> (\<forall>b. replicas (ns_block_to_datanodes ns') b
         = (case namespace (ns_tree ns) (SplitPath path) of
              Some (File bs) \<Rightarrow> if b \<in> set bs then [] else replicas (ns_block_to_datanodes ns) b
            | _ \<Rightarrow> replicas (ns_block_to_datanodes ns) b))"
proof (cases "GetNode (ns_tree ns) path")
  case None
  then have "namespace (ns_tree ns) (SplitPath path) = None" by (simp add: GetNode_None)
  then show ?thesis using assms(2) None by (simp add: ns_Delete_def)
next
  case (Some node)
  let ?P = "SplitPath path" and ?m = "ns_block_to_datanodes ns"
  have wf: "wf_tree (ns_tree ns)" using assms(1) by (rule ns_invD)
  have ns': "ns_tree ns' = fst (delete_at ?P (ns_tree ns))" "ok = snd (delete_at ?P (ns_tree ns))"
    "ns_block_to_datanodes ns'
      = (if inode_type node = kFile then fold um_del (inode_blocks node) ?m else ?m)"
    using assms(2) Some by (auto simp: ns_Delete_def tree_ops_at_path Let_def case_prod_beta split: if_splits)
  have e: "namespace (ns_tree ns) ?P = Some (entry_of node)"
    using GetNode_namespace [of "ns_tree ns" path] Some by simp
  have "replicas (ns_block_to_datanodes ns') b
      = (case entry_of node of File bs \<Rightarrow> if b \<in> set bs then [] else replicas ?m b | Dir \<Rightarrow> replicas ?m b)"
    for b
    by (cases "inode_type node") (simp_all add: ns'(3) entry_of_def replicas_def um_get_fold_del)
  then show ?thesis
    using e ns'(1,2) tree.delete_ok [OF wf, of ?P] tree.delete_look [OF wf, of ?P]
    by (simp split: entry.split)
qed

theorem Delete_frees_blocks_witness:
  "let ns = snd (StartFile ''/d/f'' False 42 (ns_datanodes one_dn) one_dn);
       r = ns_Delete ''/d/f'' ns
   in fst r \<and> replicas (ns_block_to_datanodes (snd r)) 42 = []"
proof -
  let ?ns = "snd (StartFile ''/d/f'' False 42 (ns_datanodes one_dn) one_dn)"
  let ?r = "ns_Delete ''/d/f'' ?ns"
  have "ns_inv ?ns" using one_dn_inv by (rule StartFile_inv) simp
  moreover have "SplitPath ''/d/f'' = [''d'', ''f'']" "namespace (ns_tree ?ns) [''d'', ''f''] = Some (File [42])"
    by code_simp+
  ultimately show ?thesis
    using Delete_frees_blocks [of ?ns "''/d/f''" "fst ?r" "snd ?r"] by (simp add: Let_def)
qed

section \<open>Reports of DataNodes\<close>

lemma replicas_fold_report:
  assumes "dn_name info = name"
  shows "replicas (fold (report_block info name) blocks m) b
    = (if b \<in> block_id ` set blocks \<and> \<not> has_replica name (replicas m b)
          \<and> length (replicas m b) < kDefaultReplication
       then replicas m b @ [info] else replicas m b)"
proof (induction blocks arbitrary: m)
  case (Cons x blocks)
  have "replicas (report_block info name x m) b
      = (if b = block_id x \<and> \<not> has_replica name (replicas m b)
            \<and> length (replicas m b) < kDefaultReplication
         then replicas m b @ [info] else replicas m b)"
    by (auto simp: report_block_def Let_def)
  then show ?case using Cons.IH [of "report_block info name x m"] assms by (auto simp: has_replica_def)
qed simp

text \<open>C22. A block report of a registered DataNode adds the node to the replicas of every reported block
  that has fewer than three replicas and does not list the node yet (once, however often the block is
  reported) and changes no other replica list; the report of an unknown DataNode changes nothing.\<close>

theorem BlockReport_records:
  assumes "ns_inv ns"
  shows "(case um_get (ns_datanodes ns) name of
       None \<Rightarrow> BlockReport name blocks ns = ns
     | Some info \<Rightarrow>
         um_get (ns_dn_to_blocks (BlockReport name blocks ns)) name = Some blocks
         \<and> (\<forall>b. replicas (ns_block_to_datanodes (BlockReport name blocks ns)) b
              = (if b \<in> block_id ` set blocks
                    \<and> name \<notin> dn_name ` set (replicas (ns_block_to_datanodes ns) b)
                    \<and> length (replicas (ns_block_to_datanodes ns) b) < 3
                 then replicas (ns_block_to_datanodes ns) b @ [info]
                 else replicas (ns_block_to_datanodes ns) b)))"
proof (cases "um_get (ns_datanodes ns) name")
  case (Some info)
  then have "dn_name info = name" using ns_invD(3) [OF assms] by (simp add: named_by_key_def)
  then show ?thesis
    using Some by (simp add: BlockReport_def replicas_fold_report has_replica_iff kDefaultReplication_def)
qed (simp add: BlockReport_def)

theorem BlockReport_records_witness:
  "map dn_name (replicas (ns_block_to_datanodes
      (BlockReport ''127.0.0.1:9010'' [Block_Generate 7 5, Block_Generate 7 5] one_dn)) 7) = [''127.0.0.1:9010'']"
proof -
  obtain info where info: "um_get (ns_datanodes one_dn) ''127.0.0.1:9010'' = Some info"
    "dn_name info = ''127.0.0.1:9010''" "replicas (ns_block_to_datanodes one_dn) 7 = []"
    by (simp add: one_dn_def Heartbeat_def FsNamesystem_new_def replicas_def)
  then show ?thesis
    using BlockReport_records [OF one_dn_inv, of "''127.0.0.1:9010''" "[Block_Generate 7 5, Block_Generate 7 5]"]
    by (simp add: Block_Generate_def)
qed

text \<open>\<open>BlockReceived\<close> has no such limit, and an unknown DataNode leaves an entry with no replica behind.\<close>

lemma BlockReceived_replicas:
  "replicas (ns_block_to_datanodes (BlockReceived name block hint ns)) b
   = (case um_get (ns_datanodes ns) name of
        Some info \<Rightarrow> if b = block_id block \<and> \<not> has_replica name (replicas (ns_block_to_datanodes ns) b)
                     then replicas (ns_block_to_datanodes ns) b @ [info]
                     else replicas (ns_block_to_datanodes ns) b
      | None \<Rightarrow> replicas (ns_block_to_datanodes ns) b)"
  by (auto simp: BlockReceived_def Let_def split: option.split)

lemma BlockReceived_unknown:
  "um_get (ns_datanodes ns) name = None \<Longrightarrow> um_get (ns_block_to_datanodes ns) (block_id block) = None \<Longrightarrow>
   um_get (ns_block_to_datanodes (BlockReceived name block hint ns)) (block_id block) = Some []"
  by (simp add: BlockReceived_def replicas_def)

section \<open>Safe mode\<close>

lemma round_half_even_less:
  assumes "0 < d" "odd k"
  shows "round_half_even n d < k \<longleftrightarrow> 2 * n \<le> (2 * k - 1) * d"
proof -
  define q r where "q = n div d" and "r = n mod d"
  have n: "n = q * d + r" "r < d" using assms(1) by (simp_all add: q_def r_def)
  obtain j where k: "k = Suc j" "even j" using assms(2) by (cases k) auto
  have "round_half_even n d < k \<longleftrightarrow> q < j \<or> q = j \<and> 2 * r \<le> d"
    using k unfolding round_half_even_def q_def [symmetric] r_def [symmetric] Let_def by auto
  also have "\<dots> \<longleftrightarrow> 2 * n \<le> (2 * k - 1) * d"
  proof (cases q j rule: linorder_cases)
    case less
    then have "(q + 1) * d \<le> j * d" by (intro mult_le_mono1) simp
    then show ?thesis using less n k by (simp add: algebra_simps)
  next
    case equal
    then show ?thesis using n k by (simp add: algebra_simps)
  next
    case greater
    then have "(j + 1) * d \<le> q * d" by (intro mult_le_mono1) simp
    then show ?thesis using greater n k assms(1) by (simp add: algebra_simps)
  qed
  finally show ?thesis .
qed

text \<open>The comparison of doubles is exact on counts up to \<open>2^44\<close>.\<close>

lemma ratio_below_threshold_exact:
  assumes "0 < t" "t \<le> 2 ^ 44"
  shows "ratio_below_threshold s t \<longleftrightarrow> 1000 * s < 999 * t"
  using assms by (auto simp: ratio_below_threshold_def round_half_even_less)

definition safe_count :: "FsNamesystem \<Rightarrow> nat" where
  "safe_count ns = length (filter (\<lambda>(bid, dns). dns \<noteq> []) (ns_block_to_datanodes ns))"

lemma UpdateSafeMode_fields [simp]:
  "ns_datanodes (UpdateSafeMode ns) = ns_datanodes ns"
  "ns_block_to_datanodes (UpdateSafeMode ns) = ns_block_to_datanodes ns"
  "ns_total_blocks (UpdateSafeMode ns) = length (ns_block_to_datanodes ns)"
  "ns_safe_blocks (UpdateSafeMode ns) = safe_count ns"
  "ns_safe_mode_countdown (UpdateSafeMode ns)
     = (if ns_safe_mode_countdown ns > 0 then ns_safe_mode_countdown ns - 1 else ns_safe_mode_countdown ns)"
  by (simp_all add: UpdateSafeMode_def Let_def safe_count_def)

lemma UpdateSafeMode_iterate:
  "ns_datanodes ((UpdateSafeMode ^^ n) ns) = ns_datanodes ns"
  "ns_block_to_datanodes ((UpdateSafeMode ^^ n) ns) = ns_block_to_datanodes ns"
  "ns_safe_mode_countdown ((UpdateSafeMode ^^ n) ns) \<le> 0 \<longleftrightarrow> ns_safe_mode_countdown ns \<le> int n"
  by (induction n arbitrary: ns) (auto simp: funpow_Suc_right simp del: funpow.simps)



section \<open>Leases\<close>

definition expired :: "int64 \<Rightarrow> Lease \<Rightarrow> bool" where
  "expired now l \<longleftrightarrow> sint (lease_expiry l) < sint now"

lemma check_leases_loop_leases:
  "um_get (ns_leases (check_leases_loop now ord ns)) k
   = (if \<exists>l. (k, l) \<in> set ord \<and> expired now l then None else um_get (ns_leases ns) k)"
  by (induction now ord ns rule: check_leases_loop.induct) (auto simp: expired_def)

lemma check_leases_loop_tree:
  "wf_tree (ns_tree ns) \<Longrightarrow>
   namespace (ns_tree (check_leases_loop now ord ns)) q
   = (if \<exists>k l. (k, l) \<in> set ord \<and> expired now l \<and> SplitPath (lease_path l) \<noteq> []
            \<and> prefix (SplitPath (lease_path l)) q then None else namespace (ns_tree ns) q)"
proof (induction now ord ns rule: check_leases_loop.induct)
  case (2 now key l ord ns)
  let ?ns = "ns\<lparr>ns_tree := fst (tree_Delete (ns_tree ns) (lease_path l)), ns_leases := um_del key (ns_leases ns)\<rparr>"
  show ?case
  proof (cases "sint (lease_expiry l) < sint now")
    case True
    have "wf_tree (ns_tree ?ns)" using "2.prems" by (simp add: wf_tree_Delete)
    then show ?thesis
      using "2.IH"(1) [OF True] True tree.delete_look [OF "2.prems", of "SplitPath (lease_path l)" q]
      by (auto simp: expired_def tree_ops_at_path)
  next
    case False
    then show ?thesis using "2.IH"(2) "2.prems" by (auto simp: expired_def)
  qed
qed simp

text \<open>C24. \<open>CheckLeases\<close>, whatever order the loop visits the leases in, drops exactly the leases whose expiry
  lies before the current time, and deletes exactly the paths of these leases with all that is below
  them; every other lease and every other path stays.\<close>

theorem CheckLeases_expires:
  assumes "ns_inv ns" "iterates ord (ns_leases ns)"
  shows "um_get (ns_leases (CheckLeases now ord ns)) k
      = (case um_get (ns_leases ns) k of
           Some l \<Rightarrow> if sint (lease_expiry l) < sint now then None else Some l | None \<Rightarrow> None)
    \<and> namespace (ns_tree (CheckLeases now ord ns)) q
      = (if \<exists>k l. um_get (ns_leases ns) k = Some l \<and> sint (lease_expiry l) < sint now
              \<and> SplitPath (lease_path l) \<noteq> [] \<and> prefix (SplitPath (lease_path l)) q
         then None else namespace (ns_tree ns) q)"
proof -
  have "um_ok (ns_leases ns)" using assms(1) by (simp add: ns_inv_def)
  then have "(k, l) \<in> set ord \<longleftrightarrow> um_get (ns_leases ns) k = Some l" for k l
    using um_get_iff iterates_set [OF assms(2)] by fastforce
  then show ?thesis
    using check_leases_loop_tree [OF ns_invD(1) [OF assms(1)], of now ord q]
    by (auto simp: CheckLeases_def check_leases_loop_leases expired_def split: option.split)
qed

theorem CheckLeases_expires_witness:
  "let ns = AddLease ''c'' ''/a'' 0 (snd (ns_Mkdirs ''/a/b'' one_dn));
       ns' = CheckLeases 61 (ns_leases ns) ns
   in um_get (ns_leases ns') ''/a'' = None \<and> namespace (ns_tree ns) [''a'', ''b''] = Some Dir
     \<and> namespace (ns_tree ns') [''a'', ''b''] = None"
proof -
  let ?ns = "AddLease ''c'' ''/a'' 0 (snd (ns_Mkdirs ''/a/b'' one_dn))"
  have "ns_inv ?ns" by (intro lease_inv Mkdirs_inv one_dn_inv)
  moreover have "um_get (ns_leases ?ns) ''/a''
      = Some \<lparr>lease_holder = ''c'', lease_path = ''/a'', lease_expiry = 60\<rparr>"
    by (simp add: AddLease_def kLeaseTimeout_def)
  moreover have "namespace (ns_tree ?ns) [''a'', ''b''] = Some Dir" "SplitPath ''/a'' = [''a'']" by code_simp+
  moreover from calculation have "\<exists>k l. um_get (ns_leases ?ns) k = Some l \<and> sint (lease_expiry l) < sint (61 :: int64)
      \<and> SplitPath (lease_path l) \<noteq> [] \<and> prefix (SplitPath (lease_path l)) [''a'', ''b'']"
    by (intro exI [of _ "''/a''"] exI [of _ "\<lparr>lease_holder = ''c'', lease_path = ''/a'', lease_expiry = 60\<rparr>"]) simp
  ultimately show ?thesis
    using CheckLeases_expires [of ?ns "ns_leases ?ns" 61 "''/a''" "[''a'', ''b'']"]
    unfolding Let_def by (simp only: iterates_self if_True) simp
qed

section \<open>Re-replication\<close>

text \<open>The proposals are for blocks with one or two replicas, one per missing replica as far as there are
  DataNodes; but they are the first DataNodes of the iteration, whether or not they hold the block.\<close>

lemma GetUnderReplicatedBlocks_eq:
  "GetUnderReplicatedBlocks ord_blocks ord_dns =
   concat (map (\<lambda>(bid, dns). if 0 < length dns \<and> length dns < 3
                 then map (Pair (Block_default\<lparr>block_id := bid\<rparr>)) (take (3 - length dns) (map snd ord_dns))
                 else []) ord_blocks)"
  unfolding GetUnderReplicatedBlocks_def
  by (rule arg_cong [of _ _ concat], rule map_cong [OF refl])
     (auto simp: kDefaultReplication_def ChooseTargets_take nat_diff_distrib)

text \<open>With a single DataNode that holds the only replica of a block, the search for under-replicated
  blocks proposes to copy the block to that very DataNode.\<close>

lemma re_replication_proposes_holder:
  "GetUnderReplicatedBlocks [(bid, [dn])] [(name, dn)] = [(Block_default\<lparr>block_id := bid\<rparr>, dn)]"
  by (simp add: GetUnderReplicatedBlocks_eq)

end
