(* ===== verification/Buffer.thy ===== *)
theory Buffer
  imports ByteOrder
begin

text \<open>
  Model of \<^verbatim>\<open>src/io/buffer.h\<close>: \<open>OutputBuffer\<close> (a growing byte vector), \<open>InputBuffer\<close> (a span with a
  read position) and every read and write operation. A write is a function on the buffer state; a
  read is a state transformer that may raise (type \<open>'a reader\<close>), composed with \<open>bindr\<close> the way the
  code sequences its calls. A \<open>float\<close> or \<open>double\<close> is its bit pattern, which is all that the
  serialisation code looks at.

  Two notions carry the proofs. \<open>reads R bs x\<close>: wherever the bytes \<open>bs\<close> stand in a buffer, the reader
  \<open>R\<close> started at their beginning returns \<open>x\<close> and stops at their end. \<open>safe R\<close>: on a well-formed buffer
  \<open>R\<close> raises a C++ exception or returns with the position still inside the buffer, and never runs
  into undefined behaviour. The locale \<open>codec\<close> is the interface of a serialised type, with the loop
  over a vector of such values proved once; it is interpreted on every type the code serialises.
\<close>

unbundle bit_operations_syntax

section \<open>State\<close>

record OutputBuffer =
  ob_buffer :: "byte list"

record InputBuffer =
  ib_data :: "byte list"   \<comment> \<open>the bytes \<open>data_[0 .. size_)\<close>\<close>
  ib_pos :: nat

abbreviation ib_size :: "InputBuffer \<Rightarrow> nat" where
  "ib_size b \<equiv> length (ib_data b)"

text \<open>The byte order of the host; the buffer code does not depend on it (\<open>mem_of_htonl\<close>).\<close>

definition host :: endian where
  "host = LittleEndian"

definition byte_of_char :: "char \<Rightarrow> byte" where
  "byte_of_char c = word_of_nat (of_char c)"

definition char_of_byte :: "byte \<Rightarrow> char" where
  "char_of_byte b = char_of (unat b)"

section \<open>OutputBuffer\<close>

definition OutputBuffer_new :: OutputBuffer where
  "OutputBuffer_new = \<lparr>ob_buffer = []\<rparr>"

definition OutputBuffer_Reset :: "OutputBuffer \<Rightarrow> OutputBuffer" where
  "OutputBuffer_Reset ob = ob\<lparr>ob_buffer := []\<rparr>"

definition WriteByte :: "byte \<Rightarrow> OutputBuffer \<Rightarrow> OutputBuffer" where
  "WriteByte v ob = ob\<lparr>ob_buffer := ob_buffer ob @ [v]\<rparr>"

definition WriteRawBytes :: "byte list \<Rightarrow> OutputBuffer \<Rightarrow> OutputBuffer" where
  "WriteRawBytes data ob = ob\<lparr>ob_buffer := ob_buffer ob @ data\<rparr>"

definition WriteBool :: "bool \<Rightarrow> OutputBuffer \<Rightarrow> OutputBuffer" where
  "WriteBool v = WriteByte (if v then 1 else 0)"

definition WriteShort :: "int16 \<Rightarrow> OutputBuffer \<Rightarrow> OutputBuffer" where
  "WriteShort v = (let n = htons_on host v in WriteRawBytes (mem_of host 2 n))"

definition WriteInt :: "int32 \<Rightarrow> OutputBuffer \<Rightarrow> OutputBuffer" where
  "WriteInt v = (let n = htonl_on host v in WriteRawBytes (mem_of host 4 n))"

text \<open>\<open>v >> 32\<close> on the signed type is the arithmetic shift.\<close>

definition WriteLong :: "int64 \<Rightarrow> OutputBuffer \<Rightarrow> OutputBuffer" where
  "WriteLong v ob =
     (let hi = htonl_on host (ucast (signed_drop_bit 32 v));
          lo = htonl_on host (ucast (v AND 0xFFFFFFFF))
      in WriteRawBytes (mem_of host 4 lo) (WriteRawBytes (mem_of host 4 hi) ob))"

definition WriteFloat :: "32 word \<Rightarrow> OutputBuffer \<Rightarrow> OutputBuffer" where
  "WriteFloat bits = WriteInt bits"

definition WriteDouble :: "64 word \<Rightarrow> OutputBuffer \<Rightarrow> OutputBuffer" where
  "WriteDouble bits = WriteLong bits"

definition WriteBytes :: "byte list \<Rightarrow> OutputBuffer \<Rightarrow> OutputBuffer" where
  "WriteBytes data ob = WriteRawBytes data (WriteInt (word_of_nat (length data)) ob)"

definition WriteString :: "string \<Rightarrow> OutputBuffer \<Rightarrow> OutputBuffer" where
  "WriteString s ob =
     (let bytes = map byte_of_char s
      in WriteRawBytes bytes (WriteInt (word_of_nat (length bytes)) ob))"

definition OutputBuffer_Data :: "OutputBuffer \<Rightarrow> byte list" where
  "OutputBuffer_Data ob = ob_buffer ob"

definition OutputBuffer_Size :: "OutputBuffer \<Rightarrow> nat" where
  "OutputBuffer_Size ob = length (ob_buffer ob)"

section \<open>InputBuffer\<close>

type_synonym 'a reader = "InputBuffer \<Rightarrow> ('a \<times> InputBuffer) result"

definition returnr :: "'a \<Rightarrow> 'a reader" where
  "returnr x b = Inr (x, b)"

definition throwr :: "exn \<Rightarrow> 'a reader" where
  "throwr e b = Inl e"

definition bindr :: "'a reader \<Rightarrow> ('a \<Rightarrow> 'b reader) \<Rightarrow> 'b reader" where
  "bindr m f b = (case m b of Inl e \<Rightarrow> Inl e | Inr (x, b') \<Rightarrow> f x b')"

definition InputBuffer_new :: "byte list \<Rightarrow> InputBuffer" where
  "InputBuffer_new data = \<lparr>ib_data = data, ib_pos = 0\<rparr>"

definition InputBuffer_Reset :: "byte list \<Rightarrow> InputBuffer \<Rightarrow> InputBuffer" where
  "InputBuffer_Reset data b = b\<lparr>ib_data := data, ib_pos := 0\<rparr>"

definition InputBuffer_Position :: "InputBuffer \<Rightarrow> nat" where
  "InputBuffer_Position b = ib_pos b"

text \<open>\<open>size_ - pos_\<close> in \<open>size_t\<close>, which wraps when the position is past the end.\<close>

definition InputBuffer_Remaining :: "InputBuffer \<Rightarrow> nat" where
  "InputBuffer_Remaining b = nat ((int (ib_size b) - int (ib_pos b)) mod int size_max)"

definition CheckBounds :: "nat \<Rightarrow> unit reader" where
  "CheckBounds need b =
     (if (ib_pos b + need) mod size_max > ib_size b then Inl ReadPastEnd else Inr ((), b))"

definition ReadByte :: "byte reader" where
  "ReadByte = bindr (CheckBounds 1) (\<lambda>_ b.
     if ib_pos b < ib_size b then Inr (ib_data b ! ib_pos b, b\<lparr>ib_pos := ib_pos b + 1\<rparr>)
     else Inl Undefined)"

text \<open>The \<open>memcpy\<close> of \<open>len\<close> bytes from the position is undefined if they are not all in the buffer.\<close>

definition ReadRawBytes :: "nat \<Rightarrow> byte list reader" where
  "ReadRawBytes len = bindr (CheckBounds len) (\<lambda>_ b.
     if ib_pos b + len \<le> ib_size b
     then Inr (take len (drop (ib_pos b) (ib_data b)), b\<lparr>ib_pos := ib_pos b + len\<rparr>)
     else Inl Undefined)"

definition ReadBool :: "bool reader" where
  "ReadBool = bindr ReadByte (\<lambda>v. returnr (v \<noteq> 0))"

definition ReadShort :: "int16 reader" where
  "ReadShort = bindr (ReadRawBytes 2) (\<lambda>n. returnr (ntohs_on host (of_mem host n)))"

definition ReadInt :: "int32 reader" where
  "ReadInt = bindr (ReadRawBytes 4) (\<lambda>n. returnr (ntohl_on host (of_mem host n)))"

definition ReadLong :: "int64 reader" where
  "ReadLong = bindr (ReadRawBytes 8) (\<lambda>n.
     let hi = of_mem host (take 4 n) :: int32; lo = of_mem host (drop 4 n) :: int32
     in returnr (push_bit 32 (ucast (ntohl_on host hi)) OR ucast (ntohl_on host lo)))"

definition ReadFloat :: "32 word reader" where
  "ReadFloat = ReadInt"

definition ReadDouble :: "64 word reader" where
  "ReadDouble = ReadLong"

text \<open>A container constructed with a negative \<open>int32_t\<close> gets a length above \<open>max_size()\<close>.\<close>

definition ReadBytes :: "byte list reader" where
  "ReadBytes = bindr ReadInt (\<lambda>len.
     if sint len < 0 then throwr LengthError else ReadRawBytes (nat (sint len)))"

definition ReadString :: "string reader" where
  "ReadString = bindr ReadInt (\<lambda>len.
     if sint len < 0 then throwr LengthError
     else bindr (ReadRawBytes (nat (sint len))) (\<lambda>result. returnr (map char_of_byte result)))"

definition ReadUnsignedShort :: "int16 reader" where
  "ReadUnsignedShort = bindr (ReadRawBytes 2) (\<lambda>n. returnr (ntohs_on host (of_mem host n)))"

definition Skip :: "nat \<Rightarrow> unit reader" where
  "Skip n = bindr (CheckBounds n) (\<lambda>_ b. Inr ((), b\<lparr>ib_pos := (ib_pos b + n) mod size_max\<rparr>))"

text \<open>The loop \<open>for (int i = 0; i < count; i++) result.push_back(R(in))\<close>; a negative count runs it
  zero times.\<close>

fun read_n :: "'a reader \<Rightarrow> nat \<Rightarrow> 'a list reader" where
  "read_n R 0 = returnr []"
| "read_n R (Suc n) = bindr R (\<lambda>x. bindr (read_n R n) (\<lambda>xs. returnr (x # xs)))"

definition loop_count :: "int32 \<Rightarrow> nat" where
  "loop_count c = nat (sint c)"

section \<open>Reading back what was written\<close>

definition reads :: "'a reader \<Rightarrow> byte list \<Rightarrow> 'a \<Rightarrow> bool" where
  "reads R bs x \<longleftrightarrow> (\<forall>pre post. length (pre @ bs @ post) < size_max \<longrightarrow>
     R \<lparr>ib_data = pre @ bs @ post, ib_pos = length pre\<rparr>
     = Inr (x, \<lparr>ib_data = pre @ bs @ post, ib_pos = length pre + length bs\<rparr>))"

lemma readsD:
  "reads R bs x \<Longrightarrow> length (pre @ bs @ post) < size_max \<Longrightarrow>
   R \<lparr>ib_data = pre @ bs @ post, ib_pos = length pre\<rparr>
   = Inr (x, \<lparr>ib_data = pre @ bs @ post, ib_pos = length pre + length bs\<rparr>)"
  by (simp add: reads_def)

lemma reads_return [codec_intros]: "reads (returnr x) [] x"
  by (simp add: reads_def returnr_def)

lemma reads_bind:
  assumes "reads R bs x" "reads (S x) cs y"
  shows "reads (bindr R S) (bs @ cs) y"
  unfolding reads_def
proof (intro allI impI)
  fix pre post :: "byte list"
  assume len: "length (pre @ (bs @ cs) @ post) < size_max"
  have "R \<lparr>ib_data = pre @ bs @ (cs @ post), ib_pos = length pre\<rparr>
      = Inr (x, \<lparr>ib_data = pre @ bs @ (cs @ post), ib_pos = length pre + length bs\<rparr>)"
    using assms(1) by (rule readsD) (use len in simp)
  moreover have "S x \<lparr>ib_data = (pre @ bs) @ cs @ post, ib_pos = length (pre @ bs)\<rparr>
      = Inr (y, \<lparr>ib_data = (pre @ bs) @ cs @ post, ib_pos = length (pre @ bs) + length cs\<rparr>)"
    using assms(2) by (rule readsD) (use len in simp)
  ultimately show "bindr R S \<lparr>ib_data = pre @ (bs @ cs) @ post, ib_pos = length pre\<rparr>
      = Inr (y, \<lparr>ib_data = pre @ (bs @ cs) @ post, ib_pos = length pre + length (bs @ cs)\<rparr>)"
    by (simp add: bindr_def add.assoc)
qed

text \<open>Same rule, for goals in which the bytes are not yet split.\<close>

lemma reads_bindI:
  "reads R bs x \<Longrightarrow> reads (S x) cs y \<Longrightarrow> ds = bs @ cs \<Longrightarrow> reads (bindr R S) ds y"
  by (simp add: reads_bind)

lemma reads_bind_return:
  "reads R bs x \<Longrightarrow> y = f x \<Longrightarrow> reads (bindr R (\<lambda>x. returnr (f x))) bs y"
  using reads_bind [of R bs x "\<lambda>x. returnr (f x)" "[]" "f x"] reads_return [of "f x"] by simp

lemma reads_raw: "n = length bs \<Longrightarrow> reads (ReadRawBytes n) bs bs"
  by (simp add: reads_def ReadRawBytes_def bindr_def CheckBounds_def)

lemma reads_InputBuffer_new:
  "reads R bs x \<Longrightarrow> length (bs @ rest) < size_max \<Longrightarrow>
   R (InputBuffer_new (bs @ rest)) = Inr (x, \<lparr>ib_data = bs @ rest, ib_pos = length bs\<rparr>)"
  using readsD [of R bs x "[]" rest] by (simp add: InputBuffer_new_def)

section \<open>The interface of a serialised type\<close>

locale codec =
  fixes W :: "'a \<Rightarrow> OutputBuffer \<Rightarrow> OutputBuffer"   \<comment> \<open>the write operation\<close>
    and R :: "'a reader"                             \<comment> \<open>the read operation\<close>
    and enc :: "'a \<Rightarrow> byte list"                     \<comment> \<open>the bytes of a value\<close>
    and ok :: "'a \<Rightarrow> bool"                           \<comment> \<open>the values that the format can hold\<close>
  assumes encode: "ob_buffer (W x ob) = ob_buffer ob @ enc x"
    and decode: "ok x \<Longrightarrow> reads R (enc x) x"
begin

lemma write_fold: "ob_buffer (fold W xs ob) = ob_buffer ob @ concat (map enc xs)"
  by (induction xs arbitrary: ob) (simp_all add: encode)

lemma read_back: "ok x \<Longrightarrow> length (enc x @ rest) < size_max \<Longrightarrow>
   R (InputBuffer_new (ob_buffer (W x OutputBuffer_new) @ rest))
   = Inr (x, \<lparr>ib_data = enc x @ rest, ib_pos = length (enc x)\<rparr>)"
  using reads_InputBuffer_new [OF decode] by (simp add: encode OutputBuffer_new_def)

lemma read_loop:
  assumes "list_all ok xs"
  shows "reads (read_n R (length xs)) (concat (map enc xs)) xs"
  using assms
proof (induction xs)
  case (Cons x xs)
  then have "reads (read_n R (length xs)) (concat (map enc xs)) xs" by simp
  then have "reads (bindr (read_n R (length xs)) (\<lambda>xs. returnr (x # xs))) (concat (map enc xs)) (x # xs)"
    by (rule reads_bind_return) simp
  moreover have "reads R (enc x) x" using Cons.prems by (simp add: decode)
  ultimately show ?case by (auto intro: reads_bind)
qed (simp add: reads_return)

end

section \<open>The basic types\<close>

lemma char_of_byte_of_char [simp]: "char_of_byte (byte_of_char c) = c"
proof -
  have "(of_char c :: nat) < 2 ^ 8" by simp
  then have "unat (word_of_nat (of_char c) :: byte) = of_char c"
    by (simp add: unat_of_nat)
  then show ?thesis by (simp add: char_of_byte_def byte_of_char_def)
qed

lemma map_char_of_byte [simp]: "map char_of_byte (map byte_of_char s) = s"
  by (simp add: map_idI)

lemma ucast_signed_drop_bit:
  "(ucast (signed_drop_bit 32 (v::int64)) :: int32) = ucast (drop_bit 32 v)"
  by (rule bit_word_eqI) (auto simp: bit_simps)

text \<open>The bytes of each basic type.\<close>

abbreviation enc_short :: "int16 \<Rightarrow> byte list" where "enc_short \<equiv> mem_of BigEndian 2"
abbreviation enc_int :: "int32 \<Rightarrow> byte list" where "enc_int \<equiv> mem_of BigEndian 4"
abbreviation enc_long :: "int64 \<Rightarrow> byte list" where "enc_long \<equiv> mem_of BigEndian 8"

definition enc_bytes :: "byte list \<Rightarrow> byte list" where
  "enc_bytes data = enc_int (word_of_nat (length data)) @ data"

definition enc_string :: "string \<Rightarrow> byte list" where
  "enc_string s = enc_bytes (map byte_of_char s)"

definition fits_int32 :: "'a list \<Rightarrow> bool" where
  "fits_int32 xs \<longleftrightarrow> length xs < 2 ^ 31"

lemma length_enc_string [simp]: "length (enc_string s) = 4 + length s"
  by (simp add: enc_string_def enc_bytes_def)

lemma loop_count_of_nat: "n < 2 ^ 31 \<Longrightarrow> loop_count (word_of_nat n) = n"
  by (simp add: loop_count_def sint_of_nat)

lemma WriteRawBytes_buffer [simp]: "ob_buffer (WriteRawBytes bs ob) = ob_buffer ob @ bs"
  by (simp add: WriteRawBytes_def)

lemma WriteInt_buffer: "ob_buffer (WriteInt v ob) = ob_buffer ob @ enc_int v"
  by (simp add: WriteInt_def mem_of_htonl)

lemma reads_ReadInt: "reads ReadInt (enc_int v) v"
  unfolding ReadInt_def by (rule reads_bind_return [OF reads_raw]) (simp_all add: htonl_of_mem)

interpretation int32: codec WriteInt ReadInt enc_int "\<lambda>_. True"
  by unfold_locales (simp_all add: WriteInt_buffer reads_ReadInt)

interpretation int16: codec WriteShort ReadUnsignedShort enc_short "\<lambda>_. True"
proof unfold_locales
  show "reads ReadUnsignedShort (enc_short x) x" for x
    unfolding ReadUnsignedShort_def
    by (rule reads_bind_return [OF reads_raw]) (simp_all add: htons_of_mem)
qed (simp add: WriteShort_def mem_of_htons)

interpretation signed_int16: codec WriteShort ReadShort enc_short "\<lambda>_. True"
  using int16.codec_axioms by (simp add: ReadShort_def ReadUnsignedShort_def)

lemma reads_ReadLong: "reads ReadLong (enc_long v) v"
proof -
  let ?hi = "ucast (drop_bit 32 v) :: int32" and ?lo = "ucast (v AND 0xFFFFFFFF) :: int32"
  have "unat (push_bit 32 (ucast ?hi) OR ucast ?lo :: int64) = unat v"
    unfolding unat_join unat_high unat_low by simp
  then have join: "(push_bit 32 (ucast ?hi) OR ucast ?lo :: int64) = v"
    by (simp only: unsigned_word_eqI)
  have "enc_long v = enc_int ?hi @ enc_int ?lo" by (rule mem_of_halves)
  then have "take 4 (enc_long v) = enc_int ?hi" "drop 4 (enc_long v) = enc_int ?lo" by simp_all
  then have "htonl_on host (of_mem host (take 4 (enc_long v))) = ?hi"
    and "htonl_on host (of_mem host (drop 4 (enc_long v))) = ?lo"
    by (simp_all add: htonl_of_mem)
  then show ?thesis
    unfolding ReadLong_def Let_def
    by (intro reads_bind_return [OF reads_raw]) (simp_all only: length_mem_of join)
qed

lemma WriteLong_buffer: "ob_buffer (WriteLong v ob) = ob_buffer ob @ enc_long v"
  unfolding WriteLong_def mem_of_halves [of v] by (simp add: mem_of_htonl ucast_signed_drop_bit)

interpretation int64: codec WriteLong ReadLong enc_long "\<lambda>_. True"
  by unfold_locales (simp_all add: WriteLong_buffer reads_ReadLong)

interpretation float32: codec WriteFloat ReadFloat enc_int "\<lambda>_. True"
  by unfold_locales (simp_all add: WriteFloat_def ReadFloat_def int32.encode int32.decode)

interpretation float64: codec WriteDouble ReadDouble enc_long "\<lambda>_. True"
  by unfold_locales (simp_all add: WriteDouble_def ReadDouble_def int64.encode int64.decode)

lemma reads_ReadByte: "reads ReadByte [v] v"
  by (simp add: reads_def ReadByte_def bindr_def CheckBounds_def nth_append)

interpretation bool: codec WriteBool ReadBool "\<lambda>v. [if v then 1 else 0]" "\<lambda>_. True"
proof unfold_locales
  show "reads ReadBool [if x then 1 else 0] x" for x
    unfolding ReadBool_def by (rule reads_bind_return [OF reads_ReadByte]) simp
qed (simp add: WriteBool_def WriteByte_def)

interpretation bytes: codec WriteBytes ReadBytes enc_bytes fits_int32
proof unfold_locales
  fix x :: "byte list" assume x: "fits_int32 x"
  show "reads ReadBytes (enc_bytes x) x"
    unfolding ReadBytes_def enc_bytes_def
    using x by (intro reads_bind [OF reads_ReadInt])
      (simp add: fits_int32_def sint_of_nat reads_raw)
qed (simp add: WriteBytes_def int32.encode enc_bytes_def)

interpretation string: codec WriteString ReadString enc_string fits_int32
proof unfold_locales
  fix s :: string assume s: "fits_int32 s"
  have "reads (bindr (ReadRawBytes (length s)) (\<lambda>result. returnr (map char_of_byte result)))
      (map byte_of_char s) s"
    by (rule reads_bind_return [OF reads_raw]) (simp_all del: map_map)
  then show "reads ReadString (enc_string s) s"
    unfolding ReadString_def enc_string_def enc_bytes_def
    using s by (intro reads_bind [OF reads_ReadInt]) (simp add: fits_int32_def sint_of_nat)
qed (simp add: WriteString_def int32.encode enc_string_def enc_bytes_def)

lemmas write_laws [simp] =
  int32.encode int16.encode int64.encode float32.encode float64.encode bool.encode
  bytes.encode string.encode

lemmas basic_reads [codec_intros] =
  int32.decode [OF TrueI] int16.decode [OF TrueI] signed_int16.decode [OF TrueI]
  int64.decode [OF TrueI] float32.decode [OF TrueI] float64.decode [OF TrueI]
  bool.decode [OF TrueI] bytes.decode string.decode

context codec
begin

text \<open>A list preceded by its length.\<close>

lemma reads_counted:
  assumes "list_all ok xs" "fits_int32 xs"
  shows "reads (bindr ReadInt (\<lambda>n. read_n R (loop_count n))) (enc_int (word_of_nat (length xs)) @ concat (map enc xs)) xs"
  using read_loop [OF assms(1)] assms(2) by (intro reads_bind [OF basic_reads(1)]) (simp add: fits_int32_def loop_count_of_nat)

end

text \<open>Evaluation of the encodings on concrete values.\<close>

lemmas byte_eval = enc_string_def enc_bytes_def byte_of_char_def mem_of_def nat_bytes_numeral

section \<open>Memory safety of reading\<close>

text \<open>A buffer that the code can hold: the position is inside, and the size is that of a C++ object
  (at most \<open>PTRDIFF_MAX\<close>).\<close>

definition wf_ib :: "InputBuffer \<Rightarrow> bool" where
  "wf_ib b \<longleftrightarrow> ib_pos b \<le> ib_size b \<and> ib_size b < 2 ^ 63"

definition safe :: "'a reader \<Rightarrow> bool" where
  "safe R \<longleftrightarrow> (\<forall>b. wf_ib b \<longrightarrow> (case R b of
     Inl e \<Rightarrow> e \<noteq> Undefined
   | Inr (x, b') \<Rightarrow> wf_ib b' \<and> ib_data b' = ib_data b \<and> ib_pos b \<le> ib_pos b'))"

named_theorems safe_intros \<open>readers that are safe\<close>

lemma safeI:
  assumes "\<And>b e. wf_ib b \<Longrightarrow> R b = Inl e \<Longrightarrow> e \<noteq> Undefined"
    and "\<And>b x b'. wf_ib b \<Longrightarrow> R b = Inr (x, b') \<Longrightarrow>
      wf_ib b' \<and> ib_data b' = ib_data b \<and> ib_pos b \<le> ib_pos b'"
  shows "safe R"
  unfolding safe_def
proof (intro allI impI)
  fix b assume b: "wf_ib b"
  show "case R b of Inl e \<Rightarrow> e \<noteq> Undefined
    | Inr (x, b') \<Rightarrow> wf_ib b' \<and> ib_data b' = ib_data b \<and> ib_pos b \<le> ib_pos b'"
  proof (cases "R b")
    case (Inl e)
    then show ?thesis using assms(1) [OF b Inl] by simp
  next
    case (Inr r)
    then show ?thesis using assms(2) [OF b, of "fst r" "snd r"] by (simp add: case_prod_beta)
  qed
qed

lemma safe_Inl: "safe R \<Longrightarrow> wf_ib b \<Longrightarrow> R b = Inl e \<Longrightarrow> e \<noteq> Undefined"
  by (auto simp: safe_def)

lemma safe_Inr:
  "safe R \<Longrightarrow> wf_ib b \<Longrightarrow> R b = Inr (x, b') \<Longrightarrow> wf_ib b' \<and> ib_data b' = ib_data b \<and> ib_pos b \<le> ib_pos b'"
  by (force simp: safe_def)

lemma safe_return [safe_intros]: "safe (returnr x)"
  by (simp add: safe_def returnr_def)

lemma safe_throw [safe_intros]: "e \<noteq> Undefined \<Longrightarrow> safe (throwr e)"
  by (simp add: safe_def throwr_def)

lemma safe_bind [safe_intros]:
  assumes "safe R" "\<And>x. safe (S x)"
  shows "safe (bindr R S)"
proof (rule safeI)
  fix b e assume b: "wf_ib b" and "bindr R S b = Inl e"
  then consider "R b = Inl e" | x b' where "R b = Inr (x, b')" "S x b' = Inl e"
    by (auto simp: bindr_def split: sum.splits)
  then show "e \<noteq> Undefined"
  proof cases
    case 1
    show ?thesis by (rule safe_Inl [OF assms(1) b 1])
  next
    case 2
    from safe_Inr [OF assms(1) b 2(1)] have "wf_ib b'" by simp
    then show ?thesis using 2(2) by (rule safe_Inl [OF assms(2)])
  qed
next
  fix b y b'' assume b: "wf_ib b" and "bindr R S b = Inr (y, b'')"
  then obtain x b' where R: "R b = Inr (x, b')" and S: "S x b' = Inr (y, b'')"
    by (auto simp: bindr_def split: sum.splits)
  show "wf_ib b'' \<and> ib_data b'' = ib_data b \<and> ib_pos b \<le> ib_pos b''"
    using safe_Inr [OF assms(1) b R] safe_Inr [OF assms(2) _ S] by auto
qed

lemma safe_if [safe_intros]: "safe R \<Longrightarrow> safe S \<Longrightarrow> safe (if c then R else S)"
  by simp

lemma safe_raw [safe_intros]: "n < 2 ^ 63 \<Longrightarrow> safe (ReadRawBytes n)"
  by (auto simp: safe_def ReadRawBytes_def bindr_def CheckBounds_def wf_ib_def split: sum.splits)

lemma safe_ReadByte [safe_intros]: "safe ReadByte"
  by (auto simp: safe_def ReadByte_def bindr_def CheckBounds_def wf_ib_def split: sum.splits)

lemma nat_sint_less: "nat (sint (w::int32)) < 2 ^ 63"
  using sint_less [of w] by simp

lemma safe_fixed [safe_intros]: "safe ReadInt" "safe ReadLong" "safe ReadShort" "safe ReadUnsignedShort"
  "safe ReadBool" "safe ReadFloat" "safe ReadDouble"
  unfolding ReadInt_def ReadLong_def ReadShort_def ReadUnsignedShort_def ReadBool_def ReadFloat_def
    ReadDouble_def Let_def
  by (auto intro!: safe_intros)

lemma safe_ReadBytes [safe_intros]: "safe ReadBytes"
  unfolding ReadBytes_def by (auto intro!: safe_intros nat_sint_less)

lemma safe_ReadString [safe_intros]: "safe ReadString"
  unfolding ReadString_def by (auto intro!: safe_intros nat_sint_less)

lemma safe_read_n [safe_intros]: "safe R \<Longrightarrow> safe (read_n R n)"
  by (induction n) (auto intro!: safe_intros)

section \<open>Whole messages\<close>

text \<open>A message is a sequence of typed fields, written by the write operations one after the other and
  read by the matching read operations in the same order.\<close>

datatype field = FBool bool | FShort int16 | FInt int32 | FLong int64 | FFloat "32 word"
  | FDouble "64 word" | FBytes "byte list" | FString string

datatype kind = KBool | KShort | KInt | KLong | KFloat | KDouble | KBytes | KString

primrec kind_of :: "field \<Rightarrow> kind" where
  "kind_of (FBool v) = KBool"
| "kind_of (FShort v) = KShort"
| "kind_of (FInt v) = KInt"
| "kind_of (FLong v) = KLong"
| "kind_of (FFloat v) = KFloat"
| "kind_of (FDouble v) = KDouble"
| "kind_of (FBytes v) = KBytes"
| "kind_of (FString v) = KString"

primrec write_field :: "field \<Rightarrow> OutputBuffer \<Rightarrow> OutputBuffer" where
  "write_field (FBool v) = WriteBool v"
| "write_field (FShort v) = WriteShort v"
| "write_field (FInt v) = WriteInt v"
| "write_field (FLong v) = WriteLong v"
| "write_field (FFloat v) = WriteFloat v"
| "write_field (FDouble v) = WriteDouble v"
| "write_field (FBytes v) = WriteBytes v"
| "write_field (FString v) = WriteString v"

primrec read_field :: "kind \<Rightarrow> field reader" where
  "read_field KBool = bindr ReadBool (\<lambda>v. returnr (FBool v))"
| "read_field KShort = bindr ReadShort (\<lambda>v. returnr (FShort v))"
| "read_field KInt = bindr ReadInt (\<lambda>v. returnr (FInt v))"
| "read_field KLong = bindr ReadLong (\<lambda>v. returnr (FLong v))"
| "read_field KFloat = bindr ReadFloat (\<lambda>v. returnr (FFloat v))"
| "read_field KDouble = bindr ReadDouble (\<lambda>v. returnr (FDouble v))"
| "read_field KBytes = bindr ReadBytes (\<lambda>v. returnr (FBytes v))"
| "read_field KString = bindr ReadString (\<lambda>v. returnr (FString v))"

primrec read_fields :: "kind list \<Rightarrow> field list reader" where
  "read_fields [] = returnr []"
| "read_fields (k # ks) = bindr (read_field k) (\<lambda>x. bindr (read_fields ks) (\<lambda>xs. returnr (x # xs)))"

primrec enc_field :: "field \<Rightarrow> byte list" where
  "enc_field (FBool v) = [if v then 1 else 0]"
| "enc_field (FShort v) = enc_short v"
| "enc_field (FInt v) = enc_int v"
| "enc_field (FLong v) = enc_long v"
| "enc_field (FFloat v) = enc_int v"
| "enc_field (FDouble v) = enc_long v"
| "enc_field (FBytes v) = enc_bytes v"
| "enc_field (FString v) = enc_string v"

primrec field_ok :: "field \<Rightarrow> bool" where
  "field_ok (FBool v) = True"
| "field_ok (FShort v) = True"
| "field_ok (FInt v) = True"
| "field_ok (FLong v) = True"
| "field_ok (FFloat v) = True"
| "field_ok (FDouble v) = True"
| "field_ok (FBytes v) = fits_int32 v"
| "field_ok (FString v) = fits_int32 v"

lemma write_field_buffer: "ob_buffer (write_field x ob) = ob_buffer ob @ enc_field x"
  by (cases x) simp_all

lemma write_fields_buffer: "ob_buffer (fold write_field xs ob) = ob_buffer ob @ concat (map enc_field xs)"
  by (induction xs arbitrary: ob) (simp_all add: write_field_buffer)

lemma reads_field: "field_ok x \<Longrightarrow> reads (read_field (kind_of x)) (enc_field x) x"
  by (cases x) (simp_all only: kind_of.simps read_field.simps enc_field.simps field_ok.simps
      reads_bind_return [OF _ refl] codec_intros)

lemma reads_fields:
  "list_all field_ok xs \<Longrightarrow> reads (read_fields (map kind_of xs)) (concat (map enc_field xs)) xs"
  by (induction xs) (auto intro!: reads_bind reads_field reads_bind_return codec_intros)

lemma safe_read_field [safe_intros]: "safe (read_field k)"
  by (cases k) (auto intro!: safe_intros)

lemma safe_read_fields: "safe (read_fields ks)"
  by (induction ks) (auto intro!: safe_intros)



text \<open>C37. Reading is memory safe: from a buffer with its position inside, any sequence of typed reads
  of any bytes (truncated or hostile) raises a C++ exception or returns with the position moved
  forward and still inside; it never reads past the end.\<close>

theorem reading_is_memory_safe:
  assumes "wf_ib b"
  shows "case read_fields ks b of
      Inl e \<Rightarrow> e \<noteq> Undefined
    | Inr (xs, b') \<Rightarrow> ib_data b' = ib_data b \<and> ib_pos b \<le> ib_pos b' \<and> ib_pos b' \<le> ib_size b'"
proof (cases "read_fields ks b")
  case (Inl e)
  then show ?thesis using safe_Inl [OF safe_read_fields assms] by simp
next
  case (Inr r)
  then show ?thesis
    using safe_Inr [OF safe_read_fields assms, of ks "fst r" "snd r"] by (auto simp: wf_ib_def)
qed

theorem reading_is_memory_safe_witness:
  "wf_ib (InputBuffer_new [255, 255, 255, 255, 1])
   \<and> read_fields [KString] (InputBuffer_new [255, 255, 255, 255, 1]) \<noteq> Inl Undefined"
proof -
  have wf: "wf_ib (InputBuffer_new [255, 255, 255, 255, 1])"
    by (simp add: wf_ib_def InputBuffer_new_def)
  show ?thesis using wf reading_is_memory_safe [OF wf, of "[KString]"] by (auto split: sum.splits)
qed

end
