(* ===== verification/NdfsProtocol.thy ===== *)
theory NdfsProtocol
  imports NamesystemLaws Buffer
begin

text \<open>
  The wire format between the NameNode, the DataNodes and the clients: the method numbers of
  \<^verbatim>\<open>src/ndfs/name_node.h\<close>, the writers that the NameNode uses for its responses and the readers that
  \<^verbatim>\<open>src/ndfs/dfs_client.h\<close> uses on the other side. Writer and reader of each structure are an interpretation of
  \<open>codec\<close>, so that the two files agree on the format.
\<close>

section \<open>Methods\<close>

datatype NdfsOp = kStartFile | kAddBlock | kGetBlocks | kDelete | kMkdirs | kGetListing | kHeartbeat
  | kBlockReport | kBlockReceived | kGetStats | kGetDatanodeReport

fun op_id :: "NdfsOp \<Rightarrow> int32" where
  "op_id kStartFile = 0"
| "op_id kAddBlock = 1"
| "op_id kGetBlocks = 2"
| "op_id kDelete = 3"
| "op_id kMkdirs = 4"
| "op_id kGetListing = 5"
| "op_id kHeartbeat = 6"
| "op_id kBlockReport = 7"
| "op_id kBlockReceived = 8"
| "op_id kGetStats = 9"
| "op_id kGetDatanodeReport = 10"

section \<open>Blocks\<close>

definition WriteBlock :: "Block \<Rightarrow> OutputBuffer \<Rightarrow> OutputBuffer" where
  "WriteBlock b out = WriteLong (generation_stamp b) (WriteLong (num_bytes b) (WriteLong (block_id b) out))"

definition ReadBlock :: "Block reader" where
  "ReadBlock = bindr ReadLong (\<lambda>i. bindr ReadLong (\<lambda>n. bindr ReadLong (\<lambda>g.
     returnr \<lparr>block_id = i, num_bytes = n, generation_stamp = g\<rparr>)))"

definition enc_Block :: "Block \<Rightarrow> byte list" where
  "enc_Block b = enc_long (block_id b) @ enc_long (num_bytes b) @ enc_long (generation_stamp b)"

interpretation block: codec WriteBlock ReadBlock enc_Block "\<lambda>_. True"
proof unfold_locales
  fix b :: Block
  show "reads ReadBlock (enc_Block b) b"
    unfolding ReadBlock_def enc_Block_def
    by (rule reads_bind reads_bind_return codec_intros | simp)+
qed (simp add: WriteBlock_def enc_Block_def)

section \<open>DataNodes\<close>

definition WriteDataNodeInfo :: "DataNodeInfo \<Rightarrow> OutputBuffer \<Rightarrow> OutputBuffer" where
  "WriteDataNodeInfo dn out =
     WriteLong (dn_last_update dn) (WriteLong (dn_remaining dn) (WriteLong (dn_capacity dn)
       (WriteInt (dn_port dn) (WriteString (dn_host dn) (WriteString (dn_name dn) out)))))"

definition ReadDataNodeInfo :: "DataNodeInfo reader" where
  "ReadDataNodeInfo = bindr ReadString (\<lambda>name. bindr ReadString (\<lambda>hst. bindr ReadInt (\<lambda>port.
     bindr ReadLong (\<lambda>capacity. bindr ReadLong (\<lambda>remaining. bindr ReadLong (\<lambda>last_update.
       returnr \<lparr>dn_name = name, dn_host = hst, dn_port = port, dn_capacity = capacity,
         dn_remaining = remaining, dn_last_update = last_update\<rparr>))))))"

definition enc_DataNodeInfo :: "DataNodeInfo \<Rightarrow> byte list" where
  "enc_DataNodeInfo dn = enc_string (dn_name dn) @ enc_string (dn_host dn) @ enc_int (dn_port dn)
     @ enc_long (dn_capacity dn) @ enc_long (dn_remaining dn) @ enc_long (dn_last_update dn)"

definition DataNodeInfo_ok :: "DataNodeInfo \<Rightarrow> bool" where
  "DataNodeInfo_ok dn \<longleftrightarrow> fits_int32 (dn_name dn) \<and> fits_int32 (dn_host dn)"

interpretation dninfo: codec WriteDataNodeInfo ReadDataNodeInfo enc_DataNodeInfo DataNodeInfo_ok
proof unfold_locales
  fix dn :: DataNodeInfo assume "DataNodeInfo_ok dn"
  then show "reads ReadDataNodeInfo (enc_DataNodeInfo dn) dn"
    unfolding ReadDataNodeInfo_def enc_DataNodeInfo_def DataNodeInfo_ok_def
    by - (rule reads_bind reads_bind_return codec_intros | simp)+
qed (simp add: WriteDataNodeInfo_def enc_DataNodeInfo_def)

definition WriteDataNodeInfoList :: "DataNodeInfo list \<Rightarrow> OutputBuffer \<Rightarrow> OutputBuffer" where
  "WriteDataNodeInfoList dns out = fold WriteDataNodeInfo dns (WriteInt (word_of_nat (length dns)) out)"

definition ReadDataNodeInfoList :: "DataNodeInfo list reader" where
  "ReadDataNodeInfoList = bindr ReadInt (\<lambda>n. read_n ReadDataNodeInfo (loop_count n))"

definition enc_dns :: "DataNodeInfo list \<Rightarrow> byte list" where
  "enc_dns dns = enc_int (word_of_nat (length dns)) @ concat (map enc_DataNodeInfo dns)"

definition dns_ok :: "DataNodeInfo list \<Rightarrow> bool" where
  "dns_ok dns \<longleftrightarrow> fits_int32 dns \<and> list_all DataNodeInfo_ok dns"

interpretation dns: codec WriteDataNodeInfoList ReadDataNodeInfoList enc_dns dns_ok
proof unfold_locales
  fix dns :: "DataNodeInfo list" assume "dns_ok dns"
  then have "reads (read_n ReadDataNodeInfo (loop_count (word_of_nat (length dns))))
      (concat (map enc_DataNodeInfo dns)) dns"
    by (simp add: dns_ok_def fits_int32_def loop_count_of_nat dninfo.read_loop)
  then show "reads ReadDataNodeInfoList (enc_dns dns) dns"
    unfolding ReadDataNodeInfoList_def enc_dns_def by (rule reads_bind [OF basic_reads(1)])
qed (simp add: WriteDataNodeInfoList_def enc_dns_def dninfo.write_fold)

text \<open>A block with its locations, as \<open>StartFile\<close>, \<open>AddBlock\<close> and each entry of \<open>GetBlocks\<close> return it.\<close>

definition WriteLocated :: "Block \<times> DataNodeInfo list \<Rightarrow> OutputBuffer \<Rightarrow> OutputBuffer" where
  "WriteLocated bt out = WriteDataNodeInfoList (snd bt) (WriteBlock (fst bt) out)"

definition ReadLocated :: "(Block \<times> DataNodeInfo list) reader" where
  "ReadLocated = bindr ReadBlock (\<lambda>b. bindr ReadDataNodeInfoList (\<lambda>dns. returnr (b, dns)))"

definition enc_Located :: "Block \<times> DataNodeInfo list \<Rightarrow> byte list" where
  "enc_Located bt = enc_Block (fst bt) @ enc_dns (snd bt)"

interpretation located: codec WriteLocated ReadLocated enc_Located "\<lambda>bt. dns_ok (snd bt)"
proof unfold_locales
  fix bt :: "Block \<times> DataNodeInfo list" assume "dns_ok (snd bt)"
  then show "reads ReadLocated (enc_Located bt) bt"
    unfolding ReadLocated_def enc_Located_def
    by - (rule reads_bind reads_bind_return block.decode dns.decode | simp)+
qed (simp add: WriteLocated_def enc_Located_def block.encode dns.encode)

text \<open>The readers never leave the message, whatever its bytes.\<close>

lemma safe_ReadBlock [safe_intros]: "safe ReadBlock"
  unfolding ReadBlock_def by (intro safe_intros)

lemma safe_ReadDataNodeInfo [safe_intros]: "safe ReadDataNodeInfo"
  unfolding ReadDataNodeInfo_def by (intro safe_intros)

lemma safe_ReadDataNodeInfoList [safe_intros]: "safe ReadDataNodeInfoList"
  unfolding ReadDataNodeInfoList_def by (intro safe_intros)

lemma safe_ReadLocated [safe_intros]: "safe ReadLocated"
  unfolding ReadLocated_def by (intro safe_intros)

end
