(* ===== verification/Writables.thy ===== *)
theory Writables
  imports Buffer Text "HOL-Library.List_Lexorder"
begin

text \<open>
  Model of \<^verbatim>\<open>src/io/writable.h\<close>, \<^verbatim>\<open>src/io/writable_types.h\<close> and \<^verbatim>\<open>src/io/md5.h\<close>. An object of a subclass of
  \<open>Writable\<close> is a value of the datatype \<open>Writable\<close>, one constructor per class; a virtual call is a case
  distinction on it. \<open>ReadFields\<close> takes the object it is called on, which fixes the class. A \<open>float\<close> is
  its bit pattern and the comparison of floats is IEEE 754's on bit patterns. The digest function of
  the crypto library is a parameter (\<open>md5\<close>).

  The locale \<open>comparable\<close> is what a sort relies on; each class is an interpretation, on the values for
  which its \<open>CompareTo\<close> is a total order.
\<close>

section \<open>The classes\<close>

datatype Writable =
    IntWritable int32
  | LongWritable int64
  | FloatWritable "32 word"
  | BooleanWritable bool
  | UTF8 string
  | BytesWritable "byte list"
  | NullWritable
  | MD5Hash "byte list"

definition kMD5Len :: nat where
  "kMD5Len = 16"

definition MD5Hash_new :: Writable where
  "MD5Hash_new = MD5Hash (replicate kMD5Len 0)"

text \<open>The constructor copies 16 bytes whatever the length of the span.\<close>

definition MD5Hash_of :: "byte list \<Rightarrow> Writable result" where
  "MD5Hash_of data = (if length data < kMD5Len then Inl Undefined else Inr (MD5Hash (take kMD5Len data)))"

definition MD5Hash_Compute :: "(byte list \<Rightarrow> byte list) \<Rightarrow> byte list \<Rightarrow> Writable" where
  "MD5Hash_Compute md5 data = MD5Hash (md5 data)"

definition MD5Hash_Compute_string :: "(byte list \<Rightarrow> byte list) \<Rightarrow> string \<Rightarrow> Writable" where
  "MD5Hash_Compute_string md5 s = MD5Hash_Compute md5 (map byte_of_char s)"

text \<open>The methods of \<open>MD5Hash\<close>, on the digest.\<close>

definition MD5Hash_Write :: "byte list \<Rightarrow> OutputBuffer \<Rightarrow> OutputBuffer" where
  [simp]: "MD5Hash_Write d out = WriteRawBytes d out"

definition MD5Hash_ReadFields :: "byte list reader" where
  [simp]: "MD5Hash_ReadFields = ReadRawBytes kMD5Len"

text \<open>The operator \<open>==\<close>.\<close>

definition MD5Hash_equal :: "byte list \<Rightarrow> byte list \<Rightarrow> bool" where
  "MD5Hash_equal d e \<longleftrightarrow> d = e"

fun Write :: "Writable \<Rightarrow> OutputBuffer \<Rightarrow> OutputBuffer" where
  "Write (IntWritable v) out = WriteInt v out"
| "Write (LongWritable v) out = WriteLong v out"
| "Write (FloatWritable v) out = WriteFloat v out"
| "Write (BooleanWritable v) out = WriteBool v out"
| "Write (UTF8 s) out =
     (let len = word_of_nat (length s) :: int16
      in WriteRawBytes (map byte_of_char s) (WriteShort len out))"
| "Write (BytesWritable v) out = WriteBytes v out"
| "Write NullWritable out = out"
| "Write (MD5Hash d) out = MD5Hash_Write d out"

fun ReadFields :: "Writable \<Rightarrow> Writable reader" where
  "ReadFields (IntWritable _) = bindr ReadInt (\<lambda>v. returnr (IntWritable v))"
| "ReadFields (LongWritable _) = bindr ReadLong (\<lambda>v. returnr (LongWritable v))"
| "ReadFields (FloatWritable _) = bindr ReadFloat (\<lambda>v. returnr (FloatWritable v))"
| "ReadFields (BooleanWritable _) = bindr ReadBool (\<lambda>v. returnr (BooleanWritable v))"
| "ReadFields (UTF8 _) = bindr ReadUnsignedShort (\<lambda>len.
     bindr (ReadRawBytes (unat len)) (\<lambda>bs. returnr (UTF8 (map char_of_byte bs))))"
| "ReadFields (BytesWritable _) = bindr ReadBytes (\<lambda>v. returnr (BytesWritable v))"
| "ReadFields NullWritable = returnr NullWritable"
| "ReadFields (MD5Hash _) = bindr MD5Hash_ReadFields (\<lambda>d. returnr (MD5Hash d))"

section \<open>Comparison\<close>

text \<open>IEEE 754 binary32 on bit patterns: a NaN compares to nothing, and otherwise sign and magnitude
  order the patterns, with the two zeros equal.\<close>

definition is_nan32 :: "32 word \<Rightarrow> bool" where
  "is_nan32 b \<longleftrightarrow> unat (drop_bit 23 b) mod 256 = 255 \<and> unat b mod 2 ^ 23 \<noteq> 0"

definition float_key :: "32 word \<Rightarrow> int" where
  "float_key b = (if unat b < 2 ^ 31 then int (unat b) else - int (unat b - 2 ^ 31))"

definition float_less :: "32 word \<Rightarrow> 32 word \<Rightarrow> bool" where
  "float_less a b \<longleftrightarrow> \<not> is_nan32 a \<and> \<not> is_nan32 b \<and> float_key a < float_key b"

definition float_eq :: "32 word \<Rightarrow> 32 word \<Rightarrow> bool" where
  "float_eq a b \<longleftrightarrow> \<not> is_nan32 a \<and> \<not> is_nan32 b \<and> float_key a = float_key b"

text \<open>\<open>std::string::compare\<close> and \<open>std::memcmp\<close> order bytes as unsigned numbers; only the sign of their result
  is specified, and the model returns the sign.\<close>

definition compare_bytes :: "byte list \<Rightarrow> byte list \<Rightarrow> int" where
  "compare_bytes xs ys = (if xs < ys then -1 else if xs = ys then 0 else 1)"

definition MD5Hash_CompareTo :: "byte list \<Rightarrow> byte list \<Rightarrow> int" where
  [simp]: "MD5Hash_CompareTo d e = compare_bytes d e"

text \<open>The virtual \<open>CompareTo\<close>; \<open>other\<close> is cast without a check to the class of the object. The difference
  of two \<open>int32_t\<close> may overflow, which is undefined.\<close>

fun CompareTo :: "Writable \<Rightarrow> Writable \<Rightarrow> int result" where
  "CompareTo (IntWritable a) (IntWritable b) =
     (let d = sint a - sint b in if - (2 ^ 31) \<le> d \<and> d < 2 ^ 31 then Inr d else Inl Undefined)"
| "CompareTo (LongWritable a) (LongWritable b) =
     Inr (if sint a < sint b then -1 else if a = b then 0 else 1)"
| "CompareTo (FloatWritable a) (FloatWritable b) =
     Inr (if float_less a b then -1 else if float_eq a b then 0 else 1)"
| "CompareTo (BooleanWritable a) (BooleanWritable b) = Inr (of_bool a - of_bool b)"
| "CompareTo (UTF8 a) (UTF8 b) = Inr (compare_bytes (map byte_of_char a) (map byte_of_char b))"
| "CompareTo (MD5Hash a) (MD5Hash b) = Inr (MD5Hash_CompareTo a b)"
| "CompareTo NullWritable other = Inr 0"
| "CompareTo this other = Inl Undefined"

definition Writable_less :: "Writable \<Rightarrow> Writable \<Rightarrow> bool result" where
  "Writable_less a b = map_sum id (\<lambda>c. c < 0) (CompareTo a b)"

definition Writable_eq :: "Writable \<Rightarrow> Writable \<Rightarrow> bool result" where
  "Writable_eq a b = map_sum id (\<lambda>c. c = 0) (CompareTo a b)"

section \<open>Text forms\<close>

definition IntWritable_ToString :: "int32 \<Rightarrow> string" where
  "IntWritable_ToString v = show_int (sint v)"

definition LongWritable_ToString :: "int64 \<Rightarrow> string" where
  "LongWritable_ToString v = show_int64 v"

definition hex_digit :: "nat \<Rightarrow> char" where
  "hex_digit n = (if n < 10 then digit n else char_of (97 + (n - 10)))"

text \<open>Each byte with \<open>std::hex << std::setw(2) << std::setfill('0')\<close>.\<close>

definition ToHexString :: "byte list \<Rightarrow> string" where
  "ToHexString d = concat (map (\<lambda>b. [hex_digit (unat b div 16), hex_digit (unat b mod 16)]) d)"

section \<open>Round trips\<close>

fun same_class :: "Writable \<Rightarrow> Writable \<Rightarrow> bool" where
  "same_class (IntWritable _) (IntWritable _) = True"
| "same_class (LongWritable _) (LongWritable _) = True"
| "same_class (FloatWritable _) (FloatWritable _) = True"
| "same_class (BooleanWritable _) (BooleanWritable _) = True"
| "same_class (UTF8 _) (UTF8 _) = True"
| "same_class (BytesWritable _) (BytesWritable _) = True"
| "same_class NullWritable NullWritable = True"
| "same_class (MD5Hash _) (MD5Hash _) = True"
| "same_class _ _ = False"

lemma same_class_iff:
  "same_class w (IntWritable v) \<longleftrightarrow> (\<exists>u. w = IntWritable u)"
  "same_class w (LongWritable v2) \<longleftrightarrow> (\<exists>u. w = LongWritable u)"
  "same_class w (FloatWritable v3) \<longleftrightarrow> (\<exists>u. w = FloatWritable u)"
  "same_class w (BooleanWritable v4) \<longleftrightarrow> (\<exists>u. w = BooleanWritable u)"
  "same_class w (UTF8 v5) \<longleftrightarrow> (\<exists>u. w = UTF8 u)"
  "same_class w (BytesWritable v6) \<longleftrightarrow> (\<exists>u. w = BytesWritable u)"
  "same_class w NullWritable \<longleftrightarrow> w = NullWritable"
  "same_class w (MD5Hash v7) \<longleftrightarrow> (\<exists>u. w = MD5Hash u)"
  by (cases w; simp)+

lemma same_class_sym: "same_class a b \<longleftrightarrow> same_class b a"
  by (cases b; cases a) simp_all

lemma same_class_trans: "same_class a b \<Longrightarrow> same_class b c \<Longrightarrow> same_class a c"
  by (cases c) (auto simp: same_class_iff)

fun Writable_ok :: "Writable \<Rightarrow> bool" where
  "Writable_ok (UTF8 s) = (length s < 2 ^ 16)"
| "Writable_ok (BytesWritable v) = (length v < 2 ^ 31)"
| "Writable_ok (MD5Hash d) = (length d = kMD5Len)"
| "Writable_ok _ = True"

fun enc_Writable :: "Writable \<Rightarrow> byte list" where
  "enc_Writable (IntWritable v) = enc_int v"
| "enc_Writable (LongWritable v) = enc_long v"
| "enc_Writable (FloatWritable v) = enc_int v"
| "enc_Writable (BooleanWritable v) = [if v then 1 else 0]"
| "enc_Writable (UTF8 s) = enc_short (word_of_nat (length s)) @ map byte_of_char s"
| "enc_Writable (BytesWritable v) = enc_bytes v"
| "enc_Writable NullWritable = []"
| "enc_Writable (MD5Hash d) = d"

lemma Write_buffer [simp]: "ob_buffer (Write w out) = ob_buffer out @ enc_Writable w"
  by (cases w) (simp_all add: Let_def)

text \<open>What a UTF8 object reads from the bytes of a string: its first \<open>length mod 2^16\<close> characters.\<close>

lemma reads_UTF8_prefix:
  assumes "length s mod 2 ^ 16 = n"
  shows "reads (ReadFields (UTF8 t)) (enc_short (word_of_nat (length s)) @ map byte_of_char (take n s)) (UTF8 (take n s))"
proof -
  have n: "n \<le> length s" using assms by (metis mod_less_eq_dividend)
  have len: "unat (word_of_nat (length s) :: int16) = n"
    using assms by (simp add: unat_of_nat)
  have "reads (bindr (ReadRawBytes n) (\<lambda>bs. returnr (UTF8 (map char_of_byte bs))))
      (map byte_of_char (take n s)) (UTF8 (take n s))"
    using n by (intro reads_bind_return [OF reads_raw]) (simp_all del: map_map)
  then show ?thesis
    unfolding ReadFields.simps
    by (intro reads_bind [OF basic_reads(2)]) (simp only: len)
qed

lemma reads_ReadFields:
  assumes "Writable_ok w" "same_class this w"
  shows "reads (ReadFields this) (enc_Writable w) w"
proof (cases w)
  case (UTF8 s)
  then obtain t where "this = UTF8 t" using assms(2) by (cases this) auto
  then show ?thesis using reads_UTF8_prefix [of s "length s" t] assms(1) UTF8 by simp
next
  case (BooleanWritable v)
  then obtain t where "this = BooleanWritable t" using assms(2) by (cases this) auto
  then show ?thesis using BooleanWritable
    by (simp only: ReadFields.simps enc_Writable.simps) (rule reads_bind_return [OF basic_reads(7) refl])
next
  case (MD5Hash d)
  then obtain t where "this = MD5Hash t" using assms(2) by (cases this) auto
  then show ?thesis
    using MD5Hash assms(1) by (auto intro!: reads_bind_return [OF reads_raw])
qed (use assms in \<open>auto simp: same_class_iff fits_int32_def intro!: reads_bind_return [OF _ refl] codec_intros\<close>)

lemma safe_ReadFields: "safe (ReadFields w)"
proof (cases w)
  case (UTF8 s)
  have "unat (len :: int16) < 2 ^ 63" for len
    using unat_bound [of len] by simp
  then show ?thesis using UTF8 by (auto intro!: safe_intros)
qed (auto intro!: safe_intros simp: kMD5Len_def)

text \<open>C39. Every \<open>Writable\<close> that fits its format (a \<open>UTF8\<close> shorter than 65536 bytes, a byte vector shorter than
  2 GB, a digest of 16 bytes) is read back by \<open>ReadFields\<close> on any object of its class, which consumes
  exactly the bytes that \<open>Write\<close> produced.\<close>

theorem Writable_roundtrip:
  assumes "Writable_ok w" "same_class this w"
    and "length (ob_buffer (Write w OutputBuffer_new) @ rest) < size_max"
  shows "ReadFields this (InputBuffer_new (ob_buffer (Write w OutputBuffer_new) @ rest))
       = Inr (w, \<lparr>ib_data = ob_buffer (Write w OutputBuffer_new) @ rest,
                  ib_pos = length (ob_buffer (Write w OutputBuffer_new))\<rparr>)"
  using reads_InputBuffer_new [OF reads_ReadFields [OF assms(1,2)], of rest] assms(3)
  by (simp add: OutputBuffer_new_def)

theorem Writable_roundtrip_witness:
  "ReadFields (UTF8 '''') (InputBuffer_new (ob_buffer (Write (UTF8 ''ab'') OutputBuffer_new) @ [7]))
   = Inr (UTF8 ''ab'', \<lparr>ib_data = [0, 2, 97, 98, 7], ib_pos = 4\<rparr>)"
  using Writable_roundtrip [of "UTF8 ''ab''" "UTF8 ''''" "[7]"]
  by (simp add: OutputBuffer_new_def byte_eval)

text \<open>The length field of a \<open>UTF8\<close> has 16 bits: reading back a string of any length \<open>n\<close> returns its first
  \<open>n mod 65536\<close> bytes and stops there, so a string of 65536 bytes or more is truncated and its
  remaining bytes stay in the stream as if they were the next value.\<close>

theorem UTF8_long_string_truncated:
  assumes "length s + 2 < size_max"
  shows "ReadFields (UTF8 t) (InputBuffer_new (ob_buffer (Write (UTF8 s) OutputBuffer_new)))
       = Inr (UTF8 (take (length s mod 2 ^ 16) s),
              \<lparr>ib_data = ob_buffer (Write (UTF8 s) OutputBuffer_new), ib_pos = 2 + length s mod 2 ^ 16\<rparr>)"
proof -
  let ?n = "length s mod 2 ^ 16"
  let ?bs = "enc_short (word_of_nat (length s)) @ map byte_of_char (take ?n s)"
  have n: "?n \<le> length s" by (rule mod_less_eq_dividend)
  have split: "ob_buffer (Write (UTF8 s) OutputBuffer_new) = ?bs @ map byte_of_char (drop ?n s)"
    by (simp add: OutputBuffer_new_def flip: map_append del: map_append)
  have "length (?bs @ map byte_of_char (drop ?n s)) < size_max" using assms n by simp
  then show ?thesis
    using reads_InputBuffer_new [OF reads_UTF8_prefix [where s = s and t = t, OF refl]] n
    unfolding split by simp
qed

theorem UTF8_long_string_truncated_witness:
  "ReadFields (UTF8 '''') (InputBuffer_new (ob_buffer (Write (UTF8 (replicate 65537 CHR ''x'')) OutputBuffer_new)))
   = Inr (UTF8 ''x'', \<lparr>ib_data = ob_buffer (Write (UTF8 (replicate 65537 CHR ''x'')) OutputBuffer_new), ib_pos = 3\<rparr>)"
  using UTF8_long_string_truncated [of "replicate 65537 CHR ''x''" "''''"] by simp

section \<open>Total orders\<close>

locale comparable =
  fixes cmp :: "'a \<Rightarrow> 'a \<Rightarrow> int result"
    and ok :: "'a \<Rightarrow> bool"
    and key :: "'a \<Rightarrow> 'b::linorder"
  assumes cmp_sign: "ok x \<Longrightarrow> ok y \<Longrightarrow> \<exists>c. cmp x y = Inr c
      \<and> (c < 0 \<longleftrightarrow> key x < key y) \<and> (c = 0 \<longleftrightarrow> key x = key y)"
begin

lemma defined: "ok x \<Longrightarrow> ok y \<Longrightarrow> cmp x y \<noteq> Inl Undefined"
  using cmp_sign [of x y] by auto

lemma sign_opposite:
  assumes "ok x" "ok y" "cmp x y = Inr c" "cmp y x = Inr d"
  shows "sgn c = - sgn d"
  using cmp_sign [OF assms(1,2)] cmp_sign [OF assms(2,1)] assms(3,4)
  by (cases "key x" "key y" rule: linorder_cases) (auto simp: sgn_if)

lemma transitive:
  assumes "ok x" "ok y" "ok z" "cmp x y = Inr c" "cmp y z = Inr d" "c \<le> 0" "d \<le> 0" "cmp x z = Inr e"
  shows "e \<le> 0"
proof -
  have "key x \<le> key y" using cmp_sign [OF assms(1,2)] assms(4,6) by force
  moreover have "key y \<le> key z" using cmp_sign [OF assms(2,3)] assms(5,7) by force
  ultimately have "key x \<le> key z" by simp
  then show ?thesis using cmp_sign [OF assms(1,3)] assms(8) by (auto simp: le_less)
qed

end

lemma compare_bytes_sign:
  "(compare_bytes xs ys < 0 \<longleftrightarrow> xs < ys) \<and> (compare_bytes xs ys = 0 \<longleftrightarrow> xs = ys)"
  by (auto simp: compare_bytes_def)

interpretation int_order: comparable "\<lambda>a b. CompareTo (IntWritable a) (IntWritable b)"
  "\<lambda>a. - (2 ^ 30) \<le> sint a \<and> sint a < 2 ^ 30" sint
  by unfold_locales (auto simp: Let_def)

interpretation long_order: comparable "\<lambda>a b. CompareTo (LongWritable a) (LongWritable b)" "\<lambda>_. True" sint
  by unfold_locales (auto simp: signed_word_eqI)

interpretation float_order: comparable "\<lambda>a b. CompareTo (FloatWritable a) (FloatWritable b)"
  "\<lambda>a. \<not> is_nan32 a" float_key
  by unfold_locales (auto simp: float_less_def float_eq_def)

interpretation bool_order: comparable "\<lambda>a b. CompareTo (BooleanWritable a) (BooleanWritable b)" "\<lambda>_. True" "\<lambda>b. b"
  by unfold_locales auto

interpretation utf8_order: comparable "\<lambda>a b. CompareTo (UTF8 a) (UTF8 b)" "\<lambda>_. True" "map byte_of_char"
  by unfold_locales (use compare_bytes_sign in auto)

text \<open>\<open>==\<close> agrees with \<open>CompareTo\<close>.\<close>

lemma MD5Hash_equal_iff: "MD5Hash_equal d e \<longleftrightarrow> Writable_eq (MD5Hash d) (MD5Hash e) = Inr True"
  using compare_bytes_sign [of d e] by (simp add: MD5Hash_equal_def Writable_eq_def)

interpretation md5_order: comparable "\<lambda>a b. CompareTo (MD5Hash a) (MD5Hash b)" "\<lambda>_. True" "\<lambda>d. d"
  by unfold_locales (use compare_bytes_sign in auto)

text \<open>The values on which \<open>CompareTo\<close> is defined and a total order.\<close>

fun Writable_ordered :: "Writable \<Rightarrow> bool" where
  "Writable_ordered (IntWritable a) = (- (2 ^ 30) \<le> sint a \<and> sint a < 2 ^ 30)"
| "Writable_ordered (FloatWritable a) = (\<not> is_nan32 a)"
| "Writable_ordered (BytesWritable a) = False"
| "Writable_ordered _ = True"

lemma same_class_left:
  "same_class (IntWritable v) w \<longleftrightarrow> (\<exists>u. w = IntWritable u)"
  "same_class (LongWritable v2) w \<longleftrightarrow> (\<exists>u. w = LongWritable u)"
  "same_class (FloatWritable v3) w \<longleftrightarrow> (\<exists>u. w = FloatWritable u)"
  "same_class (BooleanWritable v4) w \<longleftrightarrow> (\<exists>u. w = BooleanWritable u)"
  "same_class (UTF8 v5) w \<longleftrightarrow> (\<exists>u. w = UTF8 u)"
  "same_class (BytesWritable v6) w \<longleftrightarrow> (\<exists>u. w = BytesWritable u)"
  "same_class NullWritable w \<longleftrightarrow> w = NullWritable"
  "same_class (MD5Hash v7) w \<longleftrightarrow> (\<exists>u. w = MD5Hash u)"
  by (simp_all only: same_class_sym [of _ w] same_class_iff)

lemma CompareTo_defined:
  assumes "same_class a b" "Writable_ordered a" "Writable_ordered b"
  obtains c where "CompareTo a b = Inr c"
  using assms by (cases a) (auto simp: same_class_left Let_def)

lemma CompareTo_opposite:
  assumes "same_class a b" "Writable_ordered a" "Writable_ordered b" "CompareTo a b = Inr c" "CompareTo b a = Inr d"
  shows "sgn c = - sgn d"
  using assms
proof (cases a)
  case (IntWritable x)
  then obtain y where "b = IntWritable y" using assms(1) by (auto simp: same_class_left)
  then show ?thesis using assms IntWritable int_order.sign_opposite [of x y c d] by simp
next
  case (LongWritable x)
  then obtain y where "b = LongWritable y" using assms(1) by (auto simp: same_class_left)
  then show ?thesis using assms LongWritable long_order.sign_opposite [of x y c d] by simp
next
  case (FloatWritable x)
  then obtain y where "b = FloatWritable y" using assms(1) by (auto simp: same_class_left)
  then show ?thesis using assms FloatWritable float_order.sign_opposite [of x y c d] by simp
next
  case (BooleanWritable x)
  then obtain y where "b = BooleanWritable y" using assms(1) by (auto simp: same_class_left)
  then show ?thesis using assms BooleanWritable bool_order.sign_opposite [of x y c d] by simp
next
  case (UTF8 x)
  then obtain y where "b = UTF8 y" using assms(1) by (auto simp: same_class_left)
  then show ?thesis using assms UTF8 utf8_order.sign_opposite [of x y c d] by simp
next
  case (MD5Hash x)
  then obtain y where "b = MD5Hash y" using assms(1) by (auto simp: same_class_left)
  then show ?thesis using assms MD5Hash md5_order.sign_opposite [of x y c d] by simp
qed (auto simp: same_class_left)

lemma CompareTo_transitive:
  assumes "same_class a b" "same_class b c" "Writable_ordered a" "Writable_ordered b" "Writable_ordered c"
    and "CompareTo a b = Inr i" "CompareTo b c = Inr j" "i \<le> 0" "j \<le> 0" "CompareTo a c = Inr k"
  shows "k \<le> 0"
  using assms
proof (cases a)
  case (IntWritable x)
  then obtain y z where "b = IntWritable y" "c = IntWritable z" using assms(1,2) by (auto simp: same_class_left)
  then show ?thesis using assms IntWritable int_order.transitive [where x = x and y = y and z = z and c = i and d = j and e = k] by simp
next
  case (LongWritable x)
  then obtain y z where "b = LongWritable y" "c = LongWritable z" using assms(1,2) by (auto simp: same_class_left)
  then show ?thesis using assms LongWritable long_order.transitive [where x = x and y = y and z = z and c = i and d = j and e = k] by simp
next
  case (FloatWritable x)
  then obtain y z where "b = FloatWritable y" "c = FloatWritable z" using assms(1,2) by (auto simp: same_class_left)
  then show ?thesis using assms FloatWritable float_order.transitive [where x = x and y = y and z = z and c = i and d = j and e = k] by simp
next
  case (BooleanWritable x)
  then obtain y z where "b = BooleanWritable y" "c = BooleanWritable z" using assms(1,2) by (auto simp: same_class_left)
  then show ?thesis using assms BooleanWritable bool_order.transitive [where x = x and y = y and z = z and c = i and d = j and e = k] by simp
next
  case (UTF8 x)
  then obtain y z where "b = UTF8 y" "c = UTF8 z" using assms(1,2) by (auto simp: same_class_left)
  then show ?thesis using assms UTF8 utf8_order.transitive [where x = x and y = y and z = z and c = i and d = j and e = k] by simp
next
  case (MD5Hash x)
  then obtain y z where "b = MD5Hash y" "c = MD5Hash z" using assms(1,2) by (auto simp: same_class_left)
  then show ?thesis using assms MD5Hash md5_order.transitive [where x = x and y = y and z = z and c = i and d = j and e = k] by simp
qed (auto simp: same_class_left)



text \<open>Outside these ranges it is not: the difference of two \<open>int32_t\<close> can overflow, and a NaN is greater
  than everything that is greater than it.\<close>

lemma IntWritable_CompareTo_overflow: "CompareTo (IntWritable 0x80000000) (IntWritable 1) = Inl Undefined"
  by simp

lemma FloatWritable_NaN_not_ordered:
  "is_nan32 a \<Longrightarrow> CompareTo (FloatWritable a) (FloatWritable b) = Inr 1
     \<and> CompareTo (FloatWritable b) (FloatWritable a) = Inr 1"
  by (simp add: float_less_def float_eq_def)

section \<open>Digests\<close>

lemma hex_digit_inj: "m < 16 \<Longrightarrow> n < 16 \<Longrightarrow> hex_digit m = hex_digit n \<Longrightarrow> m = n"
proof -
  assume mn: "m < 16" "n < 16" and eq: "hex_digit m = hex_digit n"
  have "(of_char (hex_digit k) :: nat) = (if k < 10 then 48 + k else 87 + k)" if "k < 16" for k
    using that by (simp add: hex_digit_def)
  then have "(if m < 10 then 48 + m else 87 + m) = (if n < 10 then 48 + n else 87 + n)"
    using mn eq by metis
  then show "m = n" using mn by (simp split: if_splits)
qed

lemma ToHexString_inj: "ToHexString d = ToHexString e \<Longrightarrow> d = e"
proof (induction d arbitrary: e)
  case Nil
  then show ?case by (cases e) (simp_all add: ToHexString_def)
next
  case (Cons b d)
  then obtain c e' where e: "e = c # e'" by (cases e) (simp_all add: ToHexString_def)
  have "unat b div 16 < 16" "unat c div 16 < 16"
    using unat_byte_less [of b] unat_byte_less [of c] by (simp_all add: less_mult_imp_div_less)
  then have "unat b div 16 = unat c div 16" "unat b mod 16 = unat c mod 16"
    using Cons.prems e hex_digit_inj by (simp_all add: ToHexString_def)
  then have "unat b = unat c" by (metis div_mult_mod_eq)
  then have "b = c" by (simp only: unsigned_word_eqI)
  then show ?case using Cons e by (simp add: ToHexString_def)
qed

text \<open>A computed digest survives serialisation, and two digests print the same hexadecimal text only if
  they are equal; the crypto library is only assumed to return 16 bytes.\<close>

lemma MD5Hash_digest:
  assumes "\<And>data. length (md5 data) = 16"
  shows "ReadFields MD5Hash_new (InputBuffer_new (ob_buffer (Write (MD5Hash_Compute md5 x) OutputBuffer_new)))
       = Inr (MD5Hash_Compute md5 x, \<lparr>ib_data = md5 x, ib_pos = 16\<rparr>)
    \<and> (ToHexString (md5 x) = ToHexString (md5 y) \<longleftrightarrow> MD5Hash_Compute md5 x = MD5Hash_Compute md5 y)
    \<and> length (ToHexString (md5 x)) = 32"
proof -
  have "reads (ReadFields MD5Hash_new) (enc_Writable (MD5Hash (md5 x))) (MD5Hash (md5 x))"
    using assms by (intro reads_ReadFields) (simp_all add: kMD5Len_def MD5Hash_new_def)
  then have "ReadFields MD5Hash_new (InputBuffer_new (md5 x @ [])) = Inr (MD5Hash (md5 x), \<lparr>ib_data = md5 x @ [], ib_pos = 16\<rparr>)"
    using reads_InputBuffer_new [of "ReadFields MD5Hash_new" "md5 x" "MD5Hash (md5 x)" "[]"] assms by simp
  moreover have "length (ToHexString d) = 2 * length d" for d
    by (induction d) (simp_all add: ToHexString_def)
  ultimately show ?thesis
    using ToHexString_inj assms by (auto simp: MD5Hash_Compute_def OutputBuffer_new_def)
qed

end
