(* ===== verification/Rpc.thy ===== *)
theory Rpc
  imports Writables
begin

text \<open>
  Model of \<^verbatim>\<open>src/ipc/client.h\<close> and \<^verbatim>\<open>src/ipc/server.h\<close>: framed calls over a stream socket, the dispatch
  loop of the server, and the queue between the acceptor and the worker threads.

  A connection as one end sees it (\<open>conn\<close>) has the bytes that will arrive, cut into the segments in
  which \<open>recv\<close> delivers them, the bytes sent so far, and the number of bytes that each of the next calls
  of \<open>send\<close> accepts (after these, a call accepts all). An empty segment stands for a failing \<open>recv\<close>, no
  segment for the end of the stream, and an accepted number of 0 for a failing \<open>send\<close>. A handler is a state transformer that reads the request,
  extends the response and may raise; the table of handlers is a map from method numbers. An exception
  of a handler leaves the worker thread, which ends the process: \<open>HandleConnection\<close> then returns it.
\<close>

section \<open>Sockets\<close>

record conn =
  cn_in :: "byte list list"
  cn_room :: "nat list"
  cn_out :: "byte list"

fun recv :: "nat \<Rightarrow> byte list list \<Rightarrow> byte list \<times> byte list list" where
  "recv n [] = ([], [])"
| "recv n (seg # segs) =
     (if length seg \<le> n then (seg, segs) else (take n seg, drop n seg # segs))"

fun send :: "nat \<Rightarrow> nat list \<Rightarrow> nat \<times> nat list" where
  "send n [] = (n, [])"
| "send n (k # ks) = (min n k, ks)"

text \<open>The loop of \<open>ReadFull\<close>, with \<open>n = len - total\<close> bytes to go; it returns whether all arrived, and what did.\<close>

function ReadFull_loop :: "nat \<Rightarrow> byte list \<Rightarrow> byte list list \<Rightarrow> (bool \<times> byte list) \<times> byte list list" where
  "ReadFull_loop n got segs =
     (if n = 0 then ((True, got), segs)
      else case recv n segs of
        (bs, segs') \<Rightarrow> if bs = [] then ((False, got), segs')
                       else ReadFull_loop (n - length bs) (got @ bs) segs')"
  by auto
termination
  by (relation "measure (\<lambda>(n, got, segs). n)") (auto simp: length_greater_0_conv [symmetric] simp del: length_greater_0_conv)

declare ReadFull_loop.simps [simp del]

definition ReadFull :: "nat \<Rightarrow> conn \<Rightarrow> (bool \<times> byte list) \<times> conn" where
  "ReadFull n c = (case ReadFull_loop n [] (cn_in c) of (r, segs) \<Rightarrow> (r, c\<lparr>cn_in := segs\<rparr>))"

function WriteFull_loop :: "byte list \<Rightarrow> nat list \<Rightarrow> byte list \<Rightarrow> (bool \<times> nat list) \<times> byte list" where
  "WriteFull_loop bs room out =
     (if bs = [] then ((True, room), out)
      else case send (length bs) room of
        (k, room') \<Rightarrow> if k = 0 then ((False, room'), out)
                       else WriteFull_loop (drop k bs) room' (out @ take k bs))"
  by auto
termination
  by (relation "measure (\<lambda>(bs, room, out). length bs)") (auto simp: length_greater_0_conv [symmetric] simp del: length_greater_0_conv)

declare WriteFull_loop.simps [simp del]

definition WriteFull :: "byte list \<Rightarrow> conn \<Rightarrow> bool \<times> conn" where
  "WriteFull bs c = (case WriteFull_loop bs (cn_room c) (cn_out c) of
     ((ok, room), out) \<Rightarrow> (ok, c\<lparr>cn_room := room, cn_out := out\<rparr>))"

section \<open>Client\<close>

definition CallRaw :: "int32 \<Rightarrow> byte list \<Rightarrow> byte list \<Rightarrow> conn \<Rightarrow> (Status \<times> byte list) \<times> conn" where
  "CallRaw method_id req_data resp_data c =
     (let frame = WriteRawBytes req_data (WriteInt method_id OutputBuffer_new);
          outer = WriteRawBytes (OutputBuffer_Data frame)
                    (WriteInt (word_of_nat (OutputBuffer_Size frame)) OutputBuffer_new);
          (sent, c1) = WriteFull (OutputBuffer_Data outer) c
      in if \<not> sent then ((Status_IOError ''send failed'', resp_data), c1)
         else
           let ((ok, raw_len), c2) = ReadFull 4 c1
           in if \<not> ok then ((Status_IOError ''recv failed'', resp_data), c2)
              else
                let resp_len = unat (ntohl_on host (of_mem host raw_len));
                    ((ok, got), c3) = ReadFull resp_len c2;
                    resp = fill resp_len got resp_data
                in if \<not> ok then ((Status_IOError ''recv failed'', resp), c3)
                   else ((Status_OK, resp), c3))"

text \<open>\<open>Call\<close> reads the response into an object, which may raise.\<close>

definition Call :: "int32 \<Rightarrow> Writable \<Rightarrow> Writable \<Rightarrow> conn \<Rightarrow> ((Status \<times> Writable) \<times> conn) result" where
  "Call method_id request response c =
     (let req_buf = Write request (WriteInt method_id OutputBuffer_new);
          frame = WriteRawBytes (OutputBuffer_Data req_buf)
                    (WriteInt (word_of_nat (OutputBuffer_Size req_buf)) OutputBuffer_new);
          (sent, c1) = WriteFull (OutputBuffer_Data frame) c
      in if \<not> sent then Inr ((Status_IOError ''send failed'', response), c1)
         else
           let ((ok, raw_len), c2) = ReadFull 4 c1
           in if \<not> ok then Inr ((Status_IOError ''recv failed'', response), c2)
              else
                let resp_len = unat (ntohl_on host (of_mem host raw_len));
                    ((ok, resp_data), c3) = ReadFull resp_len c2
                in if \<not> ok then Inr ((Status_IOError ''recv failed'', response), c3)
                   else case ReadFields response (InputBuffer_new resp_data) of
                          Inl e \<Rightarrow> Inl e
                        | Inr (response', _) \<Rightarrow> Inr ((Status_OK, response'), c3))"

text \<open>The descriptor of the client. \<open>socket\<close> returns \<open>fd\<close>, \<open>connects\<close> says whether \<open>connect\<close> succeeds, and
  \<open>rc_closed\<close> logs the calls of \<open>close\<close>.\<close>

record RpcClient =
  rc_fd :: int
  rc_closed :: "int list"

definition RpcClient_new :: RpcClient where
  "RpcClient_new = \<lparr>rc_fd = -1, rc_closed = []\<rparr>"

definition Connect :: "int \<Rightarrow> bool \<Rightarrow> RpcClient \<Rightarrow> bool \<times> RpcClient" where
  "Connect fd connects rc =
     (let rc1 = rc\<lparr>rc_fd := fd\<rparr>
      in if fd < 0 then (False, rc1)
         else if \<not> connects then (False, rc1\<lparr>rc_fd := -1, rc_closed := rc_closed rc1 @ [fd]\<rparr>)
         else (True, rc1))"

definition Disconnect :: "RpcClient \<Rightarrow> RpcClient" where
  "Disconnect rc =
     (if rc_fd rc \<ge> 0 then rc\<lparr>rc_fd := -1, rc_closed := rc_closed rc @ [rc_fd rc]\<rparr> else rc)"

definition IsConnected :: "RpcClient \<Rightarrow> bool" where
  "IsConnected rc = (rc_fd rc \<ge> 0)"

section \<open>Server: one connection\<close>

type_synonym 's handler = "InputBuffer \<Rightarrow> OutputBuffer \<Rightarrow> 's \<Rightarrow> (OutputBuffer \<times> 's) result"
type_synonym 's handlers = "(int32, 's handler) umap"

definition RegisterHandler :: "int32 \<Rightarrow> 's handler \<Rightarrow> 's handlers \<Rightarrow> 's handlers" where
  "RegisterHandler method_id h hs = um_put method_id h hs"

text \<open>From the request message to the response: the method number, the lookup, the call.\<close>

definition dispatch :: "'s handlers \<Rightarrow> byte list \<Rightarrow> 's \<Rightarrow> (OutputBuffer \<times> 's) result" where
  "dispatch hs msg s =
     (case ReadInt (InputBuffer_new msg) of
        Inl e \<Rightarrow> Inl e
      | Inr (method_id, req) \<Rightarrow>
          (case um_get hs method_id of
             Some h \<Rightarrow> h req OutputBuffer_new s
           | None \<Rightarrow> Inr (WriteString ''unknown method'' (WriteInt (-1) OutputBuffer_new), s)))"

definition max_message :: nat where
  "max_message = 64 * 1024 * 1024"

text \<open>The loop of \<open>HandleConnection\<close>; the first argument is the number of times that the test of \<open>running_\<close>
  succeeds. It ends with \<open>close(fd)\<close>.\<close>

primrec HandleConnection :: "nat \<Rightarrow> 's handlers \<Rightarrow> conn \<Rightarrow> 's \<Rightarrow> (conn \<times> 's) result" where
  "HandleConnection 0 hs c s = Inr (c, s)"
| "HandleConnection (Suc running) hs c s =
     (let ((ok, raw_len), c1) = ReadFull 4 c
      in if \<not> ok then Inr (c1, s)
         else
           let total_len = unat (ntohl_on host (of_mem host raw_len))
           in if total_len < 4 \<or> total_len > max_message then Inr (c1, s)
              else
                let ((ok, msg), c2) = ReadFull total_len c1
                in if \<not> ok then Inr (c2, s)
                   else case dispatch hs msg s of
                     Inl e \<Rightarrow> Inl e
                   | Inr (resp, s') \<Rightarrow>
                       let frame = WriteRawBytes (OutputBuffer_Data resp)
                                     (WriteInt (word_of_nat (OutputBuffer_Size resp)) OutputBuffer_new);
                           (sent, c3) = WriteFull (OutputBuffer_Data frame) c2
                       in if \<not> sent then Inr (c3, s')
                          else HandleConnection running hs c3 s')"

section \<open>Full reads and writes\<close>

text \<open>A stream that does not fail delivers the same bytes however they are cut into segments.\<close>

definition intact :: "byte list list \<Rightarrow> bool" where
  "intact segs \<longleftrightarrow> [] \<notin> set segs"

lemma recv_intact:
  assumes "intact segs" "0 < n" "recv n segs = (bs, segs')"
  shows "intact segs' \<and> concat segs = bs @ concat segs' \<and> length bs \<le> n
    \<and> (bs = [] \<longleftrightarrow> concat segs = [])"
  using assms by (cases segs) (auto simp: intact_def split: if_splits)

lemma ReadFull_loop_intact:
  "intact segs \<Longrightarrow> n \<le> length (concat segs) \<Longrightarrow>
   \<exists>segs'. ReadFull_loop n got segs = ((True, got @ take n (concat segs)), segs')
     \<and> intact segs' \<and> concat segs' = drop n (concat segs)"
proof (induction n got segs rule: ReadFull_loop.induct)
  case (1 n got segs)
  show ?case
  proof (cases "n = 0")
    case False
    obtain bs segs' where r: "recv n segs = (bs, segs')" by fastforce
    have "concat segs \<noteq> []" using False "1.prems"(2) by (metis le_zero_eq list.size(3))
    then have i: "intact segs'" "concat segs = bs @ concat segs'" "length bs \<le> n" "bs \<noteq> []"
      using recv_intact [OF "1.prems"(1) _ r] False by blast+
    have "\<exists>segs''. ReadFull_loop (n - length bs) (got @ bs) segs'
        = ((True, (got @ bs) @ take (n - length bs) (concat segs')), segs'')
        \<and> intact segs'' \<and> concat segs'' = drop (n - length bs) (concat segs')"
      by (rule "1.IH" [OF False r [symmetric] i(4) i(1)]) (use "1.prems"(2) i in simp)
    then show ?thesis
      using r i False by (subst ReadFull_loop.simps) auto
  qed (use "1.prems" in \<open>subst ReadFull_loop.simps, simp\<close>)
qed

lemma ReadFull_loop_short:
  "intact segs \<Longrightarrow> length (concat segs) < n \<Longrightarrow>
   \<exists>segs'. ReadFull_loop n got segs = ((False, got @ concat segs), segs')"
proof (induction n got segs rule: ReadFull_loop.induct)
  case (1 n got segs)
  obtain bs segs' where r: "recv n segs = (bs, segs')" by fastforce
  have n: "n \<noteq> 0" using "1.prems" by simp
  have i: "intact segs'" "concat segs = bs @ concat segs'" "bs = [] \<longleftrightarrow> concat segs = []"
    using recv_intact [OF "1.prems"(1) _ r] n by blast+
  show ?case
  proof (cases "bs = []")
    case True
    then have "concat segs = []" using i(3) by simp
    then have "got @ concat segs = got" by (simp only: append_Nil2)
    then show ?thesis using r n True by (subst ReadFull_loop.simps) (simp del: concat_eq_Nil_conv)
  next
    case False
    have "\<exists>segs''. ReadFull_loop (n - length bs) (got @ bs) segs' = ((False, (got @ bs) @ concat segs'), segs'')"
      by (rule "1.IH" [OF n r [symmetric] False i(1)]) (use "1.prems"(2) i in simp)
    then show ?thesis using r n i False by (subst ReadFull_loop.simps) auto
  qed
qed

lemma ReadFull_ok:
  assumes "intact (cn_in c)" "concat (cn_in c) = bs @ rest" "length bs = n"
  obtains segs where "ReadFull n c = ((True, bs), c\<lparr>cn_in := segs\<rparr>)" "intact segs" "concat segs = rest"
  using ReadFull_loop_intact [OF assms(1), of n "[]"] assms(2,3) that by (auto simp: ReadFull_def)

lemma ReadFull_fail:
  assumes "intact (cn_in c)" "length (concat (cn_in c)) < n"
  obtains segs where "ReadFull n c = ((False, concat (cn_in c)), c\<lparr>cn_in := segs\<rparr>)"
  using ReadFull_loop_short [OF assms, of "[]"] that by (auto simp: ReadFull_def)

text \<open>No call of \<open>send\<close> fails.\<close>

definition steady :: "nat list \<Rightarrow> bool" where
  "steady room \<longleftrightarrow> 0 \<notin> set room"

lemma send_steady:
  "steady room \<Longrightarrow> 0 < n \<Longrightarrow> send n room = (k, room') \<Longrightarrow> steady room' \<and> 0 < k \<and> k \<le> n"
  by (cases room) (auto simp: steady_def)

lemma WriteFull_loop_steady:
  "steady room \<Longrightarrow> \<exists>room'. WriteFull_loop bs room out = ((True, room'), out @ bs) \<and> steady room'"
proof (induction bs room out rule: WriteFull_loop.induct)
  case (1 bs room out)
  show ?case
  proof (cases "bs = []")
    case False
    obtain k room' where s: "send (length bs) room = (k, room')" by fastforce
    have k: "steady room'" "k \<noteq> 0" using send_steady [OF "1.prems" _ s] False by auto
    from "1.IH" [OF False s [symmetric] k(2) k(1)] show ?thesis
      using s False k(2) by (subst WriteFull_loop.simps) auto
  qed (use "1.prems" in \<open>subst WriteFull_loop.simps, simp\<close>)
qed

lemma WriteFull_ok:
  assumes "steady (cn_room c)"
  obtains room where "WriteFull bs c = (True, c\<lparr>cn_room := room, cn_out := cn_out c @ bs\<rparr>)" "steady room"
  using WriteFull_loop_steady [OF assms, of bs "cn_out c"] that by (auto simp: WriteFull_def)

section \<open>Frames\<close>

definition frame :: "byte list \<Rightarrow> byte list" where
  "frame bs = enc_int (word_of_nat (length bs)) @ bs"

definition request_message :: "int32 \<Rightarrow> byte list \<Rightarrow> byte list" where
  "request_message method_id req = enc_int method_id @ req"

lemma read_length:
  assumes "intact (cn_in c)" "concat (cn_in c) = frame bs @ rest" "length bs < 2 ^ 32"
  obtains segs raw where "ReadFull 4 c = ((True, raw), c\<lparr>cn_in := segs\<rparr>)"
    "intact segs" "concat segs = bs @ rest" "unat (ntohl_on host (of_mem host raw)) = length bs"
proof -
  let ?raw = "enc_int (word_of_nat (length bs))"
  obtain segs where "ReadFull 4 c = ((True, ?raw), c\<lparr>cn_in := segs\<rparr>)" "intact segs" "concat segs = bs @ rest"
    by (rule ReadFull_ok [of c ?raw "bs @ rest" 4]) (use assms in \<open>simp_all add: frame_def\<close>)
  moreover have "unat (ntohl_on host (of_mem host ?raw)) = length bs"
    using assms(3) by (simp add: htonl_of_mem unat_of_nat)
  ultimately show thesis using that by blast
qed

lemma read_frame:
  assumes "intact (cn_in c)" "concat (cn_in c) = frame bs @ rest" "length bs < 2 ^ 32"
  obtains raw segs segs' where "ReadFull 4 c = ((True, raw), c\<lparr>cn_in := segs\<rparr>)"
    "unat (ntohl_on host (of_mem host raw)) = length bs"
    "ReadFull (length bs) (c\<lparr>cn_in := segs\<rparr>) = ((True, bs), c\<lparr>cn_in := segs'\<rparr>)"
    "intact segs'" "concat segs' = rest"
proof -
  obtain segs raw where 1: "ReadFull 4 c = ((True, raw), c\<lparr>cn_in := segs\<rparr>)"
    "intact segs" "concat segs = bs @ rest" "unat (ntohl_on host (of_mem host raw)) = length bs"
    using assms by (rule read_length)
  obtain segs' where "ReadFull (length bs) (c\<lparr>cn_in := segs\<rparr>) = ((True, bs), c\<lparr>cn_in := segs'\<rparr>)"
    "intact segs'" "concat segs' = rest"
    by (rule ReadFull_ok [of "c\<lparr>cn_in := segs\<rparr>" bs rest "length bs"]) (use 1 in simp_all)
  with 1 show thesis using that by blast
qed

section \<open>Calls\<close>

lemma CallRaw_reply:
  assumes "steady (cn_room c)" "intact (cn_in c)" "concat (cn_in c) = frame resp @ rest" "length resp < 2 ^ 32"
  shows "\<exists>c'. CallRaw method_id req old c = ((Status_OK, resp), c')
    \<and> cn_out c' = cn_out c @ frame (request_message method_id req)
    \<and> steady (cn_room c') \<and> intact (cn_in c') \<and> concat (cn_in c') = rest"
proof -
  let ?f = "frame (request_message method_id req)"
  obtain room where w: "WriteFull ?f c = (True, c\<lparr>cn_room := room, cn_out := cn_out c @ ?f\<rparr>)" "steady room"
    using assms(1) by (rule WriteFull_ok)
  let ?c1 = "c\<lparr>cn_room := room, cn_out := cn_out c @ ?f\<rparr>"
  obtain raw segs segs' where r: "ReadFull 4 ?c1 = ((True, raw), ?c1\<lparr>cn_in := segs\<rparr>)"
    "unat (ntohl_on host (of_mem host raw)) = length resp"
    "ReadFull (length resp) (?c1\<lparr>cn_in := segs\<rparr>) = ((True, resp), ?c1\<lparr>cn_in := segs'\<rparr>)"
    "intact segs'" "concat segs' = rest"
    by (rule read_frame [of ?c1 resp rest]) (use assms in simp_all)
  have outer: "OutputBuffer_Data (WriteRawBytes (OutputBuffer_Data (WriteRawBytes req (WriteInt method_id OutputBuffer_new)))
      (WriteInt (word_of_nat (OutputBuffer_Size (WriteRawBytes req (WriteInt method_id OutputBuffer_new)))) OutputBuffer_new)) = ?f"
    by (simp add: OutputBuffer_Data_def OutputBuffer_Size_def OutputBuffer_new_def frame_def request_message_def)
  have "CallRaw method_id req old c = ((Status_OK, resp), ?c1\<lparr>cn_in := segs'\<rparr>)"
    unfolding CallRaw_def Let_def outer using w r by simp
  then show ?thesis using w r by simp
qed

text \<open>What one request does on the server.\<close>

lemma dispatch_request:
  assumes "length req + 4 < size_max"
  shows "dispatch hs (request_message method_id req) s =
    (case um_get hs method_id of
       Some h \<Rightarrow> h \<lparr>ib_data = request_message method_id req, ib_pos = 4\<rparr> OutputBuffer_new s
     | None \<Rightarrow> Inr (WriteString ''unknown method'' (WriteInt (-1) OutputBuffer_new), s))"
  using reads_InputBuffer_new [OF basic_reads(1), of method_id req] assms
  by (simp add: dispatch_def request_message_def split: option.split)

text \<open>Read the request with \<open>R\<close>, then run \<open>f\<close> on what was read.\<close>

definition handle :: "'a reader \<Rightarrow> ('a \<Rightarrow> OutputBuffer \<Rightarrow> 's \<Rightarrow> OutputBuffer \<times> 's) \<Rightarrow> 's handler" where
  "handle R f req resp s = (case R req of Inl e \<Rightarrow> Inl e | Inr (x, _) \<Rightarrow> Inr (f x resp s))"

lemma handle_reads:
  assumes "reads R bs x" "length bs + 4 < size_max"
  shows "handle R f \<lparr>ib_data = request_message m bs, ib_pos = 4\<rparr> resp s = Inr (f x resp s)"
  using readsD [OF assms(1), of "enc_int m" "[]"] assms(2)
  by (simp add: handle_def request_message_def add.commute)

text \<open>The server's answers to a sequence of messages: the responses, framed, and the final state.\<close>

fun serve :: "'s handlers \<Rightarrow> byte list list \<Rightarrow> 's \<Rightarrow> (byte list \<times> 's) result" where
  "serve hs [] s = Inr ([], s)"
| "serve hs (m # ms) s =
     (case dispatch hs m s of
        Inl e \<Rightarrow> Inl e
      | Inr (resp, s') \<Rightarrow>
          (case serve hs ms s' of
             Inl e \<Rightarrow> Inl e
           | Inr (out, s'') \<Rightarrow> Inr (frame (ob_buffer resp) @ out, s'')))"

definition message_ok :: "byte list \<Rightarrow> bool" where
  "message_ok m \<longleftrightarrow> 4 \<le> length m \<and> length m \<le> max_message"

lemma HandleConnection_message:
  assumes "steady (cn_room c)" "intact (cn_in c)" "concat (cn_in c) = frame m @ rest" "message_ok m"
    and "dispatch hs m s = Inr (resp, s')"
  obtains c' where "HandleConnection (Suc running) hs c s = HandleConnection running hs c' s'"
    "steady (cn_room c')" "intact (cn_in c')" "concat (cn_in c') = rest"
    "cn_out c' = cn_out c @ frame (ob_buffer resp)"
proof -
  have len: "length m < 2 ^ 32" "4 \<le> length m" "length m \<le> max_message"
    using assms(4) by (simp_all add: message_ok_def max_message_def)
  obtain raw segs segs' where r: "ReadFull 4 c = ((True, raw), c\<lparr>cn_in := segs\<rparr>)"
    "unat (ntohl_on host (of_mem host raw)) = length m"
    "ReadFull (length m) (c\<lparr>cn_in := segs\<rparr>) = ((True, m), c\<lparr>cn_in := segs'\<rparr>)"
    "intact segs'" "concat segs' = rest"
    using assms(2,3) len(1) by (rule read_frame)
  let ?c2 = "c\<lparr>cn_in := segs'\<rparr>" and ?f = "frame (ob_buffer resp)"
  obtain room where w: "WriteFull ?f ?c2 = (True, ?c2\<lparr>cn_room := room, cn_out := cn_out ?c2 @ ?f\<rparr>)" "steady room"
    by (rule WriteFull_ok [of ?c2 ?f]) (use assms(1) in simp)
  have f: "OutputBuffer_Data (WriteRawBytes (OutputBuffer_Data resp)
      (WriteInt (word_of_nat (OutputBuffer_Size resp)) OutputBuffer_new)) = ?f"
    by (simp add: OutputBuffer_Data_def OutputBuffer_Size_def OutputBuffer_new_def frame_def)
  let ?c3 = "?c2\<lparr>cn_room := room, cn_out := cn_out ?c2 @ ?f\<rparr>"
  have "HandleConnection (Suc running) hs c s = HandleConnection running hs ?c3 s'"
    using r(1-3) len assms(5) w(1) by (simp add: f Let_def)
  then show thesis using that [of ?c3] w(2) r(4,5) by simp
qed

lemma HandleConnection_eof:
  assumes "intact (cn_in c)" "concat (cn_in c) = []"
  obtains c' where "HandleConnection (Suc running) hs c s = Inr (c', s)" "cn_out c' = cn_out c"
proof -
  obtain segs where "ReadFull 4 c = ((False, concat (cn_in c)), c\<lparr>cn_in := segs\<rparr>)"
    by (rule ReadFull_fail [OF assms(1), of 4]) (simp_all only: assms(2) list.size zero_less_numeral)
  then show thesis using that [of "c\<lparr>cn_in := segs\<rparr>"] by simp
qed

declare HandleConnection.simps [simp del]

lemma HandleConnection_serves:
  assumes "steady (cn_room c)" "intact (cn_in c)" "concat (cn_in c) = concat (map frame ms)"
    and "list_all message_ok ms" "serve hs ms s = Inr (out, s')" "length ms < running"
  shows "\<exists>c'. HandleConnection running hs c s = Inr (c', s') \<and> cn_out c' = cn_out c @ out"
  using assms
proof (induction ms arbitrary: c s out running)
  case Nil
  then obtain k where "running = Suc k" by (cases running) auto
  moreover obtain c' where "HandleConnection (Suc k) hs c s = Inr (c', s)" "cn_out c' = cn_out c"
    by (rule HandleConnection_eof [of c k hs s]) (use Nil.prems in simp_all)
  ultimately show ?case using Nil.prems by simp
next
  case (Cons m ms)
  then obtain k where k: "running = Suc k" "length ms < k" by (cases running) auto
  obtain resp s1 out1 where d: "dispatch hs m s = Inr (resp, s1)" "serve hs ms s1 = Inr (out1, s')"
    "out = frame (ob_buffer resp) @ out1"
    using Cons.prems(5) by (auto split: sum.splits)
  obtain c1 where c1: "HandleConnection (Suc k) hs c s = HandleConnection k hs c1 s1"
    "steady (cn_room c1)" "intact (cn_in c1)" "concat (cn_in c1) = concat (map frame ms)"
    "cn_out c1 = cn_out c @ frame (ob_buffer resp)"
    by (rule HandleConnection_message [of c m "concat (map frame ms)" hs s resp s1 k])
      (use Cons.prems d in simp_all)
  show ?case
    using Cons.IH [OF c1(2-4) _ d(2) k(2)] Cons.prems(4) c1 k d(3) by auto
qed

section \<open>Properties of calls\<close>

text \<open>C10. A remote call delivers: if the server has a handler for the method and the handler returns, then
  whatever way the network cuts the request and the response into segments and however few bytes each
  \<open>send\<close> accepts, the server runs the handler once on exactly the bytes of the request, and \<open>CallRaw\<close> returns
  OK with exactly the bytes of the response.\<close>

theorem rpc_call_delivers:
  assumes "steady (cn_room srv)" "intact (cn_in srv)" "steady (cn_room cl)" "intact (cn_in cl)"
    and "length req + 4 \<le> max_message" "um_get hs method_id = Some h" "1 < running"
    and "h \<lparr>ib_data = request_message method_id req, ib_pos = 4\<rparr> OutputBuffer_new s = Inr (resp, s')"
    and "length (ob_buffer resp) < 2 ^ 32"
    and "cn_out cl = []" "concat (cn_in srv) = cn_out (snd (CallRaw method_id req old cl))"
    and "cn_out srv = []" "concat (cn_in cl) = frame (ob_buffer resp)"
  shows "\<exists>srv' cl'. HandleConnection running hs srv s = Inr (srv', s')
    \<and> cn_out srv' = concat (cn_in cl)
    \<and> CallRaw method_id req old cl = ((Status_OK, ob_buffer resp), cl')"
proof -
  obtain cl' where cl': "CallRaw method_id req old cl = ((Status_OK, ob_buffer resp), cl')"
    "cn_out cl' = frame (request_message method_id req)"
    using CallRaw_reply [OF assms(3,4), of "ob_buffer resp" "[]" method_id req old] assms(9,10,13) by auto
  have "dispatch hs (request_message method_id req) s = Inr (resp, s')"
    using dispatch_request [of req hs method_id s] assms(5,6,8) by (simp add: max_message_def)
  then have serve: "serve hs [request_message method_id req] s = Inr (frame (ob_buffer resp), s')" by simp
  have ok: "list_all message_ok [request_message method_id req]"
    using assms(5) by (simp add: message_ok_def request_message_def)
  have "concat (cn_in srv) = concat (map frame [request_message method_id req])"
    using assms(11) cl' by simp
  then obtain srv' where "HandleConnection running hs srv s = Inr (srv', s')"
    "cn_out srv' = cn_out srv @ frame (ob_buffer resp)"
    using HandleConnection_serves [OF assms(1,2) _ ok serve, of running] assms(7) by auto
  then show ?thesis using cl' assms(12,13) by simp
qed

text \<open>An echo handler and both ends of a connection, for the witnesses.\<close>

definition echo :: "unit handler" where
  "echo req resp s = Inr (WriteRawBytes (drop (ib_pos req) (ib_data req)) resp, s)"

theorem rpc_call_delivers_witness:
  "\<exists>srv' cl'. HandleConnection 2 [(7, echo)]
       \<lparr>cn_in = [[0, 0, 0], [5, 0, 0, 0, 7], [9]], cn_room = [2], cn_out = []\<rparr> () = Inr (srv', ())
    \<and> CallRaw 7 [9] [] \<lparr>cn_in = [[0, 0, 0, 1, 9]], cn_room = [1, 1], cn_out = []\<rparr> = ((Status_OK, [9]), cl')"
proof -
  let ?srv = "\<lparr>cn_in = [[0, 0, 0], [5, 0, 0, 0, 7], [9]], cn_room = [2], cn_out = []\<rparr> :: conn"
  let ?cl = "\<lparr>cn_in = [[0, 0, 0, 1, 9]], cn_room = [1, 1], cn_out = []\<rparr> :: conn"
  have e: "echo \<lparr>ib_data = request_message 7 [9], ib_pos = 4\<rparr> OutputBuffer_new () = Inr (\<lparr>ob_buffer = [9]\<rparr>, ())"
    by (simp add: echo_def request_message_def OutputBuffer_new_def WriteRawBytes_def)
  have f: "frame [9] = [0, 0, 0, 1, 9]" "frame (request_message 7 [9]) = [0, 0, 0, 5, 0, 0, 0, 7, 9]"
    by (simp_all add: frame_def request_message_def mem_of_def nat_bytes_numeral)
  have "cn_out (snd (CallRaw 7 [9] [] ?cl)) = frame (request_message 7 [9])"
    using CallRaw_reply [of ?cl "[9]" "[]" 7 "[9]" "[]"] f(1) by (auto simp: steady_def intact_def)
  then show ?thesis
    using rpc_call_delivers [of ?srv ?cl "[9]" "[(7, echo)]" 7 echo 2 "()" "\<lparr>ob_buffer = [9]\<rparr>" "()" "[]"] e f
    by (auto simp: steady_def intact_def max_message_def um_get_def)
qed

text \<open>C35. The server survives bad frames: a length field below 4 or above 64 MB, or a stream that ends inside a
  message, closes the connection with no handler run, nothing sent and the state unchanged; a method
  number without a handler is answered with -1 and the text "unknown method".\<close>

theorem rpc_bad_requests:
  assumes "intact (cn_in c)" "steady (cn_room c)"
  shows "(concat (cn_in c) = enc_int n @ rest \<and> (unat n < 4 \<or> unat n > max_message \<or> length rest < unat n) \<longrightarrow>
       (\<exists>c'. HandleConnection (Suc running) hs c s = Inr (c', s) \<and> cn_out c' = cn_out c))
    \<and> (concat (cn_in c) = frame (request_message method_id req) \<and> um_get hs method_id = None
         \<and> length req + 4 \<le> max_message \<longrightarrow>
       (\<exists>c'. HandleConnection (Suc (Suc running)) hs c s = Inr (c', s)
          \<and> cn_out c' = cn_out c @ frame (enc_int (-1) @ enc_string ''unknown method'')))"
proof (intro conjI impI)
  assume a: "concat (cn_in c) = enc_int n @ rest \<and> (unat n < 4 \<or> unat n > max_message \<or> length rest < unat n)"
  obtain segs where r: "ReadFull 4 c = ((True, enc_int n), c\<lparr>cn_in := segs\<rparr>)" "intact segs" "concat segs = rest"
    by (rule ReadFull_ok [OF assms(1), of "enc_int n" rest 4]) (use a in simp_all)
  have n: "unat (ntohl_on host (of_mem host (enc_int n))) = unat n" by (simp add: htonl_of_mem)
  show "\<exists>c'. HandleConnection (Suc running) hs c s = Inr (c', s) \<and> cn_out c' = cn_out c"
  proof (cases "unat n < 4 \<or> unat n > max_message")
    case True
    then show ?thesis using r(1) n by (auto simp: HandleConnection.simps)
  next
    case False
    obtain segs' where "ReadFull (unat n) (c\<lparr>cn_in := segs\<rparr>) = ((False, rest), c\<lparr>cn_in := segs'\<rparr>)"
      by (rule ReadFull_fail [of "c\<lparr>cn_in := segs\<rparr>" "unat n"]) (use a False r in auto)
    then show ?thesis using False r(1) n by (auto simp: HandleConnection.simps Let_def)
  qed
next
  assume a: "concat (cn_in c) = frame (request_message method_id req) \<and> um_get hs method_id = None
         \<and> length req + 4 \<le> max_message"
  let ?resp = "WriteString ''unknown method'' (WriteInt (-1) OutputBuffer_new)"
  have "dispatch hs (request_message method_id req) s = Inr (?resp, s)"
    using dispatch_request [of req hs method_id s] a by (simp add: max_message_def)
  then have "serve hs [request_message method_id req] s = Inr (frame (ob_buffer ?resp), s)" by simp
  moreover have "list_all message_ok [request_message method_id req]"
    using a by (simp add: message_ok_def request_message_def)
  ultimately show "\<exists>c'. HandleConnection (Suc (Suc running)) hs c s = Inr (c', s)
          \<and> cn_out c' = cn_out c @ frame (enc_int (-1) @ enc_string ''unknown method'')"
    using HandleConnection_serves [OF assms(2,1), of "[request_message method_id req]" hs s _ s "Suc (Suc running)"] a
    by (auto simp: OutputBuffer_new_def)
qed

theorem rpc_bad_requests_witness:
  "\<exists>c'. HandleConnection (Suc 0) [(7, echo)] \<lparr>cn_in = [[0, 0, 0, 3], [1, 2, 3]], cn_room = [], cn_out = []\<rparr> ()
     = Inr (c', ()) \<and> cn_out c' = []"
  using rpc_bad_requests [of "\<lparr>cn_in = [[0, 0, 0, 3], [1, 2, 3]], cn_room = [], cn_out = []\<rparr>" 3 "[1, 2, 3]" 0
      "[(7, echo)]" "()" 7 "[]"]
  by (simp add: intact_def steady_def mem_of_def nat_bytes_numeral)

text \<open>An exception of a handler is not caught: a well-framed request on which the handler raises ends the
  worker thread and with it the server process, whatever other requests were answered before.\<close>

theorem rpc_handler_exception_fatal:
  assumes "steady (cn_room c)" "intact (cn_in c)"
    and "concat (cn_in c) = concat (map frame ms) @ frame (request_message method_id req) @ rest"
    and "list_all message_ok ms" "serve hs ms s = Inr (out, s')" "length ms < running"
    and "length req + 4 \<le> max_message" "um_get hs method_id = Some h"
    and "h \<lparr>ib_data = request_message method_id req, ib_pos = 4\<rparr> OutputBuffer_new s' = Inl e"
  shows "HandleConnection running hs c s = Inl e"
  using assms
proof (induction ms arbitrary: c s out running)
  case Nil
  then obtain k where k: "running = Suc k" by (cases running) auto
  let ?m = "request_message method_id req"
  have len: "length ?m < 2 ^ 32" "4 \<le> length ?m" "length ?m \<le> max_message"
    using Nil.prems(7) by (simp_all add: request_message_def max_message_def)
  obtain raw segs segs' where r: "ReadFull 4 c = ((True, raw), c\<lparr>cn_in := segs\<rparr>)"
    "unat (ntohl_on host (of_mem host raw)) = length ?m"
    "ReadFull (length ?m) (c\<lparr>cn_in := segs\<rparr>) = ((True, ?m), c\<lparr>cn_in := segs'\<rparr>)"
    by (rule read_frame [of c ?m rest]) (use Nil.prems len(1) in simp_all)
  have "dispatch hs ?m s = Inl e"
    using dispatch_request [of req hs method_id s] Nil.prems by (simp add: max_message_def)
  then show ?case using k r len by (simp add: HandleConnection.simps Let_def)
next
  case (Cons m ms)
  then obtain k where k: "running = Suc k" "length ms < k" by (cases running) auto
  obtain resp s1 out1 where d: "dispatch hs m s = Inr (resp, s1)" "serve hs ms s1 = Inr (out1, s')"
    using Cons.prems(5) by (auto split: sum.splits)
  let ?rest = "concat (map frame ms) @ frame (request_message method_id req) @ rest"
  obtain c1 where c1: "HandleConnection (Suc k) hs c s = HandleConnection k hs c1 s1"
    "steady (cn_room c1)" "intact (cn_in c1)" "concat (cn_in c1) = ?rest"
    by (rule HandleConnection_message [of c m ?rest hs s resp s1 k]) (use Cons.prems d in simp_all)
  show ?case
    using Cons.IH [OF c1(2-4) _ d(2) k(2)] Cons.prems c1(1) k(1) by simp
qed

text \<open>A handler that reads an integer, on a request without one.\<close>

definition int_handler :: "unit handler" where
  "int_handler req resp s = (case ReadInt req of Inl e \<Rightarrow> Inl e | Inr (v, _) \<Rightarrow> Inr (WriteInt v resp, s))"

theorem rpc_handler_exception_fatal_witness:
  "HandleConnection 1 [(7, int_handler)] \<lparr>cn_in = [[0, 0, 0, 4, 0, 0, 0, 7]], cn_room = [], cn_out = []\<rparr> ()
   = Inl ReadPastEnd"
proof -
  have "int_handler \<lparr>ib_data = request_message 7 [], ib_pos = 4\<rparr> OutputBuffer_new () = Inl ReadPastEnd"
    by (simp add: int_handler_def request_message_def ReadInt_def ReadRawBytes_def bindr_def CheckBounds_def)
  then show ?thesis
    using rpc_handler_exception_fatal [of "\<lparr>cn_in = [[0, 0, 0, 4, 0, 0, 0, 7]], cn_room = [], cn_out = []\<rparr>"
        "[]" 7 "[]" "[]" "[(7, int_handler)]" "()" "[]" "()" 1 int_handler ReadPastEnd]
    by (simp add: steady_def intact_def frame_def request_message_def mem_of_def nat_bytes_numeral
        max_message_def um_get_def)
qed

end
