(* ===== verification/AcceptQueue.thy ===== *)
theory AcceptQueue
  imports Prelude
begin

text \<open>
  What the two socket servers (\<^verbatim>\<open>src/ipc/server.h\<close> and \<^verbatim>\<open>src/ndfs/data_xceive_server.h\<close>) have in common: an
  acceptor that pushes accepted sockets onto a queue and workers that pop them from its back. The locale
  \<open>accept_queue\<close> states what a step of such a server may do to the queue and to the sockets that are being
  handled; it gives the accounting of connections, which both servers' models obtain by interpretation.
\<close>

datatype queue_event = Accepted int | Taken int | Finished int

text \<open>A run: the events of its steps in order.\<close>

inductive queue_run :: "('s \<Rightarrow> queue_event list \<Rightarrow> 's \<Rightarrow> bool) \<Rightarrow> 's \<Rightarrow> queue_event list \<Rightarrow> 's \<Rightarrow> bool" for step where
  queue_start: "queue_run step st [] st"
| queue_more: "queue_run step st tr st1 \<Longrightarrow> step st1 ev st2 \<Longrightarrow> queue_run step st (tr @ ev) st2"

lemma queue_run_single: "step st ev st' \<Longrightarrow> queue_run step st ev st'"
  using queue_run.queue_more [OF queue_run.queue_start, of step st ev st'] by simp

lemma queue_run_trans: "queue_run step st2 tr2 st3 \<Longrightarrow> queue_run step st1 tr1 st2 \<Longrightarrow> queue_run step st1 (tr1 @ tr2) st3"
proof (induction rule: queue_run.induct)
  case (queue_more st tr st1' ev st2')
  then show ?case using queue_run.queue_more [of step st1 "tr1 @ tr"] by (metis append.assoc)
qed simp

text \<open>What one event does to the waiting sockets \<open>p\<close> and the sockets in progress \<open>a\<close> of a server with \<open>n\<close> workers.\<close>

inductive queue_effect :: "nat \<Rightarrow> int list \<Rightarrow> int list \<Rightarrow> queue_event list \<Rightarrow> int list \<Rightarrow> int list \<Rightarrow> bool" for n where
  accepted: "fd \<notin> set p \<Longrightarrow> fd \<notin> set a \<Longrightarrow> queue_effect n p a [Accepted fd] (p @ [fd]) a"
| taken: "length a < n \<Longrightarrow> queue_effect n (p @ [fd]) a [Taken fd] p (fd # a)"
| finished: "fd \<in> set a \<Longrightarrow> queue_effect n p a [Finished fd] p (remove1 fd a)"
| silent: "queue_effect n p a [] p a"

definition balanced :: "nat \<Rightarrow> queue_event list \<Rightarrow> int list \<Rightarrow> int list \<Rightarrow> bool" where
  "balanced n tr p a \<longleftrightarrow> distinct (p @ a) \<and> length a \<le> n
     \<and> (\<forall>fd. count_list tr (Accepted fd) = count_list tr (Taken fd) + (if fd \<in> set p then 1 else 0))
     \<and> (\<forall>fd. count_list tr (Taken fd) = count_list tr (Finished fd) + (if fd \<in> set a then 1 else 0))"

lemma balanced_effect:
  assumes "queue_effect n p a ev p' a'" "balanced n tr p a"
  shows "balanced n (tr @ ev) p' a'"
  using assms
proof (cases rule: queue_effect.cases)
  case (taken fd)
  have "distinct ((p' @ [fd]) @ a)"
    "\<And>f. count_list tr (Accepted f) = count_list tr (Taken f) + (if f \<in> set (p' @ [fd]) then 1 else 0)"
    "\<And>f. count_list tr (Taken f) = count_list tr (Finished f) + (if f \<in> set a then 1 else 0)"
    using assms(2) taken by (simp_all add: balanced_def)
  then show ?thesis using taken by (auto simp: balanced_def)
next
  case (finished fd)
  then show ?thesis using assms(2) by (auto simp: balanced_def length_remove1)
qed (auto simp: balanced_def)

locale accept_queue =
  fixes waiting active :: "'s \<Rightarrow> int list"
    and workers :: "'s \<Rightarrow> nat"
    and step :: "'s \<Rightarrow> queue_event list \<Rightarrow> 's \<Rightarrow> bool"
  assumes effect: "step s ev s' \<Longrightarrow> queue_effect (workers s) (waiting s) (active s) ev (waiting s') (active s')"
    and workers: "step s ev s' \<Longrightarrow> workers s' = workers s"
begin

lemma run_balanced:
  assumes "queue_run step s tr s'" "balanced (workers s) [] (waiting s) (active s)"
  shows "balanced (workers s) tr (waiting s') (active s') \<and> workers s' = workers s"
  using assms
proof (induction rule: queue_run.induct)
  case (queue_more s tr s1 ev s2)
  then show ?case using balanced_effect [OF effect] workers by metis
qed simp

text \<open>Where the accepted connections are after a run from a server without any.\<close>

lemma accounts:
  assumes "queue_run step s tr s'" "waiting s = []" "active s = []"
  shows "count_list tr (Accepted fd) = count_list tr (Finished fd)
      + (if fd \<in> set (waiting s') then 1 else 0) + (if fd \<in> set (active s') then 1 else 0)
    \<and> \<not> (fd \<in> set (waiting s') \<and> fd \<in> set (active s'))
    \<and> distinct (waiting s') \<and> distinct (active s') \<and> length (active s') \<le> workers s"
  using run_balanced [OF assms(1)] assms(2,3) by (auto simp: balanced_def)

end

end
