(* ===== verification/RpcQueue.thy ===== *)
theory RpcQueue
  imports Rpc AcceptQueue
begin

text \<open>
  The threads of \<open>RpcServer\<close> (\<^verbatim>\<open>src/ipc/server.h\<close>): \<open>Start\<close> and \<open>Stop\<close>, the acceptor that pushes accepted
  sockets onto \<open>pending_fds_\<close>, and the workers that pop from its back. The interleaving of the threads is
  a step relation with the accepted, taken and finished sockets as its events; each step is what one
  thread does while it holds \<open>queue_mutex_\<close> (or, for the end of a connection, its \<open>close\<close>).
\<close>

section \<open>Starting and stopping\<close>

record RpcServer =
  rs_num_handlers :: nat
  rs_listen_fd :: int
  rs_running :: bool
  rs_pending :: "int list"
  rs_active :: "int list"   \<comment> \<open>sockets that a worker is handling\<close>
  rs_closed :: "int list"   \<comment> \<open>calls of \<open>close\<close> on the listening socket\<close>

definition RpcServer_new :: "nat \<Rightarrow> RpcServer" where
  "RpcServer_new num_handlers = \<lparr>rs_num_handlers = num_handlers, rs_listen_fd = -1, rs_running = False,
     rs_pending = [], rs_active = [], rs_closed = []\<rparr>"

text \<open>\<open>fd\<close>, \<open>binds\<close> and \<open>listens\<close> are the results of \<open>socket\<close>, \<open>bind\<close> and \<open>listen\<close>.\<close>

definition Server_Start :: "int \<Rightarrow> bool \<Rightarrow> bool \<Rightarrow> RpcServer \<Rightarrow> bool \<times> RpcServer" where
  "Server_Start fd binds listens st =
     (let st1 = st\<lparr>rs_listen_fd := fd\<rparr>
      in if fd < 0 then (False, st1)
         else if \<not> binds then (False, st1\<lparr>rs_closed := rs_closed st1 @ [fd]\<rparr>)
         else if \<not> listens then (False, st1\<lparr>rs_closed := rs_closed st1 @ [fd]\<rparr>)
         else (True, st1\<lparr>rs_running := True\<rparr>))"

definition Server_Stop :: "RpcServer \<Rightarrow> RpcServer" where
  "Server_Stop st =
     (let st1 = st\<lparr>rs_running := False\<rparr>
      in if rs_listen_fd st1 \<ge> 0
         then st1\<lparr>rs_closed := rs_closed st1 @ [rs_listen_fd st1], rs_listen_fd := -1\<rparr> else st1)"

text \<open>What the system calls of a daemon return that opens a server socket and a connection to its master.\<close>

record sockets =
  sk_listen :: int      \<comment> \<open>\<open>socket\<close> for the server\<close>
  sk_binds :: bool
  sk_listens :: bool
  sk_client :: int      \<comment> \<open>\<open>socket\<close> for the connection\<close>
  sk_connects :: bool

definition sockets_ok :: "sockets \<Rightarrow> bool" where
  "sockets_ok sk \<longleftrightarrow> 0 \<le> sk_listen sk \<and> sk_binds sk \<and> sk_listens sk \<and> 0 \<le> sk_client sk \<and> sk_connects sk"

section \<open>Acceptor and workers\<close>

definition AcceptLoop_body :: "int \<Rightarrow> RpcServer \<Rightarrow> RpcServer" where
  "AcceptLoop_body client_fd st =
     (if client_fd < 0 then st else st\<lparr>rs_pending := rs_pending st @ [client_fd]\<rparr>)"

text \<open>A worker that holds the lock after its wait: it leaves its loop, or it has a socket to handle.\<close>

definition WorkerLoop_body :: "RpcServer \<Rightarrow> int option \<times> RpcServer" where
  "WorkerLoop_body st =
     (if \<not> rs_running st then (None, st)
      else if rs_pending st \<noteq> []
      then let fd = last (rs_pending st); st1 = st\<lparr>rs_pending := butlast (rs_pending st)\<rparr>
           in if fd \<ge> 0 then (Some fd, st1\<lparr>rs_active := fd # rs_active st1\<rparr>) else (None, st1)
      else (None, st))"

text \<open>The kernel hands out a descriptor that is not open; a worker is free as long as not all of them are
  handling a connection.\<close>

inductive rpc_step :: "RpcServer \<Rightarrow> queue_event list \<Rightarrow> RpcServer \<Rightarrow> bool" where
  accept: "0 \<le> fd \<Longrightarrow> fd \<notin> set (rs_pending st) \<Longrightarrow> fd \<notin> set (rs_active st) \<Longrightarrow>
    rpc_step st [Accepted fd] (AcceptLoop_body fd st)"
| take: "length (rs_active st) < rs_num_handlers st \<Longrightarrow> WorkerLoop_body st = (Some fd, st') \<Longrightarrow>
    rpc_step st [Taken fd] st'"
| finish: "fd \<in> set (rs_active st) \<Longrightarrow>
    rpc_step st [Finished fd] (st\<lparr>rs_active := remove1 fd (rs_active st)\<rparr>)"
| stop: "rpc_step st [] (Server_Stop st)"

abbreviation rpc_run :: "RpcServer \<Rightarrow> queue_event list \<Rightarrow> RpcServer \<Rightarrow> bool" where
  "rpc_run \<equiv> queue_run rpc_step"

inductive_cases rpc_stepE: "rpc_step st ev st'"

section \<open>The queue\<close>

lemma WorkerLoop_body_Some:
  assumes "WorkerLoop_body st = (Some fd, st')"
  obtains ps where "rs_running st" "rs_pending st = ps @ [fd]" "0 \<le> fd"
    "st' = st\<lparr>rs_pending := ps, rs_active := fd # rs_active st\<rparr>"
  using assms
  by (cases "rs_pending st" rule: rev_cases) (auto simp: WorkerLoop_body_def Let_def split: if_splits)

lemma Server_Stop_fields [simp]:
  "rs_pending (Server_Stop st) = rs_pending st" "rs_active (Server_Stop st) = rs_active st"
  "rs_num_handlers (Server_Stop st) = rs_num_handlers st"
  by (simp_all add: Server_Stop_def Let_def)

interpretation rpc: accept_queue rs_pending rs_active rs_num_handlers rpc_step
proof
  fix st ev st'
  assume step: "rpc_step st ev st'"
  then show "queue_effect (rs_num_handlers st) (rs_pending st) (rs_active st) ev (rs_pending st') (rs_active st')"
    by (rule rpc_stepE) (auto simp: AcceptLoop_body_def elim!: WorkerLoop_body_Some intro: queue_effect.intros)
  from step show "rs_num_handlers st' = rs_num_handlers st"
    by (rule rpc_stepE) (auto simp: AcceptLoop_body_def elim!: WorkerLoop_body_Some)
qed


lemma accept_take_run:
  assumes "rs_running st" "0 \<le> fd" "fd \<notin> set (rs_pending st)" "fd \<notin> set (rs_active st)"
    and "length (rs_active st) < rs_num_handlers st"
  shows "rpc_run st [Accepted fd, Taken fd] (st\<lparr>rs_active := fd # rs_active st\<rparr>)"
proof -
  let ?st1 = "st\<lparr>rs_pending := rs_pending st @ [fd]\<rparr>"
  have "rpc_step st [Accepted fd] ?st1"
    using rpc_step.accept [of fd st] assms by (simp add: AcceptLoop_body_def)
  moreover have "rpc_step ?st1 [Taken fd] (st\<lparr>rs_active := fd # rs_active st\<rparr>)"
    using assms by (intro rpc_step.take) (simp_all add: WorkerLoop_body_def)
  ultimately show ?thesis
    using queue_run.queue_more [OF queue_run_single, of rpc_step st "[Accepted fd]"] by fastforce
qed


text \<open>The queue is served from its back, so it is not fair: once a connection \<open>old\<close> waits behind a busy
  period, any number \<open>n\<close> of later connections can be accepted and finished while \<open>old\<close> still waits, even
  though a worker is free between any two of them.\<close>

lemma rpc_queue_starvation:
  assumes "rs_running st" "rs_pending st = [old]" "rs_active st = []" "0 < rs_num_handlers st"
    and "0 \<le> fd" "fd \<noteq> old"
  shows "\<exists>tr. rpc_run st tr st \<and> count_list tr (Finished fd) = n \<and> count_list tr (Taken old) = 0"
proof (induction n)
  case 0
  show ?case using queue_run.queue_start by force
next
  case (Suc n)
  then obtain tr where tr: "rpc_run st tr st" "count_list tr (Finished fd) = n" "count_list tr (Taken old) = 0"
    by blast
  have "rpc_run st [Accepted fd, Taken fd] (st\<lparr>rs_active := [fd]\<rparr>)"
    using accept_take_run [of st fd] assms by simp
  moreover have "st\<lparr>rs_active := []\<rparr> = st" using assms(3) by (cases st) simp
  then have "rpc_step (st\<lparr>rs_active := [fd]\<rparr>) [Finished fd] st"
    using rpc_step.finish [of fd "st\<lparr>rs_active := [fd]\<rparr>"] by simp
  ultimately have "rpc_run st ([Accepted fd, Taken fd] @ [Finished fd]) st" by (rule queue_run.queue_more)
  from queue_run_trans [OF this tr(1)] show ?case
    using tr(2,3) assms(6) by (intro exI [of _ "tr @ ([Accepted fd, Taken fd] @ [Finished fd])"]) simp
qed

text \<open>After a failed \<open>bind\<close> the descriptor is closed but kept, and \<open>Stop\<close> closes it again.\<close>

lemma Server_Stop_closes_twice:
  "0 \<le> fd \<Longrightarrow> rs_closed (Server_Stop (snd (Server_Start fd False listens (RpcServer_new n)))) = [fd, fd]"
  by (simp add: Server_Start_def Server_Stop_def RpcServer_new_def)

end
