(* ===== verification/NameNode.thy ===== *)
theory NameNode
  imports NdfsProtocol RpcQueue
begin

text \<open>
  Model of \<^verbatim>\<open>src/ndfs/name_node.h\<close>: the eleven request handlers, from the bytes of the request to the bytes of
  the response, registered under their method numbers; the start from a saved image and the save at
  the stop. Every handler reads its whole request before it calls the namesystem (\<open>handle\<close>).

  What the process takes from outside is in its state: the numbers that the random generator will
  deliver (\<open>nn_gen\<close>, one set aside per request that may allocate a block), the clock, and the order in
  which loops visit the table of DataNodes (\<open>nn_order\<close>). The threads of its server are in the theory \<open>RpcQueue\<close>.
\<close>

section \<open>State\<close>

record NameNode =
  nn_server :: RpcServer
  nn_namesystem :: FsNamesystem
  nn_fsimage_path :: string
  nn_gen :: "nat \<Rightarrow> int64"
  nn_drawn :: nat
  nn_clock :: int64
  nn_order :: "(string, DataNodeInfo) umap \<Rightarrow> (string \<times> DataNodeInfo) list"

section \<open>Handlers\<close>

definition req_StartFile :: "(string \<times> bool) reader" where
  "req_StartFile = bindr ReadString (\<lambda>path. bindr ReadBool (\<lambda>overwrite. returnr (path, overwrite)))"

definition on_StartFile :: "NameNode handler" where
  "on_StartFile = handle req_StartFile (\<lambda>(path, overwrite) resp nn.
     let (result, ns) = StartFile path overwrite (nn_gen nn (nn_drawn nn))
                          (nn_order nn (ns_datanodes (nn_namesystem nn))) (nn_namesystem nn)
     in (WriteLocated result resp, nn\<lparr>nn_namesystem := ns, nn_drawn := nn_drawn nn + 1\<rparr>))"

definition on_AddBlock :: "NameNode handler" where
  "on_AddBlock = handle ReadString (\<lambda>path resp nn.
     let (result, ns) = AddBlock path (nn_gen nn (nn_drawn nn))
                          (nn_order nn (ns_datanodes (nn_namesystem nn))) (nn_namesystem nn)
     in (WriteLocated result resp, nn\<lparr>nn_namesystem := ns, nn_drawn := nn_drawn nn + 1\<rparr>))"

definition on_GetBlocks :: "NameNode handler" where
  "on_GetBlocks = handle ReadString (\<lambda>path resp nn.
     let result = GetBlocks path (nn_namesystem nn)
     in (fold WriteLocated result (WriteInt (word_of_nat (length result)) resp), nn))"

definition on_Delete :: "NameNode handler" where
  "on_Delete = handle ReadString (\<lambda>path resp nn.
     let (ok, ns) = ns_Delete path (nn_namesystem nn)
     in (WriteBool ok resp, nn\<lparr>nn_namesystem := ns\<rparr>))"

definition on_Mkdirs :: "NameNode handler" where
  "on_Mkdirs = handle ReadString (\<lambda>path resp nn.
     let (ok, ns) = ns_Mkdirs path (nn_namesystem nn)
     in (WriteBool ok resp, nn\<lparr>nn_namesystem := ns\<rparr>))"

definition on_GetListing :: "NameNode handler" where
  "on_GetListing = handle ReadString (\<lambda>path resp nn.
     let items = GetListing path (nn_namesystem nn)
     in (fold WriteString items (WriteInt (word_of_nat (length items)) resp), nn))"

definition req_Heartbeat :: "(string \<times> string \<times> int32 \<times> int64 \<times> int64) reader" where
  "req_Heartbeat = bindr ReadString (\<lambda>name. bindr ReadString (\<lambda>hst. bindr ReadInt (\<lambda>port.
     bindr ReadLong (\<lambda>capacity. bindr ReadLong (\<lambda>remaining.
       returnr (name, hst, port, capacity, remaining))))))"

definition on_Heartbeat :: "NameNode handler" where
  "on_Heartbeat = handle req_Heartbeat (\<lambda>(name, hst, port, capacity, remaining) resp nn.
     (resp, nn\<lparr>nn_namesystem := Heartbeat name hst port capacity remaining (nn_clock nn) (nn_namesystem nn)\<rparr>))"

text \<open>\<open>std::vector<Block> blocks(count)\<close> raises for a negative count.\<close>

definition req_BlockReport :: "(string \<times> Block list) reader" where
  "req_BlockReport = bindr ReadString (\<lambda>name. bindr ReadInt (\<lambda>n.
     if sint n < 0 then throwr LengthError
     else bindr (read_n ReadBlock (nat (sint n))) (\<lambda>blocks. returnr (name, blocks))))"

definition on_BlockReport :: "NameNode handler" where
  "on_BlockReport = handle req_BlockReport (\<lambda>(name, blocks) resp nn.
     (WriteInt 1 resp, nn\<lparr>nn_namesystem := BlockReport name blocks (nn_namesystem nn)\<rparr>))"

definition req_BlockReceived :: "(string \<times> Block \<times> string) reader" where
  "req_BlockReceived = bindr ReadString (\<lambda>name. bindr ReadBlock (\<lambda>b. bindr ReadString (\<lambda>del_hint.
     returnr (name, b, del_hint))))"

definition on_BlockReceived :: "NameNode handler" where
  "on_BlockReceived = handle req_BlockReceived (\<lambda>(name, b, del_hint) resp nn.
     (WriteInt 1 resp, nn\<lparr>nn_namesystem := BlockReceived name b del_hint (nn_namesystem nn)\<rparr>))"

definition on_GetStats :: "NameNode handler" where
  "on_GetStats req resp nn =
     (let ns = nn_namesystem nn; ord = nn_order nn (ns_datanodes ns)
      in case TotalCapacity ord of
           Inl e \<Rightarrow> Inl e
         | Inr capacity \<Rightarrow>
             (case TotalRemaining ord of
                Inl e \<Rightarrow> Inl e
              | Inr remaining \<Rightarrow>
                  Inr (WriteInt (AliveDataNodes ns) (WriteLong remaining (WriteLong capacity resp)), nn)))"

definition on_GetDatanodeReport :: "NameNode handler" where
  "on_GetDatanodeReport = handle (returnr ()) (\<lambda>_ resp nn.
     let report = GetDataNodeReport (nn_order nn (ns_datanodes (nn_namesystem nn)))
     in (WriteDataNodeInfoList report resp, nn))"

definition SetupHandlers :: "NameNode handlers \<Rightarrow> NameNode handlers" where
  "SetupHandlers hs =
     RegisterHandler (op_id kGetDatanodeReport) on_GetDatanodeReport
     (RegisterHandler (op_id kGetStats) on_GetStats
     (RegisterHandler (op_id kBlockReceived) on_BlockReceived
     (RegisterHandler (op_id kBlockReport) on_BlockReport
     (RegisterHandler (op_id kHeartbeat) on_Heartbeat
     (RegisterHandler (op_id kGetListing) on_GetListing
     (RegisterHandler (op_id kMkdirs) on_Mkdirs
     (RegisterHandler (op_id kDelete) on_Delete
     (RegisterHandler (op_id kGetBlocks) on_GetBlocks
     (RegisterHandler (op_id kAddBlock) on_AddBlock
     (RegisterHandler (op_id kStartFile) on_StartFile hs))))))))))"

abbreviation nn_handlers :: "NameNode handlers" where
  "nn_handlers \<equiv> SetupHandlers []"

section \<open>Start and stop\<close>

text \<open>The constructor loads the image into an empty namesystem; \<open>env\<close> has what comes from outside.\<close>

definition NameNode_new :: "string \<Rightarrow> files \<Rightarrow> NameNode \<Rightarrow> NameNode result" where
  "NameNode_new fsimage_path fs env =
     (case FsImage_Load (ns_tree FsNamesystem_new) fsimage_path fs of
        Inl e \<Rightarrow> Inl e
      | Inr t \<Rightarrow> Inr (env\<lparr>nn_server := RpcServer_new 4, nn_namesystem := FsNamesystem_new\<lparr>ns_tree := t\<rparr>,
                       nn_fsimage_path := fsimage_path\<rparr>))"

definition NameNode_Start :: "int \<Rightarrow> bool \<Rightarrow> bool \<Rightarrow> NameNode \<Rightarrow> bool \<times> NameNode" where
  "NameNode_Start fd binds listens nn =
     (let (ok, rs) = Server_Start fd binds listens (nn_server nn) in (ok, nn\<lparr>nn_server := rs\<rparr>))"

text \<open>When the save raises, the server is not stopped.\<close>

definition NameNode_Stop :: "(string \<Rightarrow> bool) \<Rightarrow> bool \<Rightarrow> NameNode \<Rightarrow> files \<Rightarrow> (NameNode \<times> files) result" where
  "NameNode_Stop can_write renames nn fs =
     (case FsImage_Save can_write renames (ns_tree (nn_namesystem nn)) (nn_fsimage_path nn) fs of
        Inl e \<Rightarrow> Inl e
      | Inr fs1 \<Rightarrow> Inr (nn\<lparr>nn_server := Server_Stop (nn_server nn)\<rparr>, fs1))"

section \<open>Dispatch\<close>

lemma op_id_inj [simp]: "op_id a = op_id b \<longleftrightarrow> a = b"
  by (cases a; cases b) simp_all

text \<open>The handler of each method.\<close>

fun handler_of :: "NdfsOp \<Rightarrow> NameNode handler" where
  "handler_of kStartFile = on_StartFile"
| "handler_of kAddBlock = on_AddBlock"
| "handler_of kGetBlocks = on_GetBlocks"
| "handler_of kDelete = on_Delete"
| "handler_of kMkdirs = on_Mkdirs"
| "handler_of kGetListing = on_GetListing"
| "handler_of kHeartbeat = on_Heartbeat"
| "handler_of kBlockReport = on_BlockReport"
| "handler_of kBlockReceived = on_BlockReceived"
| "handler_of kGetStats = on_GetStats"
| "handler_of kGetDatanodeReport = on_GetDatanodeReport"

lemma nn_handlers_op: "um_get nn_handlers (op_id opc) = Some (handler_of opc)"
  by (cases opc) (simp_all add: SetupHandlers_def RegisterHandler_def)

lemma nn_handlers_cases:
  "um_get nn_handlers m = Some h \<Longrightarrow> \<exists>opc. m = op_id opc \<and> h = handler_of opc"
  by (auto simp: SetupHandlers_def RegisterHandler_def split: if_splits
      intro: exI [of _ kGetDatanodeReport] exI [of _ kGetStats] exI [of _ kBlockReceived]
        exI [of _ kBlockReport] exI [of _ kHeartbeat] exI [of _ kGetListing] exI [of _ kMkdirs]
        exI [of _ kDelete] exI [of _ kGetBlocks] exI [of _ kAddBlock] exI [of _ kStartFile])

text \<open>A request whose bytes the reader of its handler accepts is served.\<close>

lemma dispatch_handle:
  assumes "handler_of opc = handle R f" "reads R bs x" "length bs + 4 < size_max"
  shows "dispatch nn_handlers (request_message (op_id opc) bs) nn = Inr (f x OutputBuffer_new nn)"
  by (simp add: dispatch_request [OF assms(3)] nn_handlers_op assms(1) handle_reads [OF assms(2,3)])

section \<open>Requests of any bytes\<close>

definition nn_inv :: "NameNode \<Rightarrow> bool" where
  "nn_inv nn \<longleftrightarrow> ns_inv (nn_namesystem nn) \<and> (\<forall>m. iterates (nn_order nn m) m)"

lemma nn_inv_ns: "nn_inv nn \<Longrightarrow> ns_inv (nn_namesystem nn)"
  "nn_inv nn \<Longrightarrow> iterates (nn_order nn m) m"
  by (simp_all add: nn_inv_def)

lemma nn_inv_update:
  "nn_inv nn \<Longrightarrow> ns_inv ns \<Longrightarrow> nn_inv (nn\<lparr>nn_namesystem := ns\<rparr>)"
  "nn_inv nn \<Longrightarrow> ns_inv ns \<Longrightarrow> nn_inv (nn\<lparr>nn_namesystem := ns, nn_drawn := k\<rparr>)"
  by (simp_all add: nn_inv_def)

lemma safe_requests [safe_intros]:
  "safe req_StartFile" "safe req_Heartbeat" "safe req_BlockReport" "safe req_BlockReceived"
  unfolding req_StartFile_def req_Heartbeat_def req_BlockReport_def req_BlockReceived_def
  by (auto intro!: safe_intros)

text \<open>The sums of \<open>GetStats\<close> fit into an \<open>int64_t\<close>.\<close>

definition stats_fit :: "NameNode \<Rightarrow> bool" where
  "stats_fit nn \<longleftrightarrow>
     (let ord = nn_order nn (ns_datanodes (nn_namesystem nn))
      in sums_ok (map (\<lambda>(name, info). dn_capacity info) ord) \<and> sums_ok (map (\<lambda>(name, info). dn_remaining info) ord))"

lemma stats_sums:
  "TotalCapacity ord = (if sums_ok (map (\<lambda>(name, info). dn_capacity info) ord)
     then Inr (total64 (map (\<lambda>(name, info). dn_capacity info) ord)) else Inl Undefined)"
  "TotalRemaining ord = (if sums_ok (map (\<lambda>(name, info). dn_remaining info) ord)
     then Inr (total64 (map (\<lambda>(name, info). dn_remaining info) ord)) else Inl Undefined)"
  using sum_loop [of "\<lambda>(name, info). dn_capacity info" ord] sum_loop [of "\<lambda>(name, info). dn_remaining info" ord]
  by (simp_all add: TotalCapacity_def TotalRemaining_def case_prod_unfold)

text \<open>The request that asks for the statistics when they do not fit.\<close>

definition stats_overflow :: "int32 \<Rightarrow> NameNode \<Rightarrow> bool" where
  "stats_overflow mid nn \<longleftrightarrow> mid = op_id kGetStats \<and> \<not> stats_fit nn"

text \<open>What a handler does to the state and what it can raise.\<close>

definition keeps_inv :: "(NameNode \<Rightarrow> bool) \<Rightarrow> NameNode handler \<Rightarrow> bool" where
  "keeps_inv bad h \<longleftrightarrow> (\<forall>req resp nn. wf_ib req \<longrightarrow> nn_inv nn \<longrightarrow> (case h req resp nn of
     Inl e \<Rightarrow> e = Undefined \<longrightarrow> bad nn | Inr (resp', nn') \<Rightarrow> nn_inv nn'))"

lemma keeps_inv_handle:
  assumes "safe R" "\<And>x resp nn. nn_inv nn \<Longrightarrow> nn_inv (snd (f x resp nn))"
  shows "keeps_inv bad (handle R f)"
  unfolding keeps_inv_def
proof (intro allI impI)
  fix req resp nn
  assume a: "wf_ib req" "nn_inv nn"
  show "case handle R f req resp nn of Inl e \<Rightarrow> e = Undefined \<longrightarrow> bad nn | Inr (resp', nn') \<Rightarrow> nn_inv nn'"
  proof (cases "R req")
    case (Inl e)
    then show ?thesis using safe_Inl [OF assms(1) a(1)] by (simp add: handle_def)
  next
    case (Inr r)
    then show ?thesis using assms(2) [OF a(2), of "fst r" resp] by (simp add: handle_def case_prod_beta)
  qed
qed

lemma keeps_inv_stats: "keeps_inv (\<lambda>nn. \<not> stats_fit nn) on_GetStats"
  by (auto simp: keeps_inv_def on_GetStats_def stats_sums stats_fit_def Let_def)

lemma handlers_keep_inv: "keeps_inv (stats_overflow (op_id opc)) (handler_of opc)"
proof (cases "opc = kGetStats")
  case True
  moreover have "stats_overflow (op_id kGetStats) = (\<lambda>nn. \<not> stats_fit nn)" by (simp add: stats_overflow_def fun_eq_iff)
  ultimately show ?thesis using keeps_inv_stats by (simp del: op_id.simps)
next
  case False
  then show ?thesis
    by (cases opc)
       (auto simp: on_StartFile_def on_AddBlock_def on_GetBlocks_def on_Delete_def on_Mkdirs_def on_GetListing_def
         on_Heartbeat_def on_BlockReport_def on_BlockReceived_def on_GetDatanodeReport_def
         Let_def case_prod_beta nn_inv_ns
         intro!: keeps_inv_handle safe_intros nn_inv_update StartFile_inv AddBlock_inv Delete_inv Mkdirs_inv
           Heartbeat_inv BlockReport_inv BlockReceived_inv)
qed

text \<open>The method number of a message is that of \<open>GetStats\<close>.\<close>

definition asks_stats :: "byte list \<Rightarrow> bool" where
  "asks_stats m \<longleftrightarrow> map_sum id fst (ReadInt (InputBuffer_new m)) = Inr (op_id kGetStats)"

lemma asks_stats_request: "length bs + 4 < size_max \<Longrightarrow> asks_stats (request_message m bs) \<longleftrightarrow> m = op_id kGetStats"
  using reads_InputBuffer_new [OF basic_reads(1), of m bs] by (simp add: asks_stats_def request_message_def)

lemma dispatch_keeps_inv:
  assumes "nn_inv nn" "length m < 2 ^ 63"
  shows "case dispatch nn_handlers m nn of
      Inl e \<Rightarrow> e = Undefined \<longrightarrow> asks_stats m \<and> \<not> stats_fit nn
    | Inr (resp, nn') \<Rightarrow> nn_inv nn'"
proof (cases "ReadInt (InputBuffer_new m)")
  case (Inl e)
  have "wf_ib (InputBuffer_new m)" using assms(2) by (simp add: wf_ib_def InputBuffer_new_def)
  then show ?thesis using safe_Inl [OF safe_fixed(1) _ Inl] Inl by (simp add: dispatch_def)
next
  case (Inr r)
  obtain mid req where r: "r = (mid, req)" by fastforce
  have "wf_ib (InputBuffer_new m)" using assms(2) by (simp add: wf_ib_def InputBuffer_new_def)
  then have req: "wf_ib req" using safe_Inr [OF safe_fixed(1), of "InputBuffer_new m" mid req] Inr r by simp
  show ?thesis
  proof (cases "um_get nn_handlers mid")
    case None
    then show ?thesis using Inr r assms(1) by (simp add: dispatch_def)
  next
    case (Some h)
    then obtain opc where opc: "mid = op_id opc" "h = handler_of opc" using nn_handlers_cases by blast
    then show ?thesis
      using handlers_keep_inv [of opc] Some Inr r req assms(1)
      by (auto simp: dispatch_def keeps_inv_def stats_overflow_def asks_stats_def split: sum.splits)
  qed
qed

lemma serve_keeps_inv:
  assumes "nn_inv nn" "\<forall>m \<in> set ms. length m < 2 ^ 63"
  shows "case serve nn_handlers ms nn of
      Inl e \<Rightarrow> e = Undefined \<longrightarrow> (\<exists>ms1 m ms2 out nn1. ms = ms1 @ m # ms2 \<and> serve nn_handlers ms1 nn = Inr (out, nn1)
          \<and> asks_stats m \<and> \<not> stats_fit nn1)
    | Inr (out, nn') \<Rightarrow> nn_inv nn'"
  using assms
proof (induction ms arbitrary: nn)
  case (Cons m ms)
  note d = dispatch_keeps_inv [OF Cons.prems(1), of m]
  show ?case
  proof (cases "dispatch nn_handlers m nn")
    case (Inl e)
    have "\<exists>ms1 m' ms2 out nn1. m # ms = ms1 @ m' # ms2 \<and> serve nn_handlers ms1 nn = Inr (out, nn1)
        \<and> asks_stats m' \<and> \<not> stats_fit nn1" if "asks_stats m" "\<not> stats_fit nn"
      using that by (auto intro: exI [of _ "[] :: byte list list"])
    then show ?thesis using Inl d Cons.prems(2) by auto
  next
    case (Inr r)
    obtain resp nn1 where r: "r = (resp, nn1)" by fastforce
    have IH: "case serve nn_handlers ms nn1 of
        Inl e \<Rightarrow> e = Undefined \<longrightarrow> (\<exists>ms1 m ms2 out nn2. ms = ms1 @ m # ms2 \<and> serve nn_handlers ms1 nn1 = Inr (out, nn2)
            \<and> asks_stats m \<and> \<not> stats_fit nn2)
      | Inr (out, nn') \<Rightarrow> nn_inv nn'"
      using Cons.IH [of nn1] d Cons.prems(2) Inr r by simp
    show ?thesis
    proof (cases "serve nn_handlers ms nn1")
      case (Inl e)
      have "\<exists>ms1 m' ms2 out nn2. m # ms = ms1 @ m' # ms2 \<and> serve nn_handlers ms1 nn = Inr (out, nn2)
          \<and> asks_stats m' \<and> \<not> stats_fit nn2" if "e = Undefined"
      proof -
        obtain ms1 m' ms2 out nn2 where "ms = ms1 @ m' # ms2" "serve nn_handlers ms1 nn1 = Inr (out, nn2)"
            "asks_stats m'" "\<not> stats_fit nn2"
          using IH Inl \<open>e = Undefined\<close> by auto
        then show ?thesis using \<open>dispatch nn_handlers m nn = Inr r\<close> r by (intro exI [of _ "m # ms1"]) auto
      qed
      then show ?thesis using Inl Inr r by simp
    next
      case (Inr q)
      then show ?thesis using IH \<open>dispatch nn_handlers m nn = Inr r\<close> r by (auto split: prod.splits)
    qed
  qed
qed simp


text \<open>A NameNode for the witnesses, with one DataNode.\<close>

definition sample_nn :: NameNode where
  "sample_nn = \<lparr>nn_server = RpcServer_new 4, nn_namesystem = one_dn, nn_fsimage_path = ''img'', nn_gen = (\<lambda>i. word_of_nat (i + 42)), nn_drawn = 0, nn_clock = 5,
     nn_order = (\<lambda>m. m)\<rparr>"

lemma sample_nn_inv: "nn_inv sample_nn"
  by (simp add: nn_inv_def sample_nn_def one_dn_inv)


text \<open>The undefined case: two heartbeats whose capacities add up to \<open>2^63\<close>, and a \<open>GetStats\<close>.\<close>

lemma GetStats_undefined: "\<not> stats_fit nn \<Longrightarrow> dispatch nn_handlers (request_message (op_id kGetStats) []) nn = Inl Undefined"
  by (auto simp: dispatch_request nn_handlers_op on_GetStats_def stats_sums stats_fit_def Let_def simp del: op_id.simps)

lemma GetStats_overflow:
  "\<not> stats_fit (sample_nn\<lparr>nn_namesystem :=
     Heartbeat ''b'' ''h'' 2 4611686018427387904 0 0 (Heartbeat ''a'' ''h'' 1 4611686018427387904 0 0 FsNamesystem_new)\<rparr>)"
  by code_simp

section \<open>Restart\<close>

text \<open>C16. Stopping a NameNode and starting it again from its image restores the namespace: the same
  directories and files with the same blocks in the same order, as long as no name contains white
  space and the image can be written. The server is stopped and its socket closed. The locations of the
  blocks are not saved: until the DataNodes report, every block of every
  file has no location, and with no DataNode registered the NameNode is in safe mode.\<close>

theorem namenode_restart:
  assumes "nn_inv nn" "plain_names (ns_tree (nn_namesystem nn))" "can_write (nn_fsimage_path nn @ ''.tmp'')"
  shows "\<exists>nn1 fs1 nn'. NameNode_Stop can_write True nn fs = Inr (nn1, fs1) \<and> \<not> rs_running (nn_server nn1) \<and> rs_listen_fd (nn_server nn1) < 0
    \<and> NameNode_new (nn_fsimage_path nn) fs1 env = Inr nn' \<and> ns_inv (nn_namesystem nn')
    \<and> ns_tree (nn_namesystem nn') = ns_tree (nn_namesystem nn)
    \<and> map fst (GetBlocks p (nn_namesystem nn')) = map fst (GetBlocks p (nn_namesystem nn))
    \<and> (\<forall>bl \<in> set (GetBlocks p (nn_namesystem nn')). snd bl = [])
    \<and> InSafeMode (nn_namesystem nn')"
proof -
  let ?t = "ns_tree (nn_namesystem nn)" and ?ns = "FsNamesystem_new\<lparr>ns_tree := ns_tree (nn_namesystem nn)\<rparr>"
  let ?nn' = "env\<lparr>nn_server := RpcServer_new 4, nn_namesystem := ?ns, nn_fsimage_path := nn_fsimage_path nn\<rparr>"
  have wf: "wf_tree ?t" using nn_inv_ns(1) [OF assms(1)] by (rule ns_invD)
  obtain fs1 where fs1: "FsImage_Save can_write True ?t (nn_fsimage_path nn) fs = Inr fs1" "fs1 (nn_fsimage_path nn) = Some (FsImage_text ?t)"
    using FsImage_Save_content [of can_write, OF assms(3)] by blast
  then have new: "NameNode_new (nn_fsimage_path nn) fs1 env = Inr ?nn'"
    using load_saved_text [OF wf assms(2)] by (simp add: NameNode_new_def FsImage_Load_def FsNamesystem_new_def)
  have blocks: "GetBlocks p ?ns = map (\<lambda>bl. (fst bl, [])) (GetBlocks p (nn_namesystem nn))"
    by (auto simp: GetBlocks_def FsNamesystem_new_def split: option.split)
  have "ns_inv ?ns" using ns_inv_new wf by (rule set_tree_inv)
  moreover have "InSafeMode ?ns" by (simp add: InSafeMode_def FsNamesystem_new_def)
  moreover have "\<not> rs_running (Server_Stop (nn_server nn))" "rs_listen_fd (Server_Stop (nn_server nn)) < 0"
    by (simp_all add: Server_Stop_def Let_def)
  ultimately show ?thesis using new blocks fs1(1) by (auto simp: NameNode_Stop_def)
qed

theorem namenode_restart_witness:
  "let nn = sample_nn\<lparr>nn_namesystem := one_dn\<lparr>ns_tree := sample_tree\<rparr>\<rparr>
   in \<exists>nn1 fs1 nn'. NameNode_Stop (\<lambda>_. True) True nn Map.empty = Inr (nn1, fs1) \<and> NameNode_new ''img'' fs1 nn = Inr nn'
        \<and> ns_tree (nn_namesystem nn') = sample_tree"
proof -
  let ?nn = "sample_nn\<lparr>nn_namesystem := one_dn\<lparr>ns_tree := sample_tree\<rparr>\<rparr>"
  have "nn_inv ?nn"
    by (intro nn_inv_update sample_nn_inv set_tree_inv one_dn_inv wf_sample_tree)
  moreover have "plain_names sample_tree" by (simp add: sample_tree_def is_word_def isspace_def)
  moreover have "nn_fsimage_path ?nn = ''img''" by (simp add: sample_nn_def)
  ultimately show ?thesis
    using namenode_restart [of ?nn "\<lambda>_. True" Map.empty ?nn "[]"] by (auto simp: Let_def)
qed

end
