(* ===== verification/BlockStorage.thy ===== *)
theory BlockStorage
  imports FsNamesystem
begin

text \<open>
  Model of \<^verbatim>\<open>src/ndfs/block_storage.h\<close>: one file per block, named by the block identifier, in the directory of a
  DataNode. The disk is a map from paths to contents; \<open>bs_can_create\<close> says which files can be created.
  A write to an open file is taken to store all its bytes. The order and the kind of the directory
  entries that \<open>GetBlockReport\<close> visits are an argument.

  The locale \<open>block_store\<close> is what the data transfer server relies on.
\<close>

section \<open>State and operations\<close>

record BlockStorage =
  bs_data_dir :: string
  bs_files :: "string \<rightharpoonup> byte list"
  bs_can_create :: "string \<Rightarrow> bool"

definition BlockPath :: "int64 \<Rightarrow> BlockStorage \<Rightarrow> string" where
  "BlockPath bid st = bs_data_dir st @ ''/'' @ show_int64 bid @ ''.blk''"

definition StoreBlock :: "Block \<Rightarrow> byte list \<Rightarrow> BlockStorage \<Rightarrow> Status \<times> BlockStorage" where
  "StoreBlock block data st =
     (let path = BlockPath (block_id block) st
      in if \<not> bs_can_create st path then (Status_IOError (''cannot create block file: '' @ path), st)
         else (Status_OK, st\<lparr>bs_files := (bs_files st)(path \<mapsto> data)\<rparr>))"

definition ReadBlock_file :: "int64 \<Rightarrow> byte list \<Rightarrow> BlockStorage \<Rightarrow> Status \<times> byte list" where
  "ReadBlock_file bid data st =
     (let path = BlockPath bid st
      in case bs_files st path of
           None \<Rightarrow> (Status_IOError (''cannot open block: '' @ path), data)
         | Some content \<Rightarrow> (Status_OK, content))"

definition RemoveBlock :: "int64 \<Rightarrow> BlockStorage \<Rightarrow> Status \<times> BlockStorage" where
  "RemoveBlock bid st =
     (let path = BlockPath bid st
      in if bs_files st path = None then (Status_IOError (''cannot remove block: '' @ path), st)
         else (Status_OK, st\<lparr>bs_files := (bs_files st)(path := None)\<rparr>))"

text \<open>\<open>space\<close> is the answer of the file system: capacity and available bytes, or an error.\<close>

definition GetCapacity :: "(int64 \<times> int64) option \<Rightarrow> int64" where
  "GetCapacity space = (case space of None \<Rightarrow> 0 | Some (capacity, available) \<Rightarrow> capacity)"

definition GetRemaining :: "(int64 \<times> int64) option \<Rightarrow> int64" where
  "GetRemaining space = (case space of None \<Rightarrow> 0 | Some (capacity, available) \<Rightarrow> available)"

text \<open>The extension and the stem of a file name (one dot at the very front does not count).\<close>

definition extension :: "string \<Rightarrow> string" where
  "extension name = (case rfind CHR ''.'' name of
     None \<Rightarrow> '''' | Some pos \<Rightarrow> if pos = 0 \<or> name = ''..'' then '''' else drop pos name)"

definition stem :: "string \<Rightarrow> string" where
  "stem name = (case rfind CHR ''.'' name of
     None \<Rightarrow> name | Some pos \<Rightarrow> if pos = 0 \<or> name = ''..'' then name else take pos name)"

text \<open>A directory entry: the file name and, for a regular file, its size.\<close>

type_synonym dir_entry = "string \<times> nat option"

fun GetBlockReport :: "dir_entry list \<Rightarrow> Block list result" where
  "GetBlockReport [] = Inr []"
| "GetBlockReport ((name, kind) # entries) =
     (case kind of
        None \<Rightarrow> GetBlockReport entries
      | Some sz \<Rightarrow>
          if extension name \<noteq> ''.blk'' then GetBlockReport entries
          else (case stoll (stem name) of
                 Inl e \<Rightarrow> Inl e
               | Inr bid \<Rightarrow>
                   (case GetBlockReport entries of
                      Inl e \<Rightarrow> Inl e
                    | Inr blocks \<Rightarrow> Inr (Block_default\<lparr>block_id := bid, num_bytes := word_of_nat sz\<rparr> # blocks))))"

section \<open>Paths of blocks\<close>

lemma show_int64_inj: "show_int64 a = show_int64 b \<longleftrightarrow> a = b"
  by (metis stoll_show_int64 sum.inject(2))

lemma BlockPath_inj: "BlockPath a st = BlockPath b st \<longleftrightarrow> a = b"
  by (simp add: BlockPath_def show_int64_inj)

lemma BlockPath_files [simp]: "BlockPath a (st\<lparr>bs_files := f\<rparr>) = BlockPath a st"
  by (simp add: BlockPath_def)

section \<open>The contract of a block store\<close>

locale block_store =
  fixes store :: "int64 \<Rightarrow> byte list \<Rightarrow> 's \<Rightarrow> 's"
    and fetch :: "int64 \<Rightarrow> 's \<Rightarrow> byte list option"
    and remove :: "int64 \<Rightarrow> 's \<Rightarrow> 's"
    and ok :: "'s \<Rightarrow> bool"
  assumes fetch_store: "ok s \<Longrightarrow> fetch b (store a d s) = (if b = a then Some d else fetch b s)"
    and fetch_remove: "fetch b (remove a s) = (if b = a then None else fetch b s)"
    and store_ok: "ok s \<Longrightarrow> ok (store a d s)"
begin

text \<open>After a sequence of stores the last one to each block counts.\<close>

lemma fetch_stores:
  "ok s \<Longrightarrow> fetch b (fold (\<lambda>(a, d). store a d) kvs s)
     = (case map_of (rev kvs) b of Some d \<Rightarrow> Some d | None \<Rightarrow> fetch b s)"
  by (induction kvs arbitrary: s)
     (auto simp: fetch_store store_ok map_add_def split: option.split)

lemma remove_undoes_store: "ok s \<Longrightarrow> fetch a s = None \<Longrightarrow> fetch b (remove a (store a d s)) = fetch b s"
  by (simp add: fetch_remove fetch_store)

end

definition fetch_block :: "int64 \<Rightarrow> BlockStorage \<Rightarrow> byte list option" where
  "fetch_block bid st = (let (s, data) = ReadBlock_file bid [] st in if Status_ok s then Some data else None)"

text \<open>All block files of the directory can be created.\<close>

definition writable :: "BlockStorage \<Rightarrow> bool" where
  "writable st \<longleftrightarrow> (\<forall>bid. bs_can_create st (BlockPath bid st))"

lemma fetch_block_file: "fetch_block bid st = bs_files st (BlockPath bid st)"
  by (simp add: fetch_block_def ReadBlock_file_def Let_def split: option.split)

lemma writable_files [simp]: "writable (st\<lparr>bs_files := f\<rparr>) \<longleftrightarrow> writable st"
  by (simp add: writable_def)

lemma StoreBlock_writable:
  "writable st \<Longrightarrow> StoreBlock b d st = (Status_OK, st\<lparr>bs_files := (bs_files st)(BlockPath (block_id b) st \<mapsto> d)\<rparr>)"
  by (simp add: StoreBlock_def Let_def writable_def)

interpretation storage: block_store "\<lambda>bid d st. snd (StoreBlock (Block_Generate bid n) d st)" fetch_block
  "\<lambda>bid st. snd (RemoveBlock bid st)" writable for n
  by unfold_locales
     (auto simp: StoreBlock_writable fetch_block_file RemoveBlock_def Let_def BlockPath_inj Block_Generate_def)

section \<open>Properties\<close>

text \<open>C25. Storing blocks in a writable directory and reading them back: after any sequence of stores, each
  reported as OK, \<open>ReadBlock\<close> of an identifier returns the bytes of the last store to it, or what was
  there before if there was none; and removing a new block restores every other block.\<close>

theorem block_storage_contract:
  assumes "writable st"
  shows "fetch_block b (fold (\<lambda>(a, d) st. snd (StoreBlock (Block_Generate a n) d st)) kvs st)
      = (case map_of (rev kvs) b of Some d \<Rightarrow> Some d | None \<Rightarrow> fetch_block b st)
    \<and> fst (StoreBlock (Block_Generate a n) d st) = Status_OK
    \<and> (fetch_block a st = None \<longrightarrow>
        fetch_block b (snd (RemoveBlock a (snd (StoreBlock (Block_Generate a n) d st)))) = fetch_block b st)"
  using storage.fetch_stores [OF assms, of b n kvs] storage.remove_undoes_store [OF assms, of a b n d]
    StoreBlock_writable [OF assms]
  by (simp add: case_prod_unfold)

theorem block_storage_contract_witness:
  "fetch_block 7 (fold (\<lambda>(a, d) st. snd (StoreBlock (Block_Generate a 0) d st)) [(7, [1]), (-7, [2]), (7, [3])]
     \<lparr>bs_data_dir = ''d'', bs_files = Map.empty, bs_can_create = (\<lambda>_. True)\<rparr>) = Some [3]"
  using block_storage_contract [of "\<lparr>bs_data_dir = ''d'', bs_files = Map.empty, bs_can_create = (\<lambda>_. True)\<rparr>" 7 0
      "[(7, [1]), (-7, [2]), (7, [3])]"]
  by (simp add: writable_def)

lemma rfind_dot_blk: "rfind CHR ''.'' (show_int64 bid @ ''.blk'') = Some (length (show_int64 bid))"
  using rfind_last [of "CHR ''.''" "''blk''" "show_int64 bid"] by simp

lemma block_file_name:
  "extension (show_int64 bid @ ''.blk'') = ''.blk''" "stem (show_int64 bid @ ''.blk'') = show_int64 bid"
proof -
  have "show_int64 bid \<noteq> []" by (simp add: show_int64_def)
  moreover from this have "show_int64 bid @ ''.blk'' \<noteq> ''..''" by (cases "show_int64 bid") auto
  ultimately show "extension (show_int64 bid @ ''.blk'') = ''.blk''" "stem (show_int64 bid @ ''.blk'') = show_int64 bid"
    by (simp_all add: extension_def stem_def rfind_dot_blk)
qed

text \<open>Is the entry a block file?\<close>

definition foreign :: "dir_entry \<Rightarrow> bool" where
  "foreign e \<longleftrightarrow> snd e = None \<or> extension (fst e) \<noteq> ''.blk''"

definition block_entry :: "int64 \<times> nat \<Rightarrow> dir_entry" where
  "block_entry b = (show_int64 (fst b) @ ''.blk'', Some (snd b))"



text \<open>A stray file \<open>x.blk\<close> makes the report raise.\<close>

lemma GetBlockReport_stray: "GetBlockReport [(''x.blk'', Some 1)] = Inl InvalidArgument"
  by code_simp

end
