(* ===== verification/DataXceive.thy ===== *)
theory DataXceive
  imports BlockStorage Rpc
begin

text \<open>
  Model of \<open>DataXceiveServer\<close> (\<^verbatim>\<open>src/ndfs/data_xceive_server.h\<close>): the block transfer protocol of a DataNode. One
  connection carries one operation. \<open>ReadFull\<close> and \<open>WriteFull\<close> are the same loops as in the RPC classes,
  and the acceptor, the workers and their queue are those of \<open>RpcQueue\<close>. A \<open>std::vector\<close> of more than
  \<open>PTRDIFF_MAX\<close> bytes raises, which no one catches.
\<close>

definition kOpWriteBlock :: byte where
  "kOpWriteBlock = 80"

definition kOpReadBlock :: byte where
  "kOpReadBlock = 81"

text \<open>A 64-bit field as it is read from the socket and converted.\<close>

definition net64 :: "byte list \<Rightarrow> int64" where
  "net64 raw = NetToHost64 host (of_mem host raw)"

text \<open>A 64-bit field as it is converted and sent.\<close>

definition wire64 :: "int64 \<Rightarrow> byte list" where
  "wire64 v = mem_of host 8 (HostToNet64 host v)"

definition Xceive_HandleConnection :: "conn \<Rightarrow> BlockStorage \<Rightarrow> (conn \<times> BlockStorage) result" where
  "Xceive_HandleConnection c st =
     (let ((ok, opb), c1) = ReadFull 1 c
      in if \<not> ok then Inr (c1, st)
         else if opb = [kOpWriteBlock] then
           (let ((ok1, raw_id), c2) = ReadFull 8 c1
            in if \<not> ok1 then Inr (c2, st)
               else
                 let ((ok2, raw_len), c3) = ReadFull 8 c2
                 in if \<not> ok2 then Inr (c3, st)
                    else
                      let block_id = net64 raw_id; block_len = net64 raw_len;
                          len = unat block_len
                      in if len \<ge> 2 ^ 63 then Inl LengthError
                         else
                           let ((ok3, data), c4) = ReadFull len c3
                           in if \<not> ok3 then Inr (c4, st)
                              else
                                let b = \<lparr>block_id = block_id, num_bytes = block_len, generation_stamp = 0\<rparr>;
                                    (status, st') = StoreBlock b data st;
                                    (sent, c5) = WriteFull [1] c4
                                in Inr (c5, st'))
         else if opb = [kOpReadBlock] then
           (let ((ok1, raw_id), c2) = ReadFull 8 c1
            in if \<not> ok1 then Inr (c2, st)
               else
                 let block_id = net64 raw_id;
                     (status, data) = ReadBlock_file block_id [] st
                 in if \<not> Status_ok status then Inr (c2, st)
                    else
                      let (sent1, c3) = WriteFull (wire64 (word_of_nat (length data))) c2;
                          (sent2, c4) = WriteFull data c3
                      in Inr (c4, st))
         else Inr (c1, st))"

section \<open>The fields on the wire\<close>

lemma wire64_enc: "wire64 v = enc_long v"
  by (simp add: wire64_def host_def HostToNet64_LE)

lemma net64_wire64 [simp]: "net64 (wire64 v) = v"
  by (simp add: net64_def wire64_def)

lemma length_wire64 [simp]: "length (wire64 v) = 8"
  by (simp add: wire64_def)

section \<open>The operations\<close>

definition write_request :: "int64 \<Rightarrow> byte list \<Rightarrow> byte list" where
  "write_request bid data = [kOpWriteBlock] @ wire64 bid @ wire64 (word_of_nat (length data)) @ data"

definition read_request :: "int64 \<Rightarrow> byte list" where
  "read_request bid = [kOpReadBlock] @ wire64 bid"

definition read_reply :: "byte list \<Rightarrow> byte list" where
  "read_reply data = wire64 (word_of_nat (length data)) @ data"

lemma xceive_write:
  assumes "intact (cn_in c)" "concat (cn_in c) = write_request bid data @ rest" "length data < 2 ^ 63"
    and "steady (cn_room c)"
  obtains c' where "Xceive_HandleConnection c st
      = Inr (c', snd (StoreBlock (Block_Generate bid (word_of_nat (length data))) data st))"
    "cn_out c' = cn_out c @ [1]"
proof -
  let ?len = "word_of_nat (length data) :: int64"
  have len: "unat ?len = length data" using assms(3) by (simp add: unat_of_nat)
  obtain s1 where 1: "ReadFull 1 c = ((True, [kOpWriteBlock]), c\<lparr>cn_in := s1\<rparr>)"
    "intact s1" "concat s1 = wire64 bid @ wire64 ?len @ data @ rest"
    by (rule ReadFull_ok [OF assms(1), of "[kOpWriteBlock]"]) (use assms(2) in \<open>simp_all add: write_request_def\<close>)
  obtain s2 where 2: "ReadFull 8 (c\<lparr>cn_in := s1\<rparr>) = ((True, wire64 bid), c\<lparr>cn_in := s2\<rparr>)"
    "intact s2" "concat s2 = wire64 ?len @ data @ rest"
    by (rule ReadFull_ok [of "c\<lparr>cn_in := s1\<rparr>" "wire64 bid"]) (use 1 in simp_all)
  obtain s3 where 3: "ReadFull 8 (c\<lparr>cn_in := s2\<rparr>) = ((True, wire64 ?len), c\<lparr>cn_in := s3\<rparr>)"
    "intact s3" "concat s3 = data @ rest"
    by (rule ReadFull_ok [of "c\<lparr>cn_in := s2\<rparr>" "wire64 ?len"]) (use 2 in simp_all)
  obtain s4 where 4: "ReadFull (length data) (c\<lparr>cn_in := s3\<rparr>) = ((True, data), c\<lparr>cn_in := s4\<rparr>)"
    by (rule ReadFull_ok [of "c\<lparr>cn_in := s3\<rparr>" data]) (use 3 in simp_all)
  obtain room where 5: "WriteFull [1] (c\<lparr>cn_in := s4\<rparr>)
      = (True, c\<lparr>cn_in := s4, cn_room := room, cn_out := cn_out c @ [1]\<rparr>)"
    by (rule WriteFull_ok [of "c\<lparr>cn_in := s4\<rparr>" "[1]"]) (use assms(4) in simp_all)
  have "Xceive_HandleConnection c st
      = Inr (c\<lparr>cn_in := s4, cn_room := room, cn_out := cn_out c @ [1]\<rparr>,
             snd (StoreBlock (Block_Generate bid ?len) data st))"
    using 1(1) 2(1) 3(1) 4 5 len assms(3)
    by (simp add: Xceive_HandleConnection_def Let_def case_prod_beta Block_Generate_def)
  then show thesis using that by simp
qed

lemma xceive_read:
  assumes "intact (cn_in c)" "concat (cn_in c) = read_request bid @ rest" "steady (cn_room c)"
  obtains c' where "Xceive_HandleConnection c st = Inr (c', st)"
    "cn_out c' = cn_out c @ (case fetch_block bid st of Some data \<Rightarrow> read_reply data | None \<Rightarrow> [])"
proof -
  obtain s1 where 1: "ReadFull 1 c = ((True, [kOpReadBlock]), c\<lparr>cn_in := s1\<rparr>)"
    "intact s1" "concat s1 = wire64 bid @ rest"
    by (rule ReadFull_ok [OF assms(1), of "[kOpReadBlock]"]) (use assms(2) in \<open>simp_all add: read_request_def\<close>)
  obtain s2 where 2: "ReadFull 8 (c\<lparr>cn_in := s1\<rparr>) = ((True, wire64 bid), c\<lparr>cn_in := s2\<rparr>)"
    by (rule ReadFull_ok [of "c\<lparr>cn_in := s1\<rparr>" "wire64 bid"]) (use 1 in simp_all)
  have ops: "kOpReadBlock \<noteq> kOpWriteBlock" by (simp add: kOpReadBlock_def kOpWriteBlock_def)
  show thesis
  proof (cases "bs_files st (BlockPath bid st)")
    case None
    then have "Xceive_HandleConnection c st = Inr (c\<lparr>cn_in := s2\<rparr>, st)"
      using 1(1) 2 ops by (simp add: Xceive_HandleConnection_def Let_def ReadBlock_file_def)
    then show thesis using that None by (simp add: fetch_block_file)
  next
    case (Some data)
    let ?len = "wire64 (word_of_nat (length data))"
    obtain room1 where 3: "WriteFull ?len (c\<lparr>cn_in := s2\<rparr>)
        = (True, c\<lparr>cn_in := s2, cn_room := room1, cn_out := cn_out c @ ?len\<rparr>)" "steady room1"
      by (rule WriteFull_ok [of "c\<lparr>cn_in := s2\<rparr>" ?len]) (use assms(3) in simp_all)
    obtain room2 where 4: "WriteFull data (c\<lparr>cn_in := s2, cn_room := room1, cn_out := cn_out c @ ?len\<rparr>)
        = (True, c\<lparr>cn_in := s2, cn_room := room2, cn_out := (cn_out c @ ?len) @ data\<rparr>)"
      by (rule WriteFull_ok [of "c\<lparr>cn_in := s2, cn_room := room1, cn_out := cn_out c @ ?len\<rparr>" data]) (use 3 in simp_all)
    have "Xceive_HandleConnection c st
        = Inr (c\<lparr>cn_in := s2, cn_room := room2, cn_out := (cn_out c @ ?len) @ data\<rparr>, st)"
      using 1(1) 2 3(1) 4 ops Some by (simp add: Xceive_HandleConnection_def Let_def ReadBlock_file_def)
    then show thesis using that Some by (simp add: fetch_block_file read_reply_def)
  qed
qed

section \<open>Properties\<close>

text \<open>C30. A block written to a DataNode over one connection is read back over another: with any cutting of
  the streams into segments, the write is acknowledged with the byte 1, and a later read of the same
  identifier gets the length and exactly the bytes, while a read of any other identifier gets what it
  got before.\<close>

theorem xceive_write_read:
  assumes "intact (cn_in c)" "concat (cn_in c) = write_request bid data" "steady (cn_room c)"
    and "length data < 2 ^ 63" "writable st"
    and "intact (cn_in d)" "concat (cn_in d) = read_request bid'" "steady (cn_room d)"
  shows "\<exists>c' st' d'. Xceive_HandleConnection c st = Inr (c', st') \<and> cn_out c' = cn_out c @ [1]
    \<and> Xceive_HandleConnection d st' = Inr (d', st')
    \<and> cn_out d' = cn_out d @ (if bid' = bid then read_reply data
                              else case fetch_block bid' st of Some x \<Rightarrow> read_reply x | None \<Rightarrow> [])"
proof -
  let ?st = "snd (StoreBlock (Block_Generate bid (word_of_nat (length data))) data st)"
  obtain c' where c': "Xceive_HandleConnection c st = Inr (c', ?st)" "cn_out c' = cn_out c @ [1]"
    by (rule xceive_write [OF assms(1), of bid data "[]" st]) (use assms in simp_all)
  obtain d' where d': "Xceive_HandleConnection d ?st = Inr (d', ?st)"
    "cn_out d' = cn_out d @ (case fetch_block bid' ?st of Some x \<Rightarrow> read_reply x | None \<Rightarrow> [])"
    by (rule xceive_read [OF assms(6), of bid' "[]" ?st]) (use assms in simp_all)
  have "fetch_block bid' ?st = (if bid' = bid then Some data else fetch_block bid' st)"
    by (rule storage.fetch_store [OF assms(5)])
  then show ?thesis using c' d' by (intro exI [of _ c'] exI [of _ ?st] exI [of _ d']) auto
qed

theorem xceive_write_read_witness:
  "\<exists>c' st' d'. Xceive_HandleConnection \<lparr>cn_in = [[80], write_request 7 [5, 6] ! 1 # drop 2 (write_request 7 [5, 6])], cn_room = [], cn_out = []\<rparr>
       \<lparr>bs_data_dir = ''d'', bs_files = Map.empty, bs_can_create = (\<lambda>_. True)\<rparr> = Inr (c', st')
    \<and> Xceive_HandleConnection \<lparr>cn_in = [read_request 7], cn_room = [1], cn_out = []\<rparr> st' = Inr (d', st')
    \<and> cn_out d' = [0, 0, 0, 0, 0, 0, 0, 2, 5, 6]"
proof -
  have w: "write_request 7 [5, 6] = 80 # write_request 7 [5, 6] ! 1 # drop 2 (write_request 7 [5, 6])"
    by (simp add: write_request_def kOpWriteBlock_def wire64_enc mem_of_def nat_bytes_numeral)
  have "read_reply [5, 6] = [0, 0, 0, 0, 0, 0, 0, 2, 5, 6]"
    by (simp add: read_reply_def wire64_enc mem_of_def nat_bytes_numeral)
  moreover have "read_request 7 \<noteq> []" by (simp add: read_request_def)
  ultimately show ?thesis
    using xceive_write_read [of "\<lparr>cn_in = [[80], write_request 7 [5, 6] ! 1 # drop 2 (write_request 7 [5, 6])], cn_room = [], cn_out = []\<rparr>"
        7 "[5, 6]" "\<lparr>bs_data_dir = ''d'', bs_files = Map.empty, bs_can_create = (\<lambda>_. True)\<rparr>"
        "\<lparr>cn_in = [read_request 7], cn_room = [1], cn_out = []\<rparr>" 7] w
    by (fastforce simp: intact_def steady_def writable_def)
qed

text \<open>The acknowledgement says nothing about the disk: when the block file cannot be created the server
  still answers 1, and the block is not stored.\<close>

lemma xceive_acks_failed_store:
  assumes "intact (cn_in c)" "concat (cn_in c) = write_request bid data" "steady (cn_room c)"
    and "length data < 2 ^ 63" "\<not> bs_can_create st (BlockPath bid st)"
  shows "\<exists>c'. Xceive_HandleConnection c st = Inr (c', st) \<and> cn_out c' = cn_out c @ [1]"
proof -
  have "snd (StoreBlock (Block_Generate bid n) data st) = st" for n
    using assms(5) by (simp add: StoreBlock_def Block_Generate_def Let_def)
  then show ?thesis using xceive_write [OF assms(1), of bid data "[]" st] assms by auto
qed

end
