(* ===== verification/RpcExchange.thy ===== *)
theory RpcExchange
  imports Rpc
begin

text \<open>
  One remote call over a new connection, both ends together: \<open>CallRaw\<close> of the client against
  \<open>HandleConnection\<close> of the server, with the streams between them. A server whose handler raises is gone:
  the client then sees the end of the stream.
\<close>

definition fresh_conn :: "byte list list \<Rightarrow> conn" where
  "fresh_conn segs = \<lparr>cn_in = segs, cn_room = [], cn_out = []\<rparr>"

text \<open>The bytes that the client sends do not depend on the answer.\<close>

definition exchange :: "'s handlers \<Rightarrow> int32 \<Rightarrow> byte list \<Rightarrow> 's \<Rightarrow> (Status \<times> byte list) \<times> 's" where
  "exchange hs m req s =
     (let sent = cn_out (snd (CallRaw m req [] (fresh_conn [])))
      in case HandleConnection 1 hs (fresh_conn [sent]) s of
           Inl e \<Rightarrow> (fst (CallRaw m req [] (fresh_conn [])), s)
         | Inr (srv, s') \<Rightarrow> (fst (CallRaw m req [] (fresh_conn [cn_out srv])), s'))"

lemma Data_write [simp]: "OutputBuffer_Data out = ob_buffer out"
  by (simp add: OutputBuffer_Data_def)

lemma new_buffer [simp]: "ob_buffer OutputBuffer_new = []"
  by (simp add: OutputBuffer_new_def)

lemma fresh_conn_simps [simp]:
  "cn_in (fresh_conn segs) = segs" "cn_out (fresh_conn segs) = []" "steady (cn_room (fresh_conn segs))"
  by (simp_all add: fresh_conn_def steady_def)

lemma mem_of_nonempty: "enc_int v \<noteq> []"
  by (metis length_mem_of list.size(3) zero_neq_numeral)

lemma CallRaw_sends: "cn_out (snd (CallRaw m req old (fresh_conn []))) = frame (request_message m req)"
proof -
  let ?f = "frame (request_message m req)"
  obtain room where w: "WriteFull ?f (fresh_conn []) = (True, (fresh_conn [])\<lparr>cn_room := room, cn_out := [] @ ?f\<rparr>)"
    by (rule WriteFull_ok [of "fresh_conn []" ?f]) simp_all
  obtain segs where r: "ReadFull 4 ((fresh_conn [])\<lparr>cn_room := room, cn_out := [] @ ?f\<rparr>)
      = ((False, []), (fresh_conn [])\<lparr>cn_room := room, cn_out := [] @ ?f, cn_in := segs\<rparr>)"
    by (rule ReadFull_fail [of "(fresh_conn [])\<lparr>cn_room := room, cn_out := [] @ ?f\<rparr>" 4]) (simp_all add: intact_def)
  have outer: "OutputBuffer_Data (WriteRawBytes (OutputBuffer_Data (WriteRawBytes req (WriteInt m OutputBuffer_new)))
      (WriteInt (word_of_nat (OutputBuffer_Size (WriteRawBytes req (WriteInt m OutputBuffer_new)))) OutputBuffer_new)) = ?f"
    by (simp add: OutputBuffer_Size_def frame_def request_message_def)
  show ?thesis unfolding CallRaw_def Let_def outer using w r by simp
qed

lemma exchange_delivers:
  assumes "dispatch hs (request_message m req) s = Inr (resp, s')"
    and "length req + 4 \<le> max_message" "length (ob_buffer resp) < 2 ^ 32"
  shows "exchange hs m req s = ((Status_OK, ob_buffer resp), s')"
proof -
  let ?f = "frame (request_message m req)"
  have f: "intact [?f]" "concat [?f] = ?f @ []" "message_ok (request_message m req)"
    using assms(2) by (auto simp: intact_def frame_def message_ok_def request_message_def mem_of_nonempty)
  obtain srv where srv: "HandleConnection (Suc 0) hs (fresh_conn [?f]) s = HandleConnection 0 hs srv s'"
    "cn_out srv = frame (ob_buffer resp)"
    by (rule HandleConnection_message [of "fresh_conn [?f]" "request_message m req" "[]" hs "s" resp s' 0])
      (use f assms(1) in simp_all)
  let ?g = "frame (ob_buffer resp)"
  have "\<exists>c'. CallRaw m req [] (fresh_conn [?g]) = ((Status_OK, ob_buffer resp), c')"
    using CallRaw_reply [of "fresh_conn [?g]" "ob_buffer resp" "[]" m req "[]"] assms(3)
    by (auto simp: intact_def frame_def mem_of_nonempty)
  then show ?thesis
    using srv by (auto simp: exchange_def CallRaw_sends HandleConnection.simps(1))
qed

end
