(* ===== verification/DfsClient.thy ===== *)
theory DfsClient
  imports NameNode DataXceive RpcExchange
begin

text \<open>
  Model of \<^verbatim>\<open>src/ndfs/dfs_client.h\<close>: the client's calls to the NameNode and its block transfers to the DataNodes. What
  is on the other side of its sockets is a parameter, the record \<open>network\<close> on a world \<open>'w\<close>: \<open>net_call\<close> is one
  RPC over the connection to the NameNode (the \<open>CallRaw\<close> of \<open>RpcClient\<close>), and \<open>net_dial\<close> is one connection
  to a DataNode: the bytes that the client sends on it, and the bytes that arrive before the stream
  ends; it is \<open>None\<close> if \<open>connect\<close> fails.

  The locale \<open>cluster_net\<close> states what the client relies on, a NameNode and DataNodes behind the network;
  the theory \<open>Cluster\<close> builds such a network from the models of the servers and interprets it.

  The loop of \<open>WriteFile\<close> does not end for a block size of 0; its model has a bound on the rounds.
\<close>

record 'w network =
  net_call :: "int32 \<Rightarrow> byte list \<Rightarrow> 'w \<Rightarrow> (Status \<times> byte list) \<times> 'w"
  net_dial :: "string \<Rightarrow> int16 \<Rightarrow> byte list \<Rightarrow> 'w \<Rightarrow> (byte list \<times> 'w) option"

section \<open>Namespace operations\<close>

definition client_Connect :: "int \<Rightarrow> bool \<Rightarrow> RpcClient \<Rightarrow> Status \<times> RpcClient" where
  "client_Connect fd connects rc =
     (let (ok, rc1) = Connect fd connects rc
      in (if ok then Status_OK else Status_IOError ''cannot connect to NameNode'', rc1))"

definition client_Mkdirs :: "'w network \<Rightarrow> string \<Rightarrow> 'w \<Rightarrow> (Status \<times> 'w) result" where
  "client_Mkdirs net path w =
     (let req = OutputBuffer_Data (WriteString path OutputBuffer_new);
          ((st, resp), w1) = net_call net (op_id kMkdirs) req w
      in if \<not> Status_ok st then Inr (st, w1)
         else case ReadBool (InputBuffer_new resp) of
                Inl e \<Rightarrow> Inl e
              | Inr (ok, _) \<Rightarrow> Inr (if ok then Status_OK else Status_IOError (''mkdirs failed: '' @ path), w1))"

definition client_Delete :: "'w network \<Rightarrow> string \<Rightarrow> 'w \<Rightarrow> (Status \<times> 'w) result" where
  "client_Delete net path w =
     (let req = OutputBuffer_Data (WriteString path OutputBuffer_new);
          ((st, resp), w1) = net_call net (op_id kDelete) req w
      in if \<not> Status_ok st then Inr (st, w1)
         else case ReadBool (InputBuffer_new resp) of
                Inl e \<Rightarrow> Inl e
              | Inr (ok, _) \<Rightarrow> Inr (if ok then Status_OK else Status_IOError (''delete failed: '' @ path), w1))"

definition client_List :: "'w network \<Rightarrow> string \<Rightarrow> 'w \<Rightarrow> (string list \<times> 'w) result" where
  "client_List net path w =
     (let req = OutputBuffer_Data (WriteString path OutputBuffer_new);
          ((st, resp), w1) = net_call net (op_id kGetListing) req w
      in if \<not> Status_ok st then Inr ([], w1)
         else case bindr ReadInt (\<lambda>n. read_n ReadString (loop_count n)) (InputBuffer_new resp) of
                Inl e \<Rightarrow> Inl e
              | Inr (items, _) \<Rightarrow> Inr (items, w1))"

section \<open>Writing a file\<close>

text \<open>The block goes to the first target only; a failed connection is ignored, and so is the answer.\<close>

definition send_block :: "'w network \<Rightarrow> Block \<Rightarrow> byte list \<Rightarrow> DataNodeInfo list \<Rightarrow> 'w \<Rightarrow> 'w" where
  "send_block net block chunk targets w =
     (case targets of
        [] \<Rightarrow> w
      | dn # _ \<Rightarrow>
          (case net_dial net (dn_host dn) (ucast (dn_port dn)) (write_request (block_id block) chunk) w of
             None \<Rightarrow> w
           | Some (ack, w1) \<Rightarrow> w1))"

definition confirm_block :: "'w network \<Rightarrow> Block \<Rightarrow> nat \<Rightarrow> DataNodeInfo \<Rightarrow> 'w \<Rightarrow> 'w" where
  "confirm_block net block chunk_size dn w =
     (let confirm = WriteString '''' (WriteLong (generation_stamp block) (WriteLong (word_of_nat chunk_size)
                      (WriteLong (block_id block) (WriteString (dn_name dn) OutputBuffer_new))))
      in snd (net_call net (op_id kBlockReceived) (OutputBuffer_Data confirm) w))"

fun write_loop :: "nat \<Rightarrow> 'w network \<Rightarrow> nat \<Rightarrow> string \<Rightarrow> bool \<Rightarrow> bool \<Rightarrow> byte list \<Rightarrow> 'w \<Rightarrow> (Status \<times> 'w) result option" where
  "write_loop 0 net block_size path overwrite first_block rest w = None"
| "write_loop (Suc n) net block_size path overwrite first_block rest w =
     (if rest = [] then Some (Inr (Status_OK, w))
      else
        let chunk_size = min block_size (length rest);
            opc = (if first_block then op_id kStartFile else op_id kAddBlock);
            req0 = WriteString path OutputBuffer_new;
            req = (if first_block then WriteBool overwrite req0 else req0);
            ((st, resp), w1) = net_call net opc (OutputBuffer_Data req) w
        in if \<not> Status_ok st then Some (Inr (st, w1))
           else case ReadLocated (InputBuffer_new resp) of
                  Inl e \<Rightarrow> Some (Inl e)
                | Inr ((block, targets), _) \<Rightarrow>
                    let w2 = send_block net block (take chunk_size rest) targets w1;
                        w3 = fold (confirm_block net block chunk_size) targets w2
                    in write_loop n net block_size path overwrite False (drop chunk_size rest) w3)"

definition WriteFile :: "nat \<Rightarrow> 'w network \<Rightarrow> int64 \<Rightarrow> string \<Rightarrow> byte list \<Rightarrow> bool \<Rightarrow> 'w \<Rightarrow> (Status \<times> 'w) result option" where
  "WriteFile rounds net block_size path data overwrite w =
     (if data = [] then Some (Inr (Status_OK, w))
      else write_loop rounds net (unat block_size) path overwrite True data w)"

section \<open>Reading a file\<close>

text \<open>One block from the first target that delivers it. The new size of the buffer is computed in \<open>size_t\<close>; a
  length that makes it wrap around shrinks the buffer, and bytes received are then stored outside.\<close>

fun read_block :: "'w network \<Rightarrow> int64 \<Rightarrow> DataNodeInfo list \<Rightarrow> byte list \<Rightarrow> 'w \<Rightarrow> (bool \<times> byte list \<times> 'w) result" where
  "read_block net bid [] data w = Inr (False, data, w)"
| "read_block net bid (dn # dns) data w =
     (case net_dial net (dn_host dn) (ucast (dn_port dn)) (read_request bid) w of
        None \<Rightarrow> read_block net bid dns data w
      | Some (reply, w1) \<Rightarrow>
          if length reply < 8 then read_block net bid dns data w1
          else
            let data_len = unat (net64 (take 8 reply));
                rest = drop 8 reply;
                prev_size = length data;
                new_size = (prev_size + data_len) mod size_max
            in if new_size \<ge> 2 ^ 63 then Inl LengthError
               else if new_size < prev_size + data_len then
                 (if rest \<noteq> [] then Inl Undefined
                  else read_block net bid dns (fill prev_size [] (take new_size data)) w1)
               else if length rest < data_len then read_block net bid dns data w1
               else Inr (True, data @ take data_len rest, w1))"

fun read_loop :: "nat \<Rightarrow> 'w network \<Rightarrow> InputBuffer \<Rightarrow> byte list \<Rightarrow> 'w \<Rightarrow> ((Status \<times> byte list) \<times> 'w) result" where
  "read_loop 0 net inb data w = Inr ((Status_OK, data), w)"
| "read_loop (Suc n) net inb data w =
     (case ReadLocated inb of
        Inl e \<Rightarrow> Inl e
      | Inr ((block, targets), inb1) \<Rightarrow>
          (case read_block net (block_id block) targets data w of
             Inl e \<Rightarrow> Inl e
           | Inr (ok, data1, w1) \<Rightarrow>
               if \<not> ok then Inr ((Status_IOError (''cannot read block '' @ show_int64 (block_id block)), data1), w1)
               else read_loop n net inb1 data1 w1))"

definition ReadFile :: "'w network \<Rightarrow> string \<Rightarrow> byte list \<Rightarrow> 'w \<Rightarrow> ((Status \<times> byte list) \<times> 'w) result" where
  "ReadFile net path data w =
     (let req = OutputBuffer_Data (WriteString path OutputBuffer_new);
          ((st, resp), w1) = net_call net (op_id kGetBlocks) req w
      in if \<not> Status_ok st then Inr ((st, data), w1)
         else case ReadInt (InputBuffer_new resp) of
                Inl e \<Rightarrow> Inl e
              | Inr (block_count, inb) \<Rightarrow> read_loop (loop_count block_count) net inb [] w1)"

section \<open>What the client relies on\<close>

locale cluster_net =
  fixes net :: "'w network"
    and nn :: "'w \<Rightarrow> NameNode"
    and store :: "'w \<Rightarrow> string \<times> int16 \<rightharpoonup> BlockStorage"
  assumes call: "dispatch nn_handlers (request_message m req) (nn w) = Inr (resp, nn') \<Longrightarrow>
      length req + 4 \<le> max_message \<Longrightarrow> length (ob_buffer resp) < 2 ^ 32 \<Longrightarrow>
      \<exists>w'. net_call net m req w = ((Status_OK, ob_buffer resp), w') \<and> nn w' = nn' \<and> store w' = store w"
    and dial_write: "store w (h, p) = Some st \<Longrightarrow> length data < 2 ^ 63 \<Longrightarrow>
      \<exists>ack w'. net_dial net h p (write_request bid data) w = Some (ack, w') \<and> nn w' = nn w
        \<and> store w' = (store w)((h, p) \<mapsto> snd (StoreBlock (Block_Generate bid (word_of_nat (length data))) data st))"
    and dial_read: "store w (h, p) = Some st \<Longrightarrow> fetch_block bid st = Some data \<Longrightarrow>
      \<exists>w'. net_dial net h p (read_request bid) w = Some (read_reply data, w') \<and> nn w' = nn w \<and> store w' = store w"

text \<open>The requests as their handlers read them.\<close>

lemma reads_req_StartFile:
  "fits_int32 path \<Longrightarrow> reads req_StartFile (enc_string path @ [if ow then 1 else 0]) (path, ow)"
  unfolding req_StartFile_def
  by - (rule reads_bind reads_bind_return codec_intros | simp only: prod.inject)+

lemma reads_req_BlockReceived:
  "fits_int32 name \<Longrightarrow> fits_int32 hint \<Longrightarrow>
   reads req_BlockReceived (enc_string name @ enc_Block b @ enc_string hint) (name, b, hint)"
  unfolding req_BlockReceived_def
  by - (rule reads_bind reads_bind_return codec_intros block.decode | simp)+

end
