(* ===== verification/ClientLaws.thy ===== *)
theory ClientLaws
  imports DfsClient
begin

text \<open>
  What the client's operations achieve on any network that satisfies \<open>cluster_net\<close>: one lemma per remote
  call, then the loops of \<open>WriteFile\<close> and \<open>ReadFile\<close> by induction on the remaining bytes and on the blocks.
\<close>

section \<open>Targets and sizes\<close>

definition nn_ord :: "NameNode \<Rightarrow> (string \<times> DataNodeInfo) list" where
  "nn_ord n = nn_order n (ns_datanodes (nn_namesystem n))"

definition nn_targets :: "NameNode \<Rightarrow> DataNodeInfo list" where
  "nn_targets n = take 3 (map snd (nn_ord n))"

definition next_bid :: "NameNode \<Rightarrow> int64" where
  "next_bid n = nn_gen n (nn_drawn n)"

definition dn_addr :: "DataNodeInfo \<Rightarrow> string \<times> int16" where
  "dn_addr dn = (dn_host dn, ucast (dn_port dn))"

text \<open>The path and the names of the targets fit into the messages.\<close>

definition wire_ok :: "string \<Rightarrow> DataNodeInfo list \<Rightarrow> bool" where
  "wire_ok path targets \<longleftrightarrow> length path + 9 \<le> max_message \<and> dns_ok targets
     \<and> (\<forall>dn \<in> set targets. length (dn_name dn) + 40 \<le> max_message)
     \<and> length (enc_dns targets) + 24 < 2 ^ 32"

lemma wire_okD:
  assumes "wire_ok path targets"
  shows "fits_int32 path" "dns_ok targets" "length (enc_Located (b, targets)) < 2 ^ 32"
  using assms by (simp_all add: wire_ok_def fits_int32_def max_message_def enc_Located_def enc_Block_def)

text \<open>The number of blocks of a file.\<close>

definition nblocks :: "nat \<Rightarrow> nat \<Rightarrow> nat" where
  "nblocks bs n = (n + bs - 1) div bs"

lemma nblocks_0 [simp]: "0 < bs \<Longrightarrow> nblocks bs 0 = 0"
  by (simp add: nblocks_def)

lemma nblocks_step:
  assumes "0 < bs" "0 < n"
  shows "nblocks bs n = Suc (nblocks bs (n - min bs n))"
proof (cases "bs \<le> n")
  case True
  have "(n - 1 + bs) div bs = (n - 1) div bs + 1" using assms(1) by (intro div_add_self2) simp
  moreover have "n - 1 + bs = n + bs - 1" "n - bs + bs - 1 = n - 1" using True assms by simp_all
  ultimately show ?thesis using True unfolding nblocks_def min_def by (simp only: if_True Suc_eq_plus1)
next
  case False
  then have "(n + bs - 1) div bs = 1" using assms by (intro div_nat_eqI) simp_all
  then show ?thesis using False assms(1) by (simp add: nblocks_def)
qed

lemma gen_fresh: "inj_on g {d..<e} \<Longrightarrow> d < k \<Longrightarrow> k < e \<Longrightarrow> g k \<noteq> g (d :: nat)"
  by (auto dest: inj_onD)

text \<open>Two states of the NameNode that differ only in the representation of the block map.\<close>

definition nn_same :: "NameNode \<Rightarrow> NameNode \<Rightarrow> bool" where
  "nn_same n n' \<longleftrightarrow> nn_inv n' \<and> nn_gen n' = nn_gen n \<and> nn_drawn n' = nn_drawn n \<and> nn_order n' = nn_order n
     \<and> ns_tree (nn_namesystem n') = ns_tree (nn_namesystem n)
     \<and> ns_datanodes (nn_namesystem n') = ns_datanodes (nn_namesystem n)
     \<and> (\<forall>b. replicas (ns_block_to_datanodes (nn_namesystem n')) b = replicas (ns_block_to_datanodes (nn_namesystem n)) b)"

lemma nn_same_refl: "nn_inv n \<Longrightarrow> nn_same n n"
  by (simp add: nn_same_def)

lemma nn_same_trans: "nn_same a b \<Longrightarrow> nn_same b c \<Longrightarrow> nn_same a c"
  by (simp add: nn_same_def)

lemma nn_same_targets: "nn_same n n' \<Longrightarrow> nn_targets n' = nn_targets n"
  by (simp add: nn_same_def nn_targets_def nn_ord_def)

text \<open>A file of the namespace whose blocks are all on the first target.\<close>

definition file_on :: "NameNode \<Rightarrow> (string \<times> int16 \<rightharpoonup> BlockStorage) \<Rightarrow> string \<Rightarrow> DataNodeInfo list \<Rightarrow>
    int64 list \<Rightarrow> byte list list \<Rightarrow> bool" where
  "file_on n st path targets ids chunks \<longleftrightarrow> nn_inv n \<and> nn_targets n = targets \<and> targets \<noteq> []
     \<and> namespace (ns_tree (nn_namesystem n)) (SplitPath path) = Some (File ids)
     \<and> (\<forall>i \<in> set ids. replicas (ns_block_to_datanodes (nn_namesystem n)) i = targets)
     \<and> (\<exists>s. st (dn_addr (hd targets)) = Some s \<and> writable s
          \<and> list_all2 (\<lambda>i c. fetch_block i s = Some c \<and> length c < 2 ^ 63) ids chunks)"

lemma BlockReceived_known:
  assumes "nn_inv n" "dn_name dn \<in> dn_name ` set (replicas (ns_block_to_datanodes (nn_namesystem n)) (block_id b))"
  shows "nn_same n (n\<lparr>nn_namesystem := BlockReceived (dn_name dn) b hint (nn_namesystem n)\<rparr>)"
proof -
  let ?ns = "nn_namesystem n"
  have r: "replicas (ns_block_to_datanodes (BlockReceived (dn_name dn) b hint ?ns)) b'
      = replicas (ns_block_to_datanodes ?ns) b'" for b'
    using assms(2) by (auto simp: BlockReceived_replicas has_replica_iff split: option.split)
  have "ns_inv (BlockReceived (dn_name dn) b hint ?ns)"
    using nn_inv_ns(1) [OF assms(1)] by (rule BlockReceived_inv)
  then have "nn_inv (n\<lparr>nn_namesystem := BlockReceived (dn_name dn) b hint ?ns\<rparr>)"
    using assms(1) by (intro nn_inv_update)
  moreover have "ns_tree (BlockReceived (dn_name dn) b hint ?ns) = ns_tree ?ns"
    "ns_datanodes (BlockReceived (dn_name dn) b hint ?ns) = ns_datanodes ?ns"
    by (simp_all add: BlockReceived_def Let_def split: option.split)
  ultimately show ?thesis using r by (simp add: nn_same_def)
qed

text \<open>The NameNode is in safe mode and has no file at the path.\<close>

definition refuses :: "string \<Rightarrow> NameNode \<Rightarrow> bool" where
  "refuses path n \<longleftrightarrow> nn_inv n \<and> InSafeMode (nn_namesystem n)
     \<and> \<not> (\<exists>bs. namespace (ns_tree (nn_namesystem n)) (SplitPath path) = Some (File bs))"

lemma refuses_drawn [simp]: "refuses path (n\<lparr>nn_drawn := k\<rparr>) \<longleftrightarrow> refuses path n"
  by (simp add: refuses_def nn_inv_def)

section \<open>Remote calls\<close>

context cluster_net
begin

lemma call_op:
  assumes "handler_of opc = handle R f" "reads R bs x" "length bs + 4 \<le> max_message"
    and "f x OutputBuffer_new (nn w) = (resp, n')" "length (ob_buffer resp) < 2 ^ 32"
  obtains w' where "net_call net (op_id opc) bs w = ((Status_OK, ob_buffer resp), w')" "nn w' = n'"
    "store w' = store w"
proof -
  have "length bs + 4 < size_max" using assms(3) by (simp add: max_message_def)
  then have "dispatch nn_handlers (request_message (op_id opc) bs) (nn w) = Inr (resp, n')"
    using dispatch_handle [OF assms(1,2)] assms(4) by simp
  then show thesis using call [OF _ assms(3,5)] that by blast
qed

lemma call_StartFile:
  assumes "wire_ok path (snd r)" "StartFile path ow (next_bid (nn w)) (nn_ord (nn w)) (nn_namesystem (nn w)) = (r, ns')"
  obtains w' where "net_call net (op_id kStartFile) (enc_string path @ [if ow then 1 else 0]) w = ((Status_OK, enc_Located r), w')"
    "nn w' = (nn w)\<lparr>nn_namesystem := ns', nn_drawn := nn_drawn (nn w) + 1\<rparr>" "store w' = store w"
proof -
  let ?f = "\<lambda>(path, overwrite) resp nn.
     let (result, ns) = StartFile path overwrite (nn_gen nn (nn_drawn nn))
                          (nn_order nn (ns_datanodes (nn_namesystem nn))) (nn_namesystem nn)
     in (WriteLocated result resp, nn\<lparr>nn_namesystem := ns, nn_drawn := nn_drawn nn + 1\<rparr>)"
  have len: "length (enc_Located r) < 2 ^ 32" using wire_okD(3) [OF assms(1), of "fst r"] by simp
  obtain w' where "net_call net (op_id kStartFile) (enc_string path @ [if ow then 1 else 0]) w
      = ((Status_OK, ob_buffer (WriteLocated r OutputBuffer_new)), w')"
    "nn w' = (nn w)\<lparr>nn_namesystem := ns', nn_drawn := nn_drawn (nn w) + 1\<rparr>" "store w' = store w"
  proof (rule call_op [of kStartFile req_StartFile ?f "enc_string path @ [if ow then 1 else 0]" "(path, ow)" w])
    show "handler_of kStartFile = handle req_StartFile ?f" by (simp add: on_StartFile_def)
    show "reads req_StartFile (enc_string path @ [if ow then 1 else 0]) (path, ow)"
      by (rule reads_req_StartFile [OF wire_okD(1) [OF assms(1)]])
    show "length (enc_string path @ [if ow then 1 else 0]) + 4 \<le> max_message"
      using assms(1) by (simp add: wire_ok_def)
    show "?f (path, ow) OutputBuffer_new (nn w)
        = (WriteLocated r OutputBuffer_new, (nn w)\<lparr>nn_namesystem := ns', nn_drawn := nn_drawn (nn w) + 1\<rparr>)"
      using assms(2) by (simp add: next_bid_def nn_ord_def)
  qed (use len in \<open>simp add: located.encode\<close>)
  then show thesis using that by (simp add: located.encode)
qed

lemma call_AddBlock:
  assumes "wire_ok path (snd r)" "AddBlock path (next_bid (nn w)) (nn_ord (nn w)) (nn_namesystem (nn w)) = (r, ns')"
  obtains w' where "net_call net (op_id kAddBlock) (enc_string path) w = ((Status_OK, enc_Located r), w')"
    "nn w' = (nn w)\<lparr>nn_namesystem := ns', nn_drawn := nn_drawn (nn w) + 1\<rparr>" "store w' = store w"
proof -
  let ?f = "\<lambda>path resp nn.
     let (result, ns) = AddBlock path (nn_gen nn (nn_drawn nn))
                          (nn_order nn (ns_datanodes (nn_namesystem nn))) (nn_namesystem nn)
     in (WriteLocated result resp, nn\<lparr>nn_namesystem := ns, nn_drawn := nn_drawn nn + 1\<rparr>)"
  have len: "length (enc_Located r) < 2 ^ 32" using wire_okD(3) [OF assms(1), of "fst r"] by simp
  obtain w' where "net_call net (op_id kAddBlock) (enc_string path) w
      = ((Status_OK, ob_buffer (WriteLocated r OutputBuffer_new)), w')"
    "nn w' = (nn w)\<lparr>nn_namesystem := ns', nn_drawn := nn_drawn (nn w) + 1\<rparr>" "store w' = store w"
  proof (rule call_op [of kAddBlock ReadString ?f "enc_string path" path w])
    show "handler_of kAddBlock = handle ReadString ?f" by (simp add: on_AddBlock_def)
    show "reads ReadString (enc_string path) path" by (rule string.decode [OF wire_okD(1) [OF assms(1)]])
    show "length (enc_string path) + 4 \<le> max_message" using assms(1) by (simp add: wire_ok_def)
    show "?f path OutputBuffer_new (nn w)
        = (WriteLocated r OutputBuffer_new, (nn w)\<lparr>nn_namesystem := ns', nn_drawn := nn_drawn (nn w) + 1\<rparr>)"
      using assms(2) by (simp add: next_bid_def nn_ord_def)
  qed (use len in \<open>simp add: located.encode\<close>)
  then show thesis using that by (simp add: located.encode)
qed

lemma confirm_one:
  assumes "fits_int32 (dn_name dn)" "length (dn_name dn) + 40 \<le> max_message"
  shows "nn (confirm_block net (Block_Generate bid 0) k dn w)
      = (nn w)\<lparr>nn_namesystem := BlockReceived (dn_name dn) (Block_Generate bid (word_of_nat k)) '''' (nn_namesystem (nn w))\<rparr>
    \<and> store (confirm_block net (Block_Generate bid 0) k dn w) = store w"
proof -
  let ?b = "Block_Generate bid (word_of_nat k)"
  let ?bs = "enc_string (dn_name dn) @ enc_Block ?b @ enc_string ''''"
  let ?f = "\<lambda>(name, b, del_hint) resp nn.
     (WriteInt 1 resp, nn\<lparr>nn_namesystem := BlockReceived name b del_hint (nn_namesystem nn)\<rparr>)"
  let ?n = "(nn w)\<lparr>nn_namesystem := BlockReceived (dn_name dn) ?b '''' (nn_namesystem (nn w))\<rparr>"
  obtain w' where w': "net_call net (op_id kBlockReceived) ?bs w
      = ((Status_OK, ob_buffer (WriteInt 1 OutputBuffer_new)), w')" "nn w' = ?n" "store w' = store w"
  proof (rule call_op [of kBlockReceived req_BlockReceived ?f ?bs "(dn_name dn, ?b, '''')" w])
    show "handler_of kBlockReceived = handle req_BlockReceived ?f" by (simp add: on_BlockReceived_def)
    show "reads req_BlockReceived ?bs (dn_name dn, ?b, '''')"
      by (rule reads_req_BlockReceived [OF assms(1)]) (simp add: fits_int32_def)
    show "length ?bs + 4 \<le> max_message" using assms(2) by (simp add: enc_Block_def)
    show "?f (dn_name dn, ?b, '''') OutputBuffer_new (nn w) = (WriteInt 1 OutputBuffer_new, ?n)" by simp
  qed simp
  have "confirm_block net (Block_Generate bid 0) k dn w = snd (net_call net (op_id kBlockReceived) ?bs w)"
    by (simp add: confirm_block_def enc_Block_def Block_Generate_def)
  then show ?thesis using w' by simp
qed

lemma confirm_all:
  assumes "nn_inv (nn w)" "\<forall>dn \<in> set dns. fits_int32 (dn_name dn) \<and> length (dn_name dn) + 40 \<le> max_message
      \<and> dn_name dn \<in> dn_name ` set (replicas (ns_block_to_datanodes (nn_namesystem (nn w))) bid)"
  shows "nn_same (nn w) (nn (fold (confirm_block net (Block_Generate bid 0) k) dns w))
    \<and> store (fold (confirm_block net (Block_Generate bid 0) k) dns w) = store w"
  using assms
proof (induction dns arbitrary: w)
  case (Cons dn dns)
  let ?w1 = "confirm_block net (Block_Generate bid 0) k dn w"
  have w1: "nn_same (nn w) (nn ?w1)" "store ?w1 = store w"
    using confirm_one [of dn bid k w] BlockReceived_known [of "nn w" dn "Block_Generate bid (word_of_nat k)" "''''"] Cons.prems
    by (simp_all add: Block_Generate_def)
  then have "nn_inv (nn ?w1)" by (simp add: nn_same_def)
  then show ?case
    using Cons.IH [of ?w1] Cons.prems w1 nn_same_trans [OF w1(1)] by (auto simp: nn_same_def)
qed (simp add: nn_same_refl)

text \<open>Storing one block on the first target and confirming it for all.\<close>

lemma store_confirm:
  assumes "nn_inv (nn w)" "wire_ok path targets" "targets \<noteq> []"
    and "replicas (ns_block_to_datanodes (nn_namesystem (nn w))) bid = targets"
    and "store w (dn_addr (hd targets)) = Some s" "length chunk < 2 ^ 63"
  obtains w' where "fold (confirm_block net (Block_Generate bid 0) k) targets
      (send_block net (Block_Generate bid 0) chunk targets w) = w'"
    "nn_same (nn w) (nn w')"
    "store w' = (store w)(dn_addr (hd targets) \<mapsto> snd (StoreBlock (Block_Generate bid (word_of_nat (length chunk))) chunk s))"
proof -
  obtain dn dns where t: "targets = dn # dns" using assms(3) by (cases targets) auto
  obtain ack w1 where w1: "net_dial net (dn_host dn) (ucast (dn_port dn)) (write_request bid chunk) w = Some (ack, w1)"
    "nn w1 = nn w"
    "store w1 = (store w)(dn_addr dn \<mapsto> snd (StoreBlock (Block_Generate bid (word_of_nat (length chunk))) chunk s))"
    using dial_write [of w "dn_host dn" "ucast (dn_port dn)" s chunk bid] assms(5,6) t by (auto simp: dn_addr_def)
  have send: "send_block net (Block_Generate bid 0) chunk targets w = w1"
    using w1(1) t by (simp add: send_block_def Block_Generate_def)
  have "\<forall>dn \<in> set targets. fits_int32 (dn_name dn) \<and> length (dn_name dn) + 40 \<le> max_message
      \<and> dn_name dn \<in> dn_name ` set (replicas (ns_block_to_datanodes (nn_namesystem (nn w1))) bid)"
    using assms(2,4) w1(2) by (auto simp: wire_ok_def dns_ok_def list_all_iff DataNodeInfo_ok_def)
  from confirm_all [OF _ this, of k] show thesis
    using that [OF refl] assms(1) w1 send t by simp
qed

section \<open>Writing\<close>

lemma stored:
  assumes n: "nn_inv (nn w)" "nn_targets (nn w) = targets" "wire_ok path targets" "targets \<noteq> []"
    and look: "namespace (ns_tree (nn_namesystem (nn w))) (SplitPath path) = Some (File (ids @ [bid]))"
    and reps: "\<forall>i \<in> set (ids @ [bid]). replicas (ns_block_to_datanodes (nn_namesystem (nn w))) i = targets"
    and s: "store w (dn_addr (hd targets)) = Some s" "writable s"
      "list_all2 (\<lambda>i c. fetch_block i s = Some c \<and> length c < 2 ^ 63) ids chunks"
    and new: "bid \<notin> set ids" "length chunk < 2 ^ 63"
  obtains w' where "fold (confirm_block net (Block_Generate bid 0) k) targets
      (send_block net (Block_Generate bid 0) chunk targets w) = w'"
    "file_on (nn w') (store w') path targets (ids @ [bid]) (chunks @ [chunk])"
    "nn_gen (nn w') = nn_gen (nn w)" "nn_drawn (nn w') = nn_drawn (nn w)"
    "\<forall>a. a \<noteq> dn_addr (hd targets) \<longrightarrow> store w' a = store w a"
proof -
  let ?s = "snd (StoreBlock (Block_Generate bid (word_of_nat (length chunk))) chunk s)"
  obtain w' where w': "fold (confirm_block net (Block_Generate bid 0) k) targets
      (send_block net (Block_Generate bid 0) chunk targets w) = w'"
    "nn_same (nn w) (nn w')" "store w' = (store w)(dn_addr (hd targets) \<mapsto> ?s)"
    by (rule store_confirm [OF n(1,3,4), of bid s chunk k]) (use reps s new in simp_all)
  have fetch: "fetch_block b ?s = (if b = bid then Some chunk else fetch_block b s)" for b
    using storage.fetch_store [OF s(2)] by simp
  have "list_all2 (\<lambda>i c. fetch_block i ?s = Some c \<and> length c < 2 ^ 63) ids chunks"
    using s(3) new(1) by (auto simp: list_all2_conv_all_nth fetch)
  then have "list_all2 (\<lambda>i c. fetch_block i ?s = Some c \<and> length c < 2 ^ 63) (ids @ [bid]) (chunks @ [chunk])"
    using new(2) by (intro list_all2_appendI) (simp_all add: fetch)
  moreover have "writable ?s" using storage.store_ok [OF s(2)] by simp
  ultimately have "file_on (nn w') (store w') path targets (ids @ [bid]) (chunks @ [chunk])"
    using w'(2,3) n look reps nn_same_targets [OF w'(2)] by (simp add: file_on_def nn_same_def)
  then show thesis using that w' by (simp add: nn_same_def)
qed

text \<open>The first round of the loop, on a path that may become a file.\<close>

lemma write_first_block:
  assumes n: "nn_inv (nn w)" "\<not> InSafeMode (nn_namesystem (nn w))" "wire_ok path (nn_targets (nn w))"
    and path: "path \<noteq> []" "last path \<noteq> CHR ''/''"
    and free: "ow \<or> namespace (ns_tree (nn_namesystem (nn w))) (SplitPath path) = None"
    and above: "\<not> blocked (namespace (ns_tree (nn_namesystem (nn w)))) (butlast (SplitPath path))"
    and s: "store w (dn_addr (hd (nn_targets (nn w)))) = Some s" "writable s"
    and rest: "rest \<noteq> []" "length rest < 2 ^ 63" and c: "c = min bs (length rest)"
  obtains w' where "write_loop (Suc m) net bs path ow True rest w = write_loop m net bs path ow False (drop c rest) w'"
    "file_on (nn w') (store w') path (nn_targets (nn w)) [next_bid (nn w)] [take c rest]"
    "nn_gen (nn w') = nn_gen (nn w)" "nn_drawn (nn w') = nn_drawn (nn w) + 1"
    "\<forall>a. a \<noteq> dn_addr (hd (nn_targets (nn w))) \<longrightarrow> store w' a = store w a"
proof -
  let ?ns = "nn_namesystem (nn w)" and ?T = "nn_targets (nn w)" and ?b = "next_bid (nn w)"
  have inv: "ns_inv ?ns" and ord: "iterates (nn_ord (nn w)) (ns_datanodes ?ns)"
    using n(1) by (simp_all add: nn_inv_def nn_ord_def)
  have T: "?T = take 3 (map snd (nn_ord (nn w)))" by (simp add: nn_targets_def)
  obtain ns' where ns': "StartFile path ow ?b (nn_ord (nn w)) ?ns = ((Block_Generate ?b 0, ?T), ns')"
    "ns_block_to_datanodes ns' = um_put ?b ?T (ns_block_to_datanodes ?ns)" "ns_datanodes ns' = ns_datanodes ?ns"
    and look: "\<And>q. namespace (ns_tree ns') q =
       (if q = SplitPath path then Some (File [?b]) else if strict_prefix q (SplitPath path) then Some Dir
        else if prefix (SplitPath path) q then None else namespace (ns_tree ?ns) q)"
    by (rule StartFile_new_file [OF inv ord n(2) path free above, of ?b]) (simp only: T)
  have "ns_datanodes ?ns \<noteq> []" using n(2) by (auto simp: InSafeMode_def)
  then have "nn_ord (nn w) \<noteq> []" using iterates_length [OF ord] by auto
  then have ne: "?T \<noteq> []" by (simp add: T)
  obtain w1 where w1: "net_call net (op_id kStartFile) (enc_string path @ [if ow then 1 else 0]) w
      = ((Status_OK, enc_Located (Block_Generate ?b 0, ?T)), w1)"
    "nn w1 = (nn w)\<lparr>nn_namesystem := ns', nn_drawn := nn_drawn (nn w) + 1\<rparr>" "store w1 = store w"
    by (rule call_StartFile [of path "(Block_Generate ?b 0, ?T)" ow w ns']) (use n(3) ns'(1) in simp_all)
  have decode: "ReadLocated (InputBuffer_new (enc_Located (Block_Generate ?b 0, ?T)))
      = Inr ((Block_Generate ?b 0, ?T), \<lparr>ib_data = enc_Located (Block_Generate ?b 0, ?T), ib_pos = length (enc_Located (Block_Generate ?b 0, ?T))\<rparr>)"
    using reads_InputBuffer_new [OF located.decode, of "(Block_Generate ?b 0, ?T)" "[]"]
      wire_okD(2) [OF n(3)] wire_okD(3) [OF n(3), of "Block_Generate ?b 0"] by simp
  have inv': "ns_inv ns'" using StartFile_inv [OF inv ord, of path ow ?b] ns'(1) by simp
  then have n1: "nn_inv (nn w1)" "nn_targets (nn w1) = ?T"
    using n(1) w1(2) ns'(3) by (simp_all add: nn_inv_update nn_targets_def nn_ord_def)
  obtain w' where w': "fold (confirm_block net (Block_Generate ?b 0) c) ?T
      (send_block net (Block_Generate ?b 0) (take c rest) ?T w1) = w'"
    "file_on (nn w') (store w') path ?T ([] @ [?b]) ([] @ [take c rest])"
    "nn_gen (nn w') = nn_gen (nn w1)" "nn_drawn (nn w') = nn_drawn (nn w1)"
    "\<forall>a. a \<noteq> dn_addr (hd ?T) \<longrightarrow> store w' a = store w1 a"
    by (rule stored [OF n1 n(3) ne, where ids = "[]" and bid = ?b and s = s and chunks = "[]" and chunk = "take c rest" and k = c])
      (use look ns'(2) w1 s rest in simp_all)
  have "write_loop (Suc m) net bs path ow True rest w = write_loop m net bs path ow False (drop c rest) w'"
    using rest(1) w1(1) decode w'(1) c by (simp add: Let_def del: op_id.simps)
  then show thesis using that w' w1(2,3) by simp
qed

text \<open>A later round.\<close>

lemma write_next_block:
  assumes f: "file_on (nn w) (store w) path targets ids chunks" and wire: "wire_ok path targets"
    and new: "next_bid (nn w) \<notin> set ids"
    and rest: "rest \<noteq> []" "length rest < 2 ^ 63" and c: "c = min bs (length rest)"
  obtains w' where "write_loop (Suc m) net bs path ow False rest w = write_loop m net bs path ow False (drop c rest) w'"
    "file_on (nn w') (store w') path targets (ids @ [next_bid (nn w)]) (chunks @ [take c rest])"
    "nn_gen (nn w') = nn_gen (nn w)" "nn_drawn (nn w') = nn_drawn (nn w) + 1"
    "\<forall>a. a \<noteq> dn_addr (hd targets) \<longrightarrow> store w' a = store w a"
proof -
  let ?ns = "nn_namesystem (nn w)" and ?b = "next_bid (nn w)"
  have n: "nn_inv (nn w)" "nn_targets (nn w) = targets" "targets \<noteq> []"
    "namespace (ns_tree ?ns) (SplitPath path) = Some (File ids)"
    "\<forall>i \<in> set ids. replicas (ns_block_to_datanodes ?ns) i = targets"
    using f by (simp_all add: file_on_def)
  obtain s where s: "store w (dn_addr (hd targets)) = Some s" "writable s"
    "list_all2 (\<lambda>i c. fetch_block i s = Some c \<and> length c < 2 ^ 63) ids chunks"
    using f by (auto simp: file_on_def)
  have inv: "ns_inv ?ns" and ord: "iterates (nn_ord (nn w)) (ns_datanodes ?ns)"
    using n(1) by (simp_all add: nn_inv_def nn_ord_def)
  have T: "take 3 (map snd (nn_ord (nn w))) = targets" using n(2) by (simp add: nn_targets_def)
  let ?ns' = "snd (alloc_block path ?b (nn_ord (nn w)) ?ns)"
  have add: "AddBlock path ?b (nn_ord (nn w)) ?ns = ((Block_Generate ?b 0, targets), ?ns')"
    by (simp add: AddBlock_file [OF n(4)] alloc_block_result T)
  obtain w1 where w1: "net_call net (op_id kAddBlock) (enc_string path) w
      = ((Status_OK, enc_Located (Block_Generate ?b 0, targets)), w1)"
    "nn w1 = (nn w)\<lparr>nn_namesystem := ?ns', nn_drawn := nn_drawn (nn w) + 1\<rparr>" "store w1 = store w"
    by (rule call_AddBlock [of path "(Block_Generate ?b 0, targets)" w ?ns']) (use wire add in simp_all)
  have decode: "ReadLocated (InputBuffer_new (enc_Located (Block_Generate ?b 0, targets)))
      = Inr ((Block_Generate ?b 0, targets), \<lparr>ib_data = enc_Located (Block_Generate ?b 0, targets), ib_pos = length (enc_Located (Block_Generate ?b 0, targets))\<rparr>)"
    using reads_InputBuffer_new [OF located.decode, of "(Block_Generate ?b 0, targets)" "[]"]
      wire_okD(2) [OF wire] wire_okD(3) [OF wire, of "Block_Generate ?b 0"] by simp
  have "ns_inv ?ns'" using alloc_block_inv [OF inv ord n(4), of ?b] .
  then have n1: "nn_inv (nn w1)" "nn_targets (nn w1) = targets"
    using n(1,2) w1(2) by (simp_all add: nn_inv_update nn_targets_def nn_ord_def alloc_block_result)
  have look: "namespace (ns_tree ?ns') (SplitPath path) = Some (File (ids @ [?b]))"
    using alloc_block_namespace [OF inv n(4), of ?b "nn_ord (nn w)"] by simp
  have reps: "\<forall>i \<in> set (ids @ [?b]). replicas (ns_block_to_datanodes ?ns') i = targets"
    using n(5) by (simp add: alloc_block_result T)
  obtain w' where w': "fold (confirm_block net (Block_Generate ?b 0) c) targets
      (send_block net (Block_Generate ?b 0) (take c rest) targets w1) = w'"
    "file_on (nn w') (store w') path targets (ids @ [?b]) (chunks @ [take c rest])"
    "nn_gen (nn w') = nn_gen (nn w1)" "nn_drawn (nn w') = nn_drawn (nn w1)"
    "\<forall>a. a \<noteq> dn_addr (hd targets) \<longrightarrow> store w' a = store w1 a"
    by (rule stored [OF n1 wire n(3), where ids = ids and bid = ?b and s = s and chunks = chunks and chunk = "take c rest" and k = c])
      (use look reps w1 s rest new in simp_all)
  have "write_loop (Suc m) net bs path ow False rest w = write_loop m net bs path ow False (drop c rest) w'"
    using rest(1) w1(1) decode w'(1) c by (simp add: Let_def del: op_id.simps)
  then show thesis using that w' w1(2,3) by simp
qed

lemma write_rest:
  assumes "file_on (nn w) (store w) path targets ids chunks" "wire_ok path targets" "0 < bs"
    and "nblocks bs (length rest) < m" "length rest < 2 ^ 63"
    and "inj_on (nn_gen (nn w)) {nn_drawn (nn w)..<nn_drawn (nn w) + nblocks bs (length rest)}"
    and "\<forall>k \<in> {nn_drawn (nn w)..<nn_drawn (nn w) + nblocks bs (length rest)}. nn_gen (nn w) k \<notin> set ids"
  shows "\<exists>w' ids' cs. write_loop m net bs path ow False rest w = Some (Inr (Status_OK, w'))
    \<and> file_on (nn w') (store w') path targets (ids @ ids') (chunks @ cs)
    \<and> concat cs = rest \<and> length ids' = nblocks bs (length rest)
    \<and> (\<forall>a. a \<noteq> dn_addr (hd targets) \<longrightarrow> store w' a = store w a)"
  using assms
proof (induction m arbitrary: w ids chunks rest)
  case (Suc m)
  show ?case
  proof (cases "rest = []")
    case True
    then show ?thesis using Suc.prems(1,3) by (intro exI [of _ w] exI [of _ "[]"]) simp
  next
    case False
    let ?c = "min bs (length rest)" and ?b = "next_bid (nn w)"
    have c: "0 < ?c" "?c \<le> length rest" using False Suc.prems(3) by simp_all
    let ?n = "nblocks bs (length (drop ?c rest))"
    have step: "nblocks bs (length rest) = Suc ?n"
      using nblocks_step [OF Suc.prems(3), of "length rest"] False by simp
    then have len: "?n < m" "length (drop ?c rest) < 2 ^ 63"
      using Suc.prems(4,5) by simp_all
    have new: "?b \<notin> set ids" using Suc.prems(7) step by (simp add: next_bid_def)
    obtain w1 where w1: "write_loop (Suc m) net bs path ow False rest w = write_loop m net bs path ow False (drop ?c rest) w1"
      "file_on (nn w1) (store w1) path targets (ids @ [?b]) (chunks @ [take ?c rest])"
      "nn_gen (nn w1) = nn_gen (nn w)" "nn_drawn (nn w1) = nn_drawn (nn w) + 1"
      "\<forall>a. a \<noteq> dn_addr (hd targets) \<longrightarrow> store w1 a = store w a"
      using Suc.prems(1,2) new False Suc.prems(5) refl by (rule write_next_block)
    have inj: "inj_on (nn_gen (nn w1)) {nn_drawn (nn w1)..<nn_drawn (nn w1) + ?n}"
      using Suc.prems(6) w1(3,4) step by (auto intro: inj_on_subset)
    have fresh: "\<forall>k \<in> {nn_drawn (nn w1)..<nn_drawn (nn w1) + ?n}. nn_gen (nn w1) k \<notin> set (ids @ [?b])"
      using Suc.prems(7) w1(3,4) step gen_fresh [OF Suc.prems(6)] by (simp add: next_bid_def)
    obtain w' ids' cs where r: "write_loop m net bs path ow False (drop ?c rest) w1 = Some (Inr (Status_OK, w'))"
      "file_on (nn w') (store w') path targets ((ids @ [?b]) @ ids') ((chunks @ [take ?c rest]) @ cs)"
      "concat cs = drop ?c rest" "length ids' = nblocks bs (length (drop ?c rest))"
      "\<forall>a. a \<noteq> dn_addr (hd targets) \<longrightarrow> store w' a = store w1 a"
      using Suc.IH [OF w1(2) Suc.prems(2,3) len inj fresh] by blast
    have "length (?b # ids') = nblocks bs (length rest)" using r(4) step by simp
    then show ?thesis
      using r(1-3,5) w1(1,5)
      by (intro exI [of _ w'] exI [of _ "?b # ids'"] exI [of _ "take ?c rest # cs"]) (simp del: write_loop.simps)
  qed
qed simp

section \<open>Reading\<close>

lemma call_GetBlocks:
  assumes "fits_int32 path" "length path + 9 \<le> max_message" "blocks = GetBlocks path (nn_namesystem (nn w))"
    and "length (concat (map enc_Located blocks)) + 4 < 2 ^ 32"
  obtains w' where "net_call net (op_id kGetBlocks) (enc_string path) w
      = ((Status_OK, enc_int (word_of_nat (length blocks)) @ concat (map enc_Located blocks)), w')"
    "nn w' = nn w" "store w' = store w"
proof -
  let ?f = "\<lambda>path resp nn.
     let result = GetBlocks path (nn_namesystem nn)
     in (fold WriteLocated result (WriteInt (word_of_nat (length result)) resp), nn)"
  let ?resp = "fold WriteLocated blocks (WriteInt (word_of_nat (length blocks)) OutputBuffer_new)"
  have resp: "ob_buffer ?resp = enc_int (word_of_nat (length blocks)) @ concat (map enc_Located blocks)"
    by (simp add: located.write_fold)
  obtain w' where "net_call net (op_id kGetBlocks) (enc_string path) w = ((Status_OK, ob_buffer ?resp), w')"
    "nn w' = nn w" "store w' = store w"
  proof (rule call_op [of kGetBlocks ReadString ?f "enc_string path" path w])
    show "handler_of kGetBlocks = handle ReadString ?f" by (simp add: on_GetBlocks_def)
    show "reads ReadString (enc_string path) path" by (rule string.decode [OF assms(1)])
    show "length (enc_string path) + 4 \<le> max_message" using assms(2) by simp
    show "?f path OutputBuffer_new (nn w) = (?resp, nn w)" using assms(3) by (simp add: Let_def)
  qed (use assms(4) in \<open>simp add: resp\<close>)
  then show thesis using that resp by simp
qed

lemma read_block_first:
  assumes "store w (dn_addr (hd targets)) = Some s" "fetch_block i s = Some c" "targets \<noteq> []"
    and "length data + length c < 2 ^ 63"
  obtains w' where "read_block net i targets data w = Inr (True, data @ c, w')" "nn w' = nn w" "store w' = store w"
proof -
  obtain dn dns where t: "targets = dn # dns" using assms(3) by (cases targets) auto
  obtain w' where w': "net_dial net (dn_host dn) (ucast (dn_port dn)) (read_request i) w = Some (read_reply c, w')"
    "nn w' = nn w" "store w' = store w"
    using dial_read [of w "dn_host dn" "ucast (dn_port dn)" s i c] assms(1,2) t by (auto simp: dn_addr_def)
  have "unat (word_of_nat (length c) :: int64) = length c" using assms(4) by (simp add: unat_of_nat)
  then have "read_block net i targets data w = Inr (True, data @ c, w')"
    using w'(1) t assms(4) by (simp add: read_reply_def Let_def)
  then show thesis using that w' by blast
qed

lemma read_blocks:
  assumes "store w (dn_addr (hd targets)) = Some s" "targets \<noteq> []" "dns_ok targets"
    and "list_all2 (\<lambda>i c. fetch_block i s = Some c \<and> length c < 2 ^ 63) ids chunks"
    and "length data + length (concat chunks) < 2 ^ 63"
    and "length (pre @ concat (map (\<lambda>i. enc_Located (Block_Generate i 0, targets)) ids)) < size_max"
  shows "\<exists>w'. read_loop (length ids) net
      \<lparr>ib_data = pre @ concat (map (\<lambda>i. enc_Located (Block_Generate i 0, targets)) ids), ib_pos = length pre\<rparr> data w
    = Inr ((Status_OK, data @ concat chunks), w') \<and> nn w' = nn w \<and> store w' = store w"
  using assms
proof (induction ids arbitrary: chunks data w pre)
  case (Cons i ids)
  obtain c cs where c: "chunks = c # cs" "fetch_block i s = Some c"
    "list_all2 (\<lambda>i c. fetch_block i s = Some c \<and> length c < 2 ^ 63) ids cs"
    using Cons.prems(4) by (auto simp: list_all2_Cons1)
  let ?enc = "\<lambda>i. enc_Located (Block_Generate i 0, targets)"
  let ?tail = "concat (map ?enc ids)"
  have dec: "ReadLocated \<lparr>ib_data = pre @ ?enc i @ ?tail, ib_pos = length pre\<rparr>
      = Inr ((Block_Generate i 0, targets), \<lparr>ib_data = pre @ ?enc i @ ?tail, ib_pos = length pre + length (?enc i)\<rparr>)"
    by (rule readsD [OF located.decode]) (use Cons.prems in simp_all)
  obtain w1 where w1: "read_block net i targets data w = Inr (True, data @ c, w1)" "nn w1 = nn w" "store w1 = store w"
    by (rule read_block_first [OF Cons.prems(1) c(2) Cons.prems(2), of data]) (use Cons.prems(5) c(1) in simp_all)
  have "\<exists>w'. read_loop (length ids) net \<lparr>ib_data = (pre @ ?enc i) @ ?tail, ib_pos = length (pre @ ?enc i)\<rparr> (data @ c) w1
      = Inr ((Status_OK, (data @ c) @ concat cs), w') \<and> nn w' = nn w1 \<and> store w' = store w1"
    by (rule Cons.IH [OF _ Cons.prems(2,3) c(3)]) (use Cons.prems c(1) w1 in simp_all)
  then show ?case using dec w1 c(1) by (auto simp: Block_Generate_def)
qed simp

lemma read_file:
  assumes f: "file_on (nn w) (store w) path targets ids chunks" and wire: "wire_ok path targets"
    and len: "length (concat chunks) < 2 ^ 63" "length ids * (length (enc_dns targets) + 24) + 4 < 2 ^ 31"
  shows "\<exists>w'. ReadFile net path old w = Inr ((Status_OK, concat chunks), w') \<and> nn w' = nn w \<and> store w' = store w"
proof -
  let ?enc = "\<lambda>i. enc_Located (Block_Generate i 0, targets)" and ?ns = "nn_namesystem (nn w)"
  have n: "targets \<noteq> []" "namespace (ns_tree ?ns) (SplitPath path) = Some (File ids)"
    "\<forall>i \<in> set ids. replicas (ns_block_to_datanodes ?ns) i = targets"
    using f by (simp_all add: file_on_def)
  obtain s where s: "store w (dn_addr (hd targets)) = Some s"
    "list_all2 (\<lambda>i c. fetch_block i s = Some c \<and> length c < 2 ^ 63) ids chunks"
    using f by (auto simp: file_on_def)
  have blocks: "GetBlocks path ?ns = map (\<lambda>i. (Block_Generate i 0, targets)) ids"
    using n(3) by (simp add: GetBlocks_file [OF n(2)])
  have enc: "length (concat (map ?enc ids)) = length ids * (length (enc_dns targets) + 24)"
    by (induction ids) (simp_all add: enc_Located_def enc_Block_def)
  let ?body = "concat (map ?enc ids)"
  have map_enc: "map enc_Located (map (\<lambda>i. (Block_Generate i 0, targets)) ids) = map ?enc ids" by simp
  obtain w1 where w1: "net_call net (op_id kGetBlocks) (enc_string path) w
      = ((Status_OK, enc_int (word_of_nat (length ids)) @ ?body), w1)" "nn w1 = nn w" "store w1 = store w"
    by (rule call_GetBlocks [of path "map (\<lambda>i. (Block_Generate i 0, targets)) ids" w])
      (use wire wire_okD(1) [OF wire] blocks enc len(2) in \<open>simp_all only: map_enc length_map wire_ok_def, simp_all\<close>)
  have "length ids \<le> length ids * (length (enc_dns targets) + 24)" by simp
  then have "length ids < 2 ^ 31" using len(2) by (meson add_lessD1 le_less_trans)
  then have ids: "loop_count (word_of_nat (length ids)) = length ids" by (rule loop_count_of_nat)
  have int: "ReadInt (InputBuffer_new (enc_int (word_of_nat (length ids)) @ ?body))
      = Inr (word_of_nat (length ids), \<lparr>ib_data = enc_int (word_of_nat (length ids)) @ ?body, ib_pos = 4\<rparr>)"
    using reads_InputBuffer_new [OF basic_reads(1), of "word_of_nat (length ids)" ?body] enc len(2) by simp
  obtain w' where "read_loop (length ids) net
      \<lparr>ib_data = enc_int (word_of_nat (length ids)) @ ?body, ib_pos = length (enc_int (word_of_nat (length ids)))\<rparr> [] w1
    = Inr ((Status_OK, [] @ concat chunks), w')" "nn w' = nn w1" "store w' = store w1"
    using read_blocks [of w1 targets s ids chunks "[]" "enc_int (word_of_nat (length ids))"] s w1(3) n(1)
      wire_okD(2) [OF wire] len enc by auto
  then show ?thesis using w1 int ids by (auto simp: ReadFile_def simp del: op_id.simps)
qed

text \<open>Writing a whole file.\<close>

lemma write_file:
  assumes n: "nn_inv (nn w)" "\<not> InSafeMode (nn_namesystem (nn w))" "wire_ok path (nn_targets (nn w))"
    and path: "path \<noteq> []" "last path \<noteq> CHR ''/''"
    and free: "ow \<or> namespace (ns_tree (nn_namesystem (nn w))) (SplitPath path) = None"
    and above: "\<not> blocked (namespace (ns_tree (nn_namesystem (nn w)))) (butlast (SplitPath path))"
    and s: "store w (dn_addr (hd (nn_targets (nn w)))) = Some s" "writable s"
    and data: "data \<noteq> []" "length data < 2 ^ 63"
    and loop: "0 < unat bs" "nblocks (unat bs) (length data) < rounds"
    and gen: "inj_on (nn_gen (nn w)) {nn_drawn (nn w)..<nn_drawn (nn w) + nblocks (unat bs) (length data)}"
  obtains w' ids cs where "WriteFile rounds net bs path data ow w = Some (Inr (Status_OK, w'))"
    "file_on (nn w') (store w') path (nn_targets (nn w)) ids cs" "concat cs = data"
    "length ids = nblocks (unat bs) (length data)"
    "\<forall>a. a \<noteq> dn_addr (hd (nn_targets (nn w))) \<longrightarrow> store w' a = store w a"
proof -
  let ?T = "nn_targets (nn w)" and ?c = "min (unat bs) (length data)"
  obtain m where m: "rounds = Suc m" using loop(2) by (cases rounds) auto
  obtain w1 where w1: "write_loop (Suc m) net (unat bs) path ow True data w
      = write_loop m net (unat bs) path ow False (drop ?c data) w1"
    "file_on (nn w1) (store w1) path ?T [next_bid (nn w)] [take ?c data]"
    "nn_gen (nn w1) = nn_gen (nn w)" "nn_drawn (nn w1) = nn_drawn (nn w) + 1"
    "\<forall>a. a \<noteq> dn_addr (hd ?T) \<longrightarrow> store w1 a = store w a"
    using n path free above s data refl by (rule write_first_block)
  let ?n = "nblocks (unat bs) (length (drop ?c data))"
  have step: "nblocks (unat bs) (length data) = Suc ?n"
    using nblocks_step [OF loop(1), of "length data"] data(1) by simp
  have "?n < m" "length (drop ?c data) < 2 ^ 63" using loop(2) m data(2) step by simp_all
  moreover have "\<forall>k \<in> {nn_drawn (nn w1)..<nn_drawn (nn w1) + ?n}. nn_gen (nn w1) k \<notin> set [next_bid (nn w)]"
    using w1(3,4) gen_fresh [OF gen] step by (simp add: next_bid_def)
  moreover have "inj_on (nn_gen (nn w1)) {nn_drawn (nn w1)..<nn_drawn (nn w1) + ?n}"
    using gen w1(3,4) step by (auto intro: inj_on_subset)
  ultimately obtain w' ids cs where w': "write_loop m net (unat bs) path ow False (drop ?c data) w1 = Some (Inr (Status_OK, w'))"
    "file_on (nn w') (store w') path ?T ([next_bid (nn w)] @ ids) ([take ?c data] @ cs)"
    "concat cs = drop ?c data" "length ids = nblocks (unat bs) (length (drop ?c data))"
    "\<forall>a. a \<noteq> dn_addr (hd ?T) \<longrightarrow> store w' a = store w1 a"
    using write_rest [OF w1(2) n(3) loop(1)] by blast
  have "WriteFile rounds net bs path data ow w = Some (Inr (Status_OK, w'))"
    using w1(1) w'(1) m data(1) by (simp add: WriteFile_def del: write_loop.simps)
  then show thesis using that [OF _ w'(2)] w'(3-5) w1(5) step by simp
qed

section \<open>Refused allocations\<close>

text \<open>A round of the loop in which the NameNode refuses: no target, so nothing is sent and nothing fails.\<close>

lemma write_refused_round:
  assumes "refuses path (nn w)" "wire_ok path []" "rest \<noteq> []"
  obtains w' where "write_loop (Suc m) net bs path ow first rest w = write_loop m net bs path ow False (drop (min bs (length rest)) rest) w'"
    "nn w' = (nn w)\<lparr>nn_drawn := nn_drawn (nn w) + 1\<rparr>" "store w' = store w"
proof -
  let ?ns = "nn_namesystem (nn w)"
  let ?op = "if first then op_id kStartFile else op_id kAddBlock"
  let ?req = "if first then enc_string path @ [if ow then 1 else 0] else enc_string path"
  have r: "wire_ok path (snd no_alloc)" using assms(2) by (simp add: no_alloc_def)
  obtain w' where w': "net_call net ?op ?req w = ((Status_OK, enc_Located no_alloc), w')"
    "nn w' = (nn w)\<lparr>nn_namesystem := ?ns, nn_drawn := nn_drawn (nn w) + 1\<rparr>" "store w' = store w"
  proof (cases first)
    case True
    have "StartFile path ow (next_bid (nn w)) (nn_ord (nn w)) ?ns = (no_alloc, ?ns)"
      using assms(1) by (intro StartFile_refused) (simp add: refuses_def)
    then show ?thesis using call_StartFile [OF r, of ow w ?ns] that True by auto
  next
    case False
    have "AddBlock path (next_bid (nn w)) (nn_ord (nn w)) ?ns = (no_alloc, ?ns)"
      using assms(1) by (intro AddBlock_not_file) (simp add: refuses_def)
    then show ?thesis using call_AddBlock [OF r, of w ?ns] that False by auto
  qed
  have decode: "ReadLocated (InputBuffer_new (enc_Located no_alloc))
      = Inr (no_alloc, \<lparr>ib_data = enc_Located no_alloc, ib_pos = length (enc_Located no_alloc)\<rparr>)"
    using reads_InputBuffer_new [OF located.decode, of no_alloc "[]"] wire_okD(2) [OF r]
      wire_okD(3) [OF r, of "fst no_alloc"] by simp
  have req: "OutputBuffer_Data (if first then WriteBool ow (WriteString path OutputBuffer_new) else WriteString path OutputBuffer_new) = ?req"
    by simp
  have "write_loop (Suc m) net bs path ow first rest w = write_loop m net bs path ow False (drop (min bs (length rest)) rest) w'"
    using w'(1) decode assms(3)
    by (simp only: write_loop.simps Let_def req prod.case if_False sum.case no_alloc_def send_block_def list.case fold_simps
        Status_ok_simps not_True_eq_False)
  then show thesis using that w' by simp
qed

lemma write_refused:
  assumes "refuses path (nn w)" "wire_ok path []" "0 < bs" "nblocks bs (length rest) < m"
  shows "\<exists>w'. write_loop m net bs path ow first rest w = Some (Inr (Status_OK, w'))
    \<and> nn_namesystem (nn w') = nn_namesystem (nn w) \<and> refuses path (nn w') \<and> store w' = store w"
  using assms
proof (induction m arbitrary: w first rest)
  case (Suc m)
  show ?case
  proof (cases "rest = []")
    case False
    let ?c = "min bs (length rest)"
    obtain w1 where w1: "write_loop (Suc m) net bs path ow first rest w = write_loop m net bs path ow False (drop ?c rest) w1"
      "nn w1 = (nn w)\<lparr>nn_drawn := nn_drawn (nn w) + 1\<rparr>" "store w1 = store w"
      using Suc.prems(1,2) False by (rule write_refused_round)
    have "nblocks bs (length (drop ?c rest)) < m"
      using nblocks_step [OF Suc.prems(3), of "length rest"] Suc.prems(4) False by simp
    then show ?thesis
      using Suc.IH [of w1 "drop ?c rest" False] Suc.prems w1 by (simp del: write_loop.simps)
  qed (use Suc.prems in auto)
qed simp

text \<open>With a block size of 0 the loop makes no progress.\<close>

lemma write_zero_block_size:
  assumes "refuses path (nn w)" "wire_ok path []" "rest \<noteq> []"
  shows "write_loop m net 0 path ow first rest w = None"
  using assms
proof (induction m arbitrary: w first)
  case (Suc m)
  obtain w1 where w1: "write_loop (Suc m) net 0 path ow first rest w
      = write_loop m net 0 path ow False (drop (min 0 (length rest)) rest) w1"
    "nn w1 = (nn w)\<lparr>nn_drawn := nn_drawn (nn w) + 1\<rparr>"
    using Suc.prems by (rule write_refused_round)
  then show ?case using Suc.IH [of w1 False] Suc.prems by (simp del: write_loop.simps)
qed simp

text \<open>Reading a path that is not a file.\<close>

lemma read_not_file:
  assumes "\<not> (\<exists>bs. namespace (ns_tree (nn_namesystem (nn w))) (SplitPath path) = Some (File bs))" "wire_ok path []"
  shows "\<exists>w'. ReadFile net path old w = Inr ((Status_OK, []), w')"
proof -
  have g: "GetBlocks path (nn_namesystem (nn w)) = []" by (rule GetBlocks_not_file [OF assms(1)])
  obtain w1 where w1: "net_call net (op_id kGetBlocks) (enc_string path) w
      = ((Status_OK, enc_int (word_of_nat (length ([] :: (Block \<times> DataNodeInfo list) list))) @ concat (map enc_Located [])), w1)"
    by (rule call_GetBlocks [of path "[]" w])
      (use assms(2) wire_okD(1) [OF assms(2)] g in \<open>simp_all add: wire_ok_def\<close>)
  have "ReadInt (InputBuffer_new (enc_int 0)) = Inr (0, \<lparr>ib_data = enc_int 0, ib_pos = 4\<rparr>)"
    using reads_InputBuffer_new [OF basic_reads(1), of 0 "[]"] by simp
  then show ?thesis
    using w1 by (simp add: ReadFile_def loop_count_def del: op_id.simps)
qed

end

section \<open>Termination\<close>

lemma write_loop_returns:
  assumes "0 < bs" "nblocks bs (length rest) < n"
  shows "\<exists>r. \<forall>k. write_loop (n + k) net bs path ow first rest w = Some r"
  using assms(2)
proof (induction n arbitrary: rest first w)
  case (Suc n)
  show ?case
  proof (cases "rest = []")
    case False
    have "nblocks bs (length rest) = Suc (nblocks bs (length rest - min bs (length rest)))"
      using False assms(1) by (intro nblocks_step) simp_all
    then have "nblocks bs (length (drop (min bs (length rest)) rest)) < n" using Suc.prems by simp
    note IH = Suc.IH [OF this]
    let ?req = "OutputBuffer_Data (if first then WriteBool ow (WriteString path OutputBuffer_new) else WriteString path OutputBuffer_new)"
    obtain st resp w1 where call: "net_call net (if first then op_id kStartFile else op_id kAddBlock) ?req w = ((st, resp), w1)"
      by (metis prod.exhaust)
    show ?thesis
    proof (cases "ReadLocated (InputBuffer_new resp)")
      case (Inr r)
      obtain block targets ib where r: "r = ((block, targets), ib)" by (metis prod.exhaust)
      let ?w2 = "send_block net block (take (min bs (length rest)) rest) targets w1"
      obtain res where res: "write_loop (n + k) net bs path ow False (drop (min bs (length rest)) rest)
          (fold (confirm_block net block (min bs (length rest))) targets ?w2) = Some res" for k
        using IH by blast
      then show ?thesis using False call Inr r
        by (cases "Status_ok st") (simp_all add: Let_def)
    qed (use False call in \<open>cases "Status_ok st"; simp add: Let_def\<close>)
  qed simp
qed simp

text \<open>C32. \<open>WriteFile\<close> ends: whatever the other side answers, with a positive block size the loop needs at most one round per block
  and one more to see that it is done; then it returns or raises, and more rounds make no difference.\<close>

theorem WriteFile_terminates:
  assumes "0 < unat block_size" "nblocks (unat block_size) (length data) < rounds"
  shows "\<exists>r. \<forall>k. WriteFile (rounds + k) net block_size path data overwrite w = Some r"
  using write_loop_returns [OF assms, of net path overwrite True w] by (cases "data = []") (simp_all add: WriteFile_def)

theorem WriteFile_terminates_witness:
  "\<exists>r. \<forall>k. WriteFile (2 + k) \<lparr>net_call = \<lambda>m req w. ((Status_OK, []), w), net_dial = \<lambda>h p bs w. None\<rparr> 4 ''/f'' [1, 2, 3] True () = Some r"
  by (rule WriteFile_terminates) (simp_all add: nblocks_def)

end
