(* ===== verification/Cluster.thy ===== *)
theory Cluster
  imports ClientLaws
begin

text \<open>
  A running NDFS: one NameNode and any number of DataNodes behind their addresses, with clients whose
  connections lead to them. The network is built from the models of both ends: a call runs \<open>CallRaw\<close> of
  the client against \<open>HandleConnection\<close> of the NameNode's server, a block transfer runs the client's bytes
  through the DataNode's \<open>HandleConnection\<close>. A server whose handler raises is gone: the client sees the end
  of the stream.

  The interpretation of \<open>cluster_net\<close> discharges what the client relies on; the properties are about the
  whole path from the client's call through the wire formats to the tree, the block map and the disks.
\<close>

record cluster =
  cl_nn :: NameNode
  cl_dns :: "string \<times> int16 \<rightharpoonup> BlockStorage"

definition cluster_call :: "int32 \<Rightarrow> byte list \<Rightarrow> cluster \<Rightarrow> (Status \<times> byte list) \<times> cluster" where
  "cluster_call m req w = (let (reply, nn') = exchange nn_handlers m req (cl_nn w) in (reply, w\<lparr>cl_nn := nn'\<rparr>))"

definition cluster_dial :: "string \<Rightarrow> int16 \<Rightarrow> byte list \<Rightarrow> cluster \<Rightarrow> (byte list \<times> cluster) option" where
  "cluster_dial h p sent w =
     (case cl_dns w (h, p) of
        None \<Rightarrow> None
      | Some st \<Rightarrow>
          (case Xceive_HandleConnection (fresh_conn [sent]) st of
             Inl e \<Rightarrow> Some ([], w\<lparr>cl_dns := (cl_dns w)((h, p) := None)\<rparr>)
           | Inr (c, st') \<Rightarrow> Some (cn_out c, w\<lparr>cl_dns := (cl_dns w)((h, p) \<mapsto> st')\<rparr>)))"

definition cluster_network :: "cluster network" where
  "cluster_network = \<lparr>net_call = cluster_call, net_dial = cluster_dial\<rparr>"

section \<open>The network delivers\<close>

lemma cluster_call_delivers:
  assumes "dispatch nn_handlers (request_message m req) (cl_nn w) = Inr (resp, nn')"
    and "length req + 4 \<le> max_message" "length (ob_buffer resp) < 2 ^ 32"
  shows "cluster_call m req w = ((Status_OK, ob_buffer resp), w\<lparr>cl_nn := nn'\<rparr>)"
  using exchange_delivers [OF assms] by (simp add: cluster_call_def)

lemma cluster_dial_write:
  assumes "cl_dns w (h, p) = Some st" "length data < 2 ^ 63"
  shows "cluster_dial h p (write_request bid data) w = Some ([1], w\<lparr>cl_dns := (cl_dns w)((h, p) \<mapsto>
    snd (StoreBlock (Block_Generate bid (word_of_nat (length data))) data st))\<rparr>)"
proof -
  obtain c where "Xceive_HandleConnection (fresh_conn [write_request bid data]) st
      = Inr (c, snd (StoreBlock (Block_Generate bid (word_of_nat (length data))) data st))" "cn_out c = [1]"
    by (rule xceive_write [of "fresh_conn [write_request bid data]" bid data "[]" st])
      (use assms(2) in \<open>simp_all add: intact_def write_request_def\<close>)
  then show ?thesis using assms(1) by (simp add: cluster_dial_def)
qed

lemma cluster_dial_read:
  assumes "cl_dns w (h, p) = Some st" "fetch_block bid st = Some data"
  shows "cluster_dial h p (read_request bid) w = Some (read_reply data, w)"
proof -
  obtain c where c: "Xceive_HandleConnection (fresh_conn [read_request bid]) st = Inr (c, st)"
    "cn_out c = (case fetch_block bid st of Some data \<Rightarrow> read_reply data | None \<Rightarrow> [])"
    by (rule xceive_read [of "fresh_conn [read_request bid]" bid "[]" st])
      (simp_all add: intact_def read_request_def)
  have "w\<lparr>cl_dns := (cl_dns w)((h, p) \<mapsto> st)\<rparr> = w" using assms(1) by (cases w) (simp add: fun_upd_idem)
  then show ?thesis using assms c by (simp add: cluster_dial_def)
qed

interpretation cluster: cluster_net cluster_network cl_nn cl_dns
proof unfold_locales
  fix m req and w :: cluster and resp nn'
  assume "dispatch nn_handlers (request_message m req) (cl_nn w) = Inr (resp, nn')"
    "length req + 4 \<le> max_message" "length (ob_buffer resp) < 2 ^ 32"
  then show "\<exists>w'. net_call cluster_network m req w = ((Status_OK, ob_buffer resp), w') \<and> cl_nn w' = nn' \<and> cl_dns w' = cl_dns w"
    by (simp add: cluster_network_def cluster_call_delivers)
next
  fix w :: cluster and h p st data bid
  assume "cl_dns w (h, p) = Some st" "length (data :: byte list) < 2 ^ 63"
  then show "\<exists>ack w'. net_dial cluster_network h p (write_request bid data) w = Some (ack, w') \<and> cl_nn w' = cl_nn w
      \<and> cl_dns w' = (cl_dns w)((h, p) \<mapsto> snd (StoreBlock (Block_Generate bid (word_of_nat (length data))) data st))"
    by (simp add: cluster_network_def cluster_dial_write)
next
  fix w :: cluster and h p st bid data
  assume "cl_dns w (h, p) = Some st" "fetch_block bid st = Some data"
  then show "\<exists>w'. net_dial cluster_network h p (read_request bid) w = Some (read_reply data, w') \<and> cl_nn w' = cl_nn w \<and> cl_dns w' = cl_dns w"
    by (simp add: cluster_network_def cluster_dial_read)
qed

section \<open>Properties\<close>

text \<open>The cluster is ready for a file: the NameNode is not in safe mode, the path may become a file, the
  first DataNode of the iteration order is reachable and can store blocks, the names fit the
  messages, and the next \<open>n\<close> block identifiers are different.\<close>

definition ready :: "string \<Rightarrow> bool \<Rightarrow> nat \<Rightarrow> cluster \<Rightarrow> bool" where
  "ready path overwrite n w \<longleftrightarrow> nn_inv (cl_nn w) \<and> \<not> InSafeMode (nn_namesystem (cl_nn w))
     \<and> wire_ok path (nn_targets (cl_nn w)) \<and> path \<noteq> [] \<and> last path \<noteq> CHR ''/''
     \<and> (overwrite \<or> namespace (ns_tree (nn_namesystem (cl_nn w))) (SplitPath path) = None)
     \<and> \<not> blocked (namespace (ns_tree (nn_namesystem (cl_nn w)))) (butlast (SplitPath path))
     \<and> (\<exists>st. cl_dns w (dn_addr (hd (nn_targets (cl_nn w)))) = Some st \<and> writable st)
     \<and> inj_on (nn_gen (cl_nn w)) {nn_drawn (cl_nn w)..<nn_drawn (cl_nn w) + n}"

lemma ready_overwrite: "ready path False n w \<Longrightarrow> ready path True n w"
  by (simp add: ready_def)

lemma ready_write:
  assumes "ready path overwrite (nblocks (unat bs) (length data)) w" "data \<noteq> []" "length data < 2 ^ 63" "0 < unat bs"
    and "nblocks (unat bs) (length data) < rounds"
  obtains w' ids cs where "WriteFile rounds cluster_network bs path data overwrite w = Some (Inr (Status_OK, w'))"
    "file_on (cl_nn w') (cl_dns w') path (nn_targets (cl_nn w)) ids cs" "concat cs = data"
    "length ids = nblocks (unat bs) (length data)"
    "\<forall>a. a \<noteq> dn_addr (hd (nn_targets (cl_nn w))) \<longrightarrow> cl_dns w' a = cl_dns w a"
proof -
  obtain st where "cl_dns w (dn_addr (hd (nn_targets (cl_nn w)))) = Some st" "writable st"
    using assms(1) by (auto simp: ready_def)
  then show thesis
    using cluster.write_file [of w path overwrite st data bs rounds] assms that unfolding ready_def by blast
qed

lemma ready_write_read:
  assumes "ready path overwrite (nblocks (unat bs) (length data)) w" "data \<noteq> []" "length data < 2 ^ 63" "0 < unat bs"
    and "nblocks (unat bs) (length data) < rounds"
    and "nblocks (unat bs) (length data) * (length (enc_dns (nn_targets (cl_nn w))) + 24) + 4 < 2 ^ 31"
  shows "\<exists>w' w''. WriteFile rounds cluster_network bs path data overwrite w = Some (Inr (Status_OK, w'))
    \<and> ReadFile cluster_network path old w' = Inr ((Status_OK, data), w'')"
proof -
  obtain w' ids cs where w': "WriteFile rounds cluster_network bs path data overwrite w = Some (Inr (Status_OK, w'))"
    "file_on (cl_nn w') (cl_dns w') path (nn_targets (cl_nn w)) ids cs" "concat cs = data"
    "length ids = nblocks (unat bs) (length data)"
    by (rule ready_write [OF assms(1-5)])
  have "wire_ok path (nn_targets (cl_nn w))" using assms(1) by (simp add: ready_def)
  then obtain w'' where "ReadFile cluster_network path old w' = Inr ((Status_OK, data), w'')"
    using cluster.read_file [OF w'(2), of old] assms(3,6) w'(3,4) by auto
  then show ?thesis using w'(1) by blast
qed

text \<open>C1. What a client writes is what a client reads: on a cluster that is ready for the path, \<open>WriteFile\<close> of any
  non-empty data, cut into blocks of any positive size, returns OK after one round per block, and a
  following \<open>ReadFile\<close> of the path returns OK with exactly the same bytes. (The block list has to fit
  into a message of 2 GB.)\<close>

theorem dfs_write_read:
  assumes "ready path overwrite (nblocks (unat bs) (length data)) w" "data \<noteq> []" "length data < 2 ^ 63" "0 < unat bs"
    and "nblocks (unat bs) (length data) < rounds"
    and "nblocks (unat bs) (length data) * (length (enc_dns (nn_targets (cl_nn w))) + 24) + 4 < 2 ^ 31"
  shows "\<exists>w' w''. WriteFile rounds cluster_network bs path data overwrite w = Some (Inr (Status_OK, w'))
    \<and> ReadFile cluster_network path old w' = Inr ((Status_OK, data), w'')"
  using assms by (rule ready_write_read)

text \<open>A cluster of a NameNode and its one DataNode.\<close>

definition sample_cluster :: cluster where
  "sample_cluster = \<lparr>cl_nn = sample_nn,
     cl_dns = [(''127.0.0.1'', 9010) \<mapsto> \<lparr>bs_data_dir = ''d'', bs_files = Map.empty, bs_can_create = (\<lambda>_. True)\<rparr>]\<rparr>"

lemma sample_targets:
  "nn_targets sample_nn = [\<lparr>dn_name = ''127.0.0.1:9010'', dn_host = ''127.0.0.1'', dn_port = 9010,
     dn_capacity = 100, dn_remaining = 50, dn_last_update = 0\<rparr>]"
  by (simp add: nn_targets_def nn_ord_def sample_nn_def one_dn_def Heartbeat_def FsNamesystem_new_def um_put_def)

lemma sample_targets_enc: "length (enc_dns (nn_targets sample_nn)) = 63"
  by (simp add: sample_targets enc_dns_def enc_DataNodeInfo_def)

lemma inj_of_nat_word:
  assumes "n < 1000"
  shows "inj_on (\<lambda>i. word_of_nat (i + 42) :: int64) {0..<n}"
proof (rule inj_onI)
  fix i j assume ij: "i \<in> {0..<n}" "j \<in> {0..<n}" "(word_of_nat (i + 42) :: int64) = word_of_nat (j + 42)"
  then have "unat (word_of_nat (i + 42) :: int64) = unat (word_of_nat (j + 42) :: int64)" by (simp only:)
  then show "i = j" using ij(1,2) assms by (simp add: unat_of_nat del: of_nat_add)
qed

lemma sample_ready: "ready ''/d/f'' False n sample_cluster" if "n < 1000"
proof -
  have P: "SplitPath ''/d/f'' = [''d'', ''f'']" by code_simp
  have "namespace InodeTree_new [''d'', ''f''] = None" "\<not> blocked (namespace InodeTree_new) [''d'']"
    by (simp_all add: InodeTree_new_def namespace_empty_dir not_blocked_empty_dir)
  moreover have "wire_ok ''/d/f'' (nn_targets sample_nn)"
    using sample_targets_enc
    by (simp add: wire_ok_def sample_targets dns_ok_def DataNodeInfo_ok_def fits_int32_def max_message_def)
  moreover have "nn_inv sample_nn" "\<not> InSafeMode (nn_namesystem sample_nn)"
    using sample_nn_inv one_dn_mode by (simp_all add: sample_nn_def)
  moreover have "inj_on (nn_gen sample_nn) {nn_drawn sample_nn..<nn_drawn sample_nn + n}"
    using inj_of_nat_word [OF that] by (simp add: sample_nn_def)
  ultimately show ?thesis
    by (simp add: ready_def sample_cluster_def P dn_addr_def sample_targets writable_def)
       (simp add: sample_nn_def)
qed

theorem dfs_write_read_witness:
  "\<exists>w' w''. WriteFile 4 cluster_network 2 ''/d/f'' [1, 2, 3, 4, 5] False sample_cluster = Some (Inr (Status_OK, w'))
    \<and> ReadFile cluster_network ''/d/f'' [] w' = Inr ((Status_OK, [1, 2, 3, 4, 5]), w'')"
proof -
  have n: "nblocks (unat (2 :: int64)) (length [1, 2, 3, 4, 5 :: byte]) = 3" by (simp add: nblocks_def)
  have "cl_nn sample_cluster = sample_nn" by (simp add: sample_cluster_def)
  then show ?thesis
    using dfs_write_read [of "''/d/f''" False 2 "[1, 2, 3, 4, 5]" sample_cluster 4 "[]"] sample_ready [of 3]
    unfolding n by (simp add: sample_targets_enc)
qed



text \<open>C34. A refused write is not reported: while the NameNode is in safe mode (for example because no DataNode
  has registered) \<open>WriteFile\<close> to a path that is no file returns OK, yet the namesystem and all disks are
  unchanged, and \<open>ReadFile\<close> of the path then returns OK with no data at all. With a block size of 0 the
  call never returns.\<close>

theorem dfs_refused_write_reports_ok:
  assumes "refuses path (cl_nn w)" "wire_ok path []" "data \<noteq> []"
  shows "(0 < unat bs \<and> nblocks (unat bs) (length data) < rounds \<longrightarrow>
      (\<exists>w' w''. WriteFile rounds cluster_network bs path data overwrite w = Some (Inr (Status_OK, w'))
        \<and> nn_namesystem (cl_nn w') = nn_namesystem (cl_nn w) \<and> cl_dns w' = cl_dns w
        \<and> ReadFile cluster_network path old w' = Inr ((Status_OK, []), w'')))
    \<and> WriteFile rounds cluster_network 0 path data overwrite w = None"
proof -
  have zero: "WriteFile rounds cluster_network 0 path data overwrite w = None"
    using cluster.write_zero_block_size [OF assms] assms(3) by (simp add: WriteFile_def)
  have "\<exists>w' w''. WriteFile rounds cluster_network bs path data overwrite w = Some (Inr (Status_OK, w'))
        \<and> nn_namesystem (cl_nn w') = nn_namesystem (cl_nn w) \<and> cl_dns w' = cl_dns w
        \<and> ReadFile cluster_network path old w' = Inr ((Status_OK, []), w'')"
    if a: "0 < unat bs" "nblocks (unat bs) (length data) < rounds"
  proof -
    obtain w' where w': "write_loop rounds cluster_network (unat bs) path overwrite True data w = Some (Inr (Status_OK, w'))"
      "nn_namesystem (cl_nn w') = nn_namesystem (cl_nn w)" "refuses path (cl_nn w')" "cl_dns w' = cl_dns w"
      using cluster.write_refused [OF assms(1,2) a, of overwrite True] by blast
    moreover obtain w'' where "ReadFile cluster_network path old w' = Inr ((Status_OK, []), w'')"
      using cluster.read_not_file [of w' path old] w'(3) assms(2) by (auto simp: refuses_def)
    ultimately show ?thesis using assms(3) by (auto simp: WriteFile_def)
  qed
  then show ?thesis using zero by blast
qed

theorem dfs_refused_write_reports_ok_witness:
  "let w = \<lparr>cl_nn = sample_nn\<lparr>nn_namesystem := FsNamesystem_new\<rparr>, cl_dns = Map.empty\<rparr>
   in (\<exists>w' w''. WriteFile 2 cluster_network 10 ''/f'' [1, 2, 3] True w = Some (Inr (Status_OK, w'))
        \<and> ReadFile cluster_network ''/f'' [] w' = Inr ((Status_OK, []), w''))"
proof -
  let ?w = "\<lparr>cl_nn = sample_nn\<lparr>nn_namesystem := FsNamesystem_new\<rparr>, cl_dns = Map.empty\<rparr> :: cluster"
  have "nn_inv (cl_nn ?w)" using nn_inv_update(1) [OF sample_nn_inv ns_inv_new] by simp
  moreover have "SplitPath ''/f'' = [''f'']" by code_simp
  ultimately have "refuses ''/f'' (cl_nn ?w)"
    by (simp add: refuses_def InSafeMode_def FsNamesystem_new_def InodeTree_new_def namespace_empty_dir)
  moreover have "wire_ok ''/f'' []" by (simp add: wire_ok_def max_message_def dns_ok_def fits_int32_def enc_dns_def)
  moreover have "nblocks (unat (10 :: int64)) (length [1, 2, 3 :: byte]) = 1" by (simp add: nblocks_def)
  ultimately show ?thesis
    using dfs_refused_write_reports_ok [of "''/f''" ?w "[1, 2, 3]" 10 2 True "[]"] unfolding Let_def by auto
qed

end
