(* ===== verification/XceiveServer.thy ===== *)
theory XceiveServer
  imports DataXceive AcceptQueue
begin

text \<open>
  The threads of \<open>DataXceiveServer\<close> (\<^verbatim>\<open>src/ndfs/data_xceive_server.h\<close>): \<open>Start\<close> and \<open>Stop\<close>, one acceptor and four
  workers on a queue of sockets. What a worker does with a socket is \<open>Xceive_HandleConnection\<close>. Unlike the
  RPC server the class has no destructor: threads that still run when it is destroyed end the
  process (\<open>Xceive_destroy\<close>).
\<close>

record XceiveServer =
  xs_listen_fd :: int
  xs_running :: bool
  xs_joinable :: bool       \<comment> \<open>the threads have been started and not joined\<close>
  xs_pending :: "int list"
  xs_active :: "int list"   \<comment> \<open>sockets that a worker is handling\<close>
  xs_closed :: "int list"   \<comment> \<open>calls of \<open>close\<close> on the listening socket\<close>

definition XceiveServer_new :: XceiveServer where
  "XceiveServer_new = \<lparr>xs_listen_fd = -1, xs_running = False, xs_joinable = False, xs_pending = [], xs_active = [], xs_closed = []\<rparr>"

text \<open>\<open>fd\<close>, \<open>binds\<close> and \<open>listens\<close> are the results of \<open>socket\<close>, \<open>bind\<close> and \<open>listen\<close>.\<close>

definition Xceive_Start :: "int \<Rightarrow> bool \<Rightarrow> bool \<Rightarrow> XceiveServer \<Rightarrow> bool \<times> XceiveServer" where
  "Xceive_Start fd binds listens st =
     (let st1 = st\<lparr>xs_listen_fd := fd\<rparr>
      in if fd < 0 then (False, st1)
         else if \<not> binds \<or> \<not> listens then (False, st1\<lparr>xs_closed := xs_closed st1 @ [fd]\<rparr>)
         else (True, st1\<lparr>xs_running := True, xs_joinable := True\<rparr>))"

text \<open>\<open>Stop\<close> returns when all threads have ended.\<close>

definition Xceive_Stop :: "XceiveServer \<Rightarrow> XceiveServer" where
  "Xceive_Stop st =
     (let st1 = st\<lparr>xs_running := False\<rparr>;
          st2 = (if xs_listen_fd st1 \<ge> 0
                 then st1\<lparr>xs_closed := xs_closed st1 @ [xs_listen_fd st1], xs_listen_fd := -1\<rparr> else st1)
      in st2\<lparr>xs_joinable := False\<rparr>)"

text \<open>The destructor of a joinable \<open>std::thread\<close> calls \<open>std::terminate\<close>; the result is whether the process goes on.\<close>

definition Xceive_destroy :: "XceiveServer \<Rightarrow> bool" where
  "Xceive_destroy st \<longleftrightarrow> \<not> xs_joinable st"

definition Xceive_AcceptLoop_body :: "int \<Rightarrow> XceiveServer \<Rightarrow> XceiveServer" where
  "Xceive_AcceptLoop_body fd st = (if fd < 0 then st else st\<lparr>xs_pending := xs_pending st @ [fd]\<rparr>)"

definition Xceive_WorkerLoop_body :: "XceiveServer \<Rightarrow> int option \<times> XceiveServer" where
  "Xceive_WorkerLoop_body st =
     (if \<not> xs_running st then (None, st)
      else if xs_pending st \<noteq> []
      then let fd = last (xs_pending st); st1 = st\<lparr>xs_pending := butlast (xs_pending st)\<rparr>
           in if fd \<ge> 0 then (Some fd, st1\<lparr>xs_active := fd # xs_active st1\<rparr>) else (None, st1)
      else (None, st))"

definition xceive_workers :: nat where
  "xceive_workers = 4"

text \<open>The interleavings, as for the RPC server. The joins at the end of \<open>Stop\<close> do not touch the queue.\<close>

inductive xceive_step :: "XceiveServer \<Rightarrow> queue_event list \<Rightarrow> XceiveServer \<Rightarrow> bool" where
  x_accept: "0 \<le> fd \<Longrightarrow> fd \<notin> set (xs_pending st) \<Longrightarrow> fd \<notin> set (xs_active st) \<Longrightarrow>
    xceive_step st [Accepted fd] (Xceive_AcceptLoop_body fd st)"
| x_take: "length (xs_active st) < xceive_workers \<Longrightarrow> Xceive_WorkerLoop_body st = (Some fd, st') \<Longrightarrow>
    xceive_step st [Taken fd] st'"
| x_finish: "fd \<in> set (xs_active st) \<Longrightarrow>
    xceive_step st [Finished fd] (st\<lparr>xs_active := remove1 fd (xs_active st)\<rparr>)"
| x_stop: "xceive_step st [] (Xceive_Stop st)"

inductive_cases xceive_stepE: "xceive_step st ev st'"

lemma Xceive_WorkerLoop_body_Some:
  assumes "Xceive_WorkerLoop_body st = (Some fd, st')"
  obtains ps where "xs_running st" "xs_pending st = ps @ [fd]" "0 \<le> fd"
    "st' = st\<lparr>xs_pending := ps, xs_active := fd # xs_active st\<rparr>"
  using assms
  by (cases "xs_pending st" rule: rev_cases) (auto simp: Xceive_WorkerLoop_body_def Let_def split: if_splits)

interpretation xceive: accept_queue xs_pending xs_active "\<lambda>_. xceive_workers" xceive_step
proof
  fix st ev st'
  assume "xceive_step st ev st'"
  then show "queue_effect xceive_workers (xs_pending st) (xs_active st) ev (xs_pending st') (xs_active st')"
    by (rule xceive_stepE)
      (auto simp: Xceive_AcceptLoop_body_def Xceive_Stop_def Let_def elim!: Xceive_WorkerLoop_body_Some intro: queue_effect.intros)
qed simp

text \<open>The accounting of the RPC server holds here too: every accepted connection waits, is being handled by one of the
  four workers, or is finished.\<close>

theorem xceive_queue_accounts:
  assumes "queue_run xceive_step XceiveServer_new tr st"
  shows "count_list tr (Accepted fd) = count_list tr (Finished fd)
      + (if fd \<in> set (xs_pending st) then 1 else 0) + (if fd \<in> set (xs_active st) then 1 else 0)
    \<and> \<not> (fd \<in> set (xs_pending st) \<and> fd \<in> set (xs_active st))
    \<and> distinct (xs_pending st) \<and> distinct (xs_active st) \<and> length (xs_active st) \<le> 4"
  using xceive.accounts [OF assms, of fd] by (simp add: XceiveServer_new_def xceive_workers_def)

text \<open>A server that was started may be destroyed only after \<open>Stop\<close>; after a failed start \<open>Stop\<close> closes the socket again.\<close>

lemma Xceive_destroy_started:
  "Xceive_Start fd binds listens st = (True, st') \<Longrightarrow> \<not> Xceive_destroy st' \<and> Xceive_destroy (Xceive_Stop st')"
  by (auto simp: Xceive_Start_def Xceive_Stop_def Xceive_destroy_def Let_def split: if_splits)

lemma Xceive_Stop_closes_twice:
  "0 \<le> fd \<Longrightarrow> xs_closed (Xceive_Stop (snd (Xceive_Start fd False listens XceiveServer_new))) = [fd, fd]"
  by (simp add: Xceive_Start_def Xceive_Stop_def XceiveServer_new_def)

end
