(* ===== verification/DataNode.thy ===== *)
theory DataNode
  imports Cluster XceiveServer RpcQueue
begin

text \<open>
  Model of \<^verbatim>\<open>src/ndfs/data_node.h\<close>: a DataNode announces itself with a heartbeat and a block report when it starts, and
  with further heartbeats afterwards. The answers of its file system (free space, directory entries)
  are arguments; its connection to the NameNode is a \<open>network\<close>, as the client's is. Exceptions of
  \<open>GetBlockReport\<close> leave \<open>Start\<close>.
\<close>

record DataNode =
  dnode_info :: DataNodeInfo
  dnode_client :: RpcClient
  dnode_xceiver :: XceiveServer
  dnode_running :: bool

definition DataNode_new :: "int32 \<Rightarrow> (int64 \<times> int64) option \<Rightarrow> DataNode" where
  "DataNode_new xceiver_port space =
     \<lparr>dnode_info = \<lparr>dn_name = ''127.0.0.1'' @ '':'' @ show_int (sint xceiver_port), dn_host = ''127.0.0.1'',
        dn_port = xceiver_port, dn_capacity = GetCapacity space, dn_remaining = GetRemaining space,
        dn_last_update = 0\<rparr>, dnode_client = RpcClient_new, dnode_xceiver = XceiveServer_new, dnode_running = False\<rparr>"

definition SendHeartbeat :: "'w network \<Rightarrow> (int64 \<times> int64) option \<Rightarrow> DataNode \<Rightarrow> 'w \<Rightarrow> 'w" where
  "SendHeartbeat net space dn w =
     (let info = dnode_info dn;
          req = WriteLong (GetRemaining space) (WriteLong (GetCapacity space) (WriteInt (dn_port info)
                  (WriteString (dn_host info) (WriteString (dn_name info) OutputBuffer_new))))
      in snd (net_call net (op_id kHeartbeat) (OutputBuffer_Data req) w))"

definition SendBlockReport :: "'w network \<Rightarrow> dir_entry list \<Rightarrow> DataNode \<Rightarrow> 'w \<Rightarrow> 'w result" where
  "SendBlockReport net entries dn w =
     (case GetBlockReport entries of
        Inl e \<Rightarrow> Inl e
      | Inr blocks \<Rightarrow>
          let req = fold WriteBlock blocks (WriteInt (word_of_nat (length blocks))
                      (WriteString (dn_name (dnode_info dn)) OutputBuffer_new))
          in Inr (snd (net_call net (op_id kBlockReport) (OutputBuffer_Data req) w)))"

text \<open>When the NameNode cannot be reached, the transfer server stays up.\<close>

definition DataNode_Start :: "sockets \<Rightarrow> 'w network \<Rightarrow> (int64 \<times> int64) option \<Rightarrow> dir_entry list \<Rightarrow>
    DataNode \<Rightarrow> 'w \<Rightarrow> (bool \<times> DataNode \<times> 'w) result" where
  "DataNode_Start sk net space entries dn w =
     (let (served, xs) = Xceive_Start (sk_listen sk) (sk_binds sk) (sk_listens sk) (dnode_xceiver dn);
          dn1 = dn\<lparr>dnode_xceiver := xs\<rparr>
      in if \<not> served then Inr (False, dn1, w)
         else
           let (connected, rc) = Connect (sk_client sk) (sk_connects sk) (dnode_client dn1);
               dn2 = dn1\<lparr>dnode_client := rc\<rparr>
           in if \<not> connected then Inr (False, dn2, w)
              else case SendBlockReport net entries dn2 (SendHeartbeat net space dn2 w) of
                     Inl e \<Rightarrow> Inl e
                   | Inr w1 \<Rightarrow> Inr (True, dn2\<lparr>dnode_running := True\<rparr>, w1))"

definition DataNode_Stop :: "DataNode \<Rightarrow> DataNode" where
  "DataNode_Stop dn =
     (let dn1 = dn\<lparr>dnode_running := False\<rparr>;
          dn2 = dn1\<lparr>dnode_client := Disconnect (dnode_client dn1)\<rparr>
      in dn2\<lparr>dnode_xceiver := Xceive_Stop (dnode_xceiver dn2)\<rparr>)"

text \<open>The heartbeat thread, for as many rounds as \<open>running_\<close> stays set, with the space at each round.\<close>

definition HeartbeatLoop :: "'w network \<Rightarrow> (int64 \<times> int64) option list \<Rightarrow> DataNode \<Rightarrow> 'w \<Rightarrow> 'w" where
  "HeartbeatLoop net spaces dn w = fold (\<lambda>space. SendHeartbeat net space dn) spaces w"

section \<open>The requests\<close>

lemma reads_req_Heartbeat:
  "fits_int32 name \<Longrightarrow> fits_int32 hst \<Longrightarrow>
   reads req_Heartbeat (enc_string name @ enc_string hst @ enc_int port @ enc_long capacity @ enc_long remaining)
     (name, hst, port, capacity, remaining)"
  unfolding req_Heartbeat_def
  by - (rule reads_bind reads_bind_return codec_intros | simp)+

lemma reads_req_BlockReport:
  assumes "fits_int32 name" "fits_int32 blocks"
  shows "reads req_BlockReport (enc_string name @ enc_int (word_of_nat (length blocks)) @ concat (map enc_Block blocks))
     (name, blocks)"
proof -
  have len: "sint (word_of_nat (length blocks) :: int32) = int (length blocks)"
    using assms(2) by (simp add: fits_int32_def sint_of_nat)
  have "reads (bindr (read_n ReadBlock (length blocks)) (\<lambda>blocks. returnr (name, blocks)))
      (concat (map enc_Block blocks)) (name, blocks)"
    by (rule reads_bind_return [OF block.read_loop]) (simp_all add: list_all_iff)
  then show ?thesis
    unfolding req_BlockReport_def
    by (intro reads_bind [OF string.decode [OF assms(1)]] reads_bind [OF basic_reads(1)]) (simp add: len)
qed

definition dn_wire_ok :: "DataNode \<Rightarrow> Block list \<Rightarrow> bool" where
  "dn_wire_ok dn blocks \<longleftrightarrow>
     length (dn_name (dnode_info dn)) + length (dn_host (dnode_info dn)) + 24 * length blocks + 64 \<le> max_message"

context cluster_net
begin

lemma heartbeat:
  assumes "dn_wire_ok dn blocks"
  shows "nn (SendHeartbeat net space dn w)
      = (nn w)\<lparr>nn_namesystem := Heartbeat (dn_name (dnode_info dn)) (dn_host (dnode_info dn)) (dn_port (dnode_info dn))
          (GetCapacity space) (GetRemaining space) (nn_clock (nn w)) (nn_namesystem (nn w))\<rparr>
    \<and> store (SendHeartbeat net space dn w) = store w"
proof -
  let ?i = "dnode_info dn"
  let ?bs = "enc_string (dn_name ?i) @ enc_string (dn_host ?i) @ enc_int (dn_port ?i)
      @ enc_long (GetCapacity space) @ enc_long (GetRemaining space)"
  let ?x = "(dn_name ?i, dn_host ?i, dn_port ?i, GetCapacity space, GetRemaining space)"
  let ?f = "\<lambda>(name, hst, port, capacity, remaining) resp nn.
     (resp, nn\<lparr>nn_namesystem := Heartbeat name hst port capacity remaining (nn_clock nn) (nn_namesystem nn)\<rparr>)"
  obtain w' where w': "net_call net (op_id kHeartbeat) ?bs w = ((Status_OK, ob_buffer OutputBuffer_new), w')"
    "nn w' = snd (?f ?x OutputBuffer_new (nn w))" "store w' = store w"
  proof (rule call_op [of kHeartbeat req_Heartbeat ?f ?bs ?x w])
    show "handler_of kHeartbeat = handle req_Heartbeat ?f" by (simp add: on_Heartbeat_def)
    show "reads req_Heartbeat ?bs ?x"
      by (rule reads_req_Heartbeat) (use assms in \<open>simp_all add: dn_wire_ok_def fits_int32_def max_message_def\<close>)
    show "length ?bs + 4 \<le> max_message" using assms by (simp add: dn_wire_ok_def)
    show "?f ?x OutputBuffer_new (nn w) = (OutputBuffer_new, snd (?f ?x OutputBuffer_new (nn w)))" by simp
  qed simp_all
  have "SendHeartbeat net space dn w = snd (net_call net (op_id kHeartbeat) ?bs w)"
    by (simp add: SendHeartbeat_def Let_def)
  then show ?thesis using w' by simp
qed

lemma block_report:
  assumes "dn_wire_ok dn blocks" "GetBlockReport entries = Inr blocks"
  shows "\<exists>w'. SendBlockReport net entries dn w = Inr w'
    \<and> nn w' = (nn w)\<lparr>nn_namesystem := BlockReport (dn_name (dnode_info dn)) blocks (nn_namesystem (nn w))\<rparr>
    \<and> store w' = store w"
proof -
  let ?name = "dn_name (dnode_info dn)"
  let ?bs = "enc_string ?name @ enc_int (word_of_nat (length blocks)) @ concat (map enc_Block blocks)"
  let ?f = "\<lambda>(name, blocks) resp nn.
     (WriteInt 1 resp, nn\<lparr>nn_namesystem := BlockReport name blocks (nn_namesystem nn)\<rparr>)"
  have enc: "length (concat (map enc_Block blocks)) = 24 * length blocks"
    by (induction blocks) (simp_all add: enc_Block_def)
  obtain w' where w': "net_call net (op_id kBlockReport) ?bs w = ((Status_OK, ob_buffer (WriteInt 1 OutputBuffer_new)), w')"
    "nn w' = snd (?f (?name, blocks) OutputBuffer_new (nn w))" "store w' = store w"
  proof (rule call_op [of kBlockReport req_BlockReport ?f ?bs "(?name, blocks)" w])
    show "handler_of kBlockReport = handle req_BlockReport ?f" by (simp add: on_BlockReport_def)
    show "reads req_BlockReport ?bs (?name, blocks)"
      by (rule reads_req_BlockReport) (use assms(1) in \<open>simp_all add: dn_wire_ok_def fits_int32_def max_message_def\<close>)
    show "length ?bs + 4 \<le> max_message" using assms(1) enc by (simp add: dn_wire_ok_def)
    show "?f (?name, blocks) OutputBuffer_new (nn w) = (WriteInt 1 OutputBuffer_new, snd (?f (?name, blocks) OutputBuffer_new (nn w)))"
      by simp
  qed simp_all
  have "SendBlockReport net entries dn w = Inr (snd (net_call net (op_id kBlockReport) ?bs w))"
    using assms(2) by (simp add: SendBlockReport_def block.write_fold Let_def)
  then show ?thesis using w' by simp
qed

end

section \<open>Life cycle\<close>

lemma started_sockets:
  assumes "sockets_ok sk"
  shows "\<exists>d. dnode_info d = dnode_info dn \<and> IsConnected (dnode_client d) \<and> xs_running (dnode_xceiver d)
    \<and> DataNode_Start sk net space entries dn w =
       (case SendBlockReport net entries d (SendHeartbeat net space d w) of
          Inl e \<Rightarrow> Inl e | Inr w1 \<Rightarrow> Inr (True, d\<lparr>dnode_running := True\<rparr>, w1))"
proof -
  let ?xs = "(dnode_xceiver dn)\<lparr>xs_listen_fd := sk_listen sk, xs_running := True, xs_joinable := True\<rparr>"
  let ?dn = "dn\<lparr>dnode_xceiver := ?xs, dnode_client := (dnode_client dn)\<lparr>rc_fd := sk_client sk\<rparr>\<rparr>"
  show ?thesis
    using assms by (intro exI [of _ ?dn]) (simp add: sockets_ok_def DataNode_Start_def Xceive_Start_def Connect_def IsConnected_def Let_def)
qed

text \<open>A DataNode that cannot reach its NameNode reports failure with its transfer server running, so that destroying it
  ends the process; a started DataNode can be destroyed after \<open>Stop\<close>, with its connection closed.\<close>

lemma start_without_namenode:
  assumes "0 \<le> sk_listen sk" "sk_binds sk" "sk_listens sk" "\<not> sk_connects sk"
  shows "\<exists>dn'. DataNode_Start sk net space entries dn w = Inr (False, dn', w) \<and> \<not> Xceive_destroy (dnode_xceiver dn')"
  using assms by (cases "sk_client sk < 0") (simp_all add: DataNode_Start_def Xceive_Start_def Connect_def Xceive_destroy_def Let_def)

lemma DataNode_Stop_clean:
  "\<not> dnode_running (DataNode_Stop dn) \<and> \<not> IsConnected (dnode_client (DataNode_Stop dn)) \<and> Xceive_destroy (dnode_xceiver (DataNode_Stop dn))"
  by (simp add: DataNode_Stop_def Disconnect_def IsConnected_def Xceive_Stop_def Xceive_destroy_def Let_def)

section \<open>Properties\<close>

text \<open>C31. A DataNode that starts (its sockets can be opened and the NameNode reached) is known to the NameNode: afterwards it runs, and the NameNode's table has it under its
  name with its address, capacity and free space, and every block file on its disk lists it as a
  replica unless the block already had three replicas; blocks that it does not have keep their
  replicas.\<close>

theorem datanode_start_registers:
  assumes "nn_inv (cl_nn w)" "dn_wire_ok dn blocks" "GetBlockReport entries = Inr blocks" "sockets_ok sk"
  shows "\<exists>w' dn' info. DataNode_Start sk cluster_network space entries dn w = Inr (True, dn', w')
    \<and> dnode_running dn' \<and> IsConnected (dnode_client dn') \<and> xs_running (dnode_xceiver dn') \<and> nn_inv (cl_nn w')
    \<and> um_get (ns_datanodes (nn_namesystem (cl_nn w'))) (dn_name (dnode_info dn)) = Some info
    \<and> dn_host info = dn_host (dnode_info dn) \<and> dn_port info = dn_port (dnode_info dn)
    \<and> dn_capacity info = GetCapacity space \<and> dn_remaining info = GetRemaining space
    \<and> (\<forall>b \<in> set blocks. has_replica (dn_name (dnode_info dn)) (replicas (ns_block_to_datanodes (nn_namesystem (cl_nn w'))) (block_id b))
         \<or> length (replicas (ns_block_to_datanodes (nn_namesystem (cl_nn w))) (block_id b)) \<ge> 3)
    \<and> (\<forall>i. i \<notin> block_id ` set blocks \<longrightarrow> replicas (ns_block_to_datanodes (nn_namesystem (cl_nn w'))) i
         = replicas (ns_block_to_datanodes (nn_namesystem (cl_nn w))) i)"
proof -
  obtain d where d: "dnode_info d = dnode_info dn" "IsConnected (dnode_client d)" "xs_running (dnode_xceiver d)"
    "DataNode_Start sk cluster_network space entries dn w =
       (case SendBlockReport cluster_network entries d (SendHeartbeat cluster_network space d w) of
          Inl e \<Rightarrow> Inl e | Inr w1 \<Rightarrow> Inr (True, d\<lparr>dnode_running := True\<rparr>, w1))"
    using started_sockets [OF assms(4), of dn cluster_network space entries w] by blast
  have wire: "dn_wire_ok d blocks" using assms(2) d(1) by (simp add: dn_wire_ok_def)
  let ?i = "dnode_info dn" and ?ns = "nn_namesystem (cl_nn w)" and ?w1 = "SendHeartbeat cluster_network space d w"
  let ?ns1 = "Heartbeat (dn_name ?i) (dn_host ?i) (dn_port ?i) (GetCapacity space) (GetRemaining space) (nn_clock (cl_nn w)) ?ns"
  have w1: "cl_nn ?w1 = (cl_nn w)\<lparr>nn_namesystem := ?ns1\<rparr>" using cluster.heartbeat [OF wire, of space w] d(1) by simp
  obtain w' where w': "SendBlockReport cluster_network entries d ?w1 = Inr w'"
    "cl_nn w' = (cl_nn ?w1)\<lparr>nn_namesystem := BlockReport (dn_name ?i) blocks ?ns1\<rparr>"
    using cluster.block_report [OF wire assms(3), of ?w1] w1 d(1) by auto
  have inv1: "ns_inv ?ns1" using nn_inv_ns(1) [OF assms(1)] by (rule Heartbeat_inv)
  obtain info where info: "um_get (ns_datanodes ?ns1) (dn_name ?i) = Some info" "dn_host info = dn_host ?i"
    "dn_port info = dn_port ?i" "dn_capacity info = GetCapacity space" "dn_remaining info = GetRemaining space"
    by (cases "um_get (ns_datanodes ?ns) (dn_name ?i)") (simp_all add: Heartbeat_def)
  have name: "dn_name info = dn_name ?i" using ns_invD(3) [OF inv1] info(1) by (simp add: named_by_key_def)
  have same: "ns_block_to_datanodes ?ns1 = ns_block_to_datanodes ?ns"
    by (simp add: Heartbeat_def split: option.split)
  have reps: "replicas (ns_block_to_datanodes (BlockReport (dn_name ?i) blocks ?ns1)) b
      = (if b \<in> block_id ` set blocks \<and> \<not> has_replica (dn_name ?i) (replicas (ns_block_to_datanodes ?ns) b)
            \<and> length (replicas (ns_block_to_datanodes ?ns) b) < 3
         then replicas (ns_block_to_datanodes ?ns) b @ [info] else replicas (ns_block_to_datanodes ?ns) b)" for b
    using info(1) replicas_fold_report [OF name] by (simp add: BlockReport_def same kDefaultReplication_def)
  have "ns_inv (BlockReport (dn_name ?i) blocks ?ns1)" using inv1 by (rule BlockReport_inv)
  then have "nn_inv (cl_nn w')" using assms(1) w1 w'(2) by (simp add: nn_inv_update)
  moreover have "DataNode_Start sk cluster_network space entries dn w = Inr (True, d\<lparr>dnode_running := True\<rparr>, w')"
    using w'(1) d(4) by simp
  moreover have "um_get (ns_datanodes (nn_namesystem (cl_nn w'))) (dn_name ?i) = Some info"
    using w'(2) info(1) by (simp add: BlockReport_def)
  moreover have "nn_namesystem (cl_nn w') = BlockReport (dn_name ?i) blocks ?ns1" using w'(2) by simp
  ultimately show ?thesis
    using info reps name d(2,3) by (intro exI [of _ w'] exI [of _ "d\<lparr>dnode_running := True\<rparr>"] exI [of _ info]) (auto simp: has_replica_def not_less IsConnected_def)
qed

theorem datanode_start_registers_witness:
  "\<exists>w' dn' info. DataNode_Start \<lparr>sk_listen = 3, sk_binds = True, sk_listens = True, sk_client = 4, sk_connects = True\<rparr>
        cluster_network (Some (100, 60)) [(''7.blk'', Some 5)] (DataNode_new 7 None) sample_cluster = Inr (True, dn', w')
    \<and> um_get (ns_datanodes (nn_namesystem (cl_nn w'))) ''127.0.0.1:7'' = Some info \<and> dn_remaining info = 60"
proof -
  let ?b = "Block_default\<lparr>block_id := 7, num_bytes := 5\<rparr>"
  have r: "GetBlockReport [(''7.blk'', Some 5)] = Inr [?b]" by code_simp
  have "show_nat 7 = ''7''" by code_simp
  then have s: "show_int 7 = ''7''" by (simp add: show_int_def)
  have ok: "dn_wire_ok (DataNode_new 7 None) [?b]"
    by (simp add: dn_wire_ok_def DataNode_new_def s max_message_def)
  have name: "dn_name (dnode_info (DataNode_new 7 None)) = ''127.0.0.1:7''" by (simp add: DataNode_new_def s)
  have inv: "nn_inv (cl_nn sample_cluster)" by (simp add: sample_cluster_def sample_nn_inv)
  have rem: "GetRemaining (Some (100, 60)) = 60" by (simp add: GetRemaining_def)
  have sk: "sockets_ok \<lparr>sk_listen = 3, sk_binds = True, sk_listens = True, sk_client = 4, sk_connects = True\<rparr>" by (simp add: sockets_ok_def)
  from datanode_start_registers [OF inv ok r sk, of "Some (100, 60)"] show ?thesis
    unfolding name rem by blast
qed

end
