(* ===== verification/SequenceFile.thy ===== *)
theory SequenceFile
  imports Writables
begin

text \<open>
  Model of \<^verbatim>\<open>src/io/sequence_file.h\<close>: the writer and the reader of key/value files with a magic number, a
  sync marker after every hundred records, and length-prefixed records. The file under the writer's
  stream is a list of bytes; the reader's stream has a position and a fail state, as \<open>std::ifstream\<close> has
  (a short read sets it, and a stream in it delivers nothing more). Whether a path can be opened is an
  argument. The loop of \<open>Next\<close> is a total function: every round consumes four bytes or stops.
\<close>

section \<open>Writer\<close>

definition kMagic :: "byte list" where
  "kMagic = [83, 69, 81, 2]"

definition kSyncEscape :: int32 where
  "kSyncEscape = -1"

definition kSyncInterval :: nat where
  "kSyncInterval = 100"

record SequenceFileWriter =
  sw_open :: bool
  sw_file :: "byte list"
  sw_sync :: "byte list"
  sw_count :: nat

text \<open>\<open>sync\<close> is what the random generator delivers: 16 bytes.\<close>

definition SequenceFileWriter_new :: "byte list \<Rightarrow> SequenceFileWriter" where
  "SequenceFileWriter_new sync = \<lparr>sw_open = False, sw_file = [], sw_sync = sync, sw_count = 0\<rparr>"

definition WriteRaw :: "byte list \<Rightarrow> SequenceFileWriter \<Rightarrow> SequenceFileWriter" where
  "WriteRaw bs w = (if sw_open w then w\<lparr>sw_file := sw_file w @ bs\<rparr> else w)"

definition Writer_Open :: "bool \<Rightarrow> string \<Rightarrow> SequenceFileWriter \<Rightarrow> Status \<times> SequenceFileWriter" where
  "Writer_Open opens path w =
     (if \<not> opens then (Status_IOError (''cannot open: '' @ path), w\<lparr>sw_open := False\<rparr>)
      else
        let w1 = w\<lparr>sw_open := True, sw_file := []\<rparr>;
            w2 = WriteRaw kMagic w1;
            w3 = WriteRaw (sw_sync w2) w2
        in (Status_OK, w3\<lparr>sw_count := 0\<rparr>))"

definition AppendRaw :: "byte list \<Rightarrow> byte list \<Rightarrow> SequenceFileWriter \<Rightarrow> Status \<times> SequenceFileWriter" where
  "AppendRaw key_data val_data w =
     (if key_data = [] then (Status_InvalidArg ''zero-length key'', w)
      else
        let record0 = OutputBuffer_new;
            record1 = (if sw_count w > 0 \<and> sw_count w mod kSyncInterval = 0
                       then WriteRawBytes (sw_sync w) (WriteInt kSyncEscape record0) else record0);
            record2 = WriteInt (word_of_nat (length key_data + length val_data)) record1;
            record3 = WriteInt (word_of_nat (length key_data)) record2;
            record4 = WriteRawBytes val_data (WriteRawBytes key_data record3);
            w1 = WriteRaw (OutputBuffer_Data record4) w
        in (Status_OK, w1\<lparr>sw_count := sw_count w1 + 1\<rparr>))"

definition Append :: "Writable \<Rightarrow> Writable \<Rightarrow> SequenceFileWriter \<Rightarrow> Status \<times> SequenceFileWriter" where
  "Append key val w =
     (let kb = Write key OutputBuffer_new; vb = Write val OutputBuffer_new
      in AppendRaw (OutputBuffer_Data kb) (OutputBuffer_Data vb) w)"

definition Writer_Close :: "SequenceFileWriter \<Rightarrow> SequenceFileWriter" where
  "Writer_Close w = w\<lparr>sw_open := False\<rparr>"

section \<open>Reader\<close>

record SequenceFileReader =
  sr_file :: "byte list"
  sr_pos :: nat
  sr_fail :: bool
  sr_sync :: "byte list"
  sr_key :: "byte list"
  sr_val :: "byte list"

definition SequenceFileReader_new :: SequenceFileReader where
  "SequenceFileReader_new = \<lparr>sr_file = [], sr_pos = 0, sr_fail = False, sr_sync = replicate kMD5Len 0,
     sr_key = [], sr_val = []\<rparr>"

text \<open>\<open>ReadRaw\<close> returns the bytes that arrived and whether they are as many as were asked for.\<close>

definition ReadRaw :: "nat \<Rightarrow> SequenceFileReader \<Rightarrow> (bool \<times> byte list) \<times> SequenceFileReader" where
  "ReadRaw n r =
     (if sr_fail r then ((n = 0, []), r)
      else
        let got = take n (drop (sr_pos r) (sr_file r))
        in ((length got = n, got),
            r\<lparr>sr_pos := sr_pos r + length got, sr_fail := (length got < n)\<rparr>))"

definition ReadBE :: "SequenceFileReader \<Rightarrow> int32 option \<times> SequenceFileReader" where
  "ReadBE r = (case ReadRaw 4 r of
     ((ok, n), r') \<Rightarrow> (if ok then Some (ntohl_on host (of_mem host n)) else None, r'))"

definition Reader_Open :: "bool \<Rightarrow> string \<Rightarrow> byte list \<Rightarrow> SequenceFileReader \<Rightarrow> Status \<times> SequenceFileReader" where
  "Reader_Open opens path content r =
     (if \<not> opens then (Status_IOError (''cannot open: '' @ path), r\<lparr>sr_fail := True\<rparr>)
      else
        let r1 = r\<lparr>sr_file := content, sr_pos := 0, sr_fail := False\<rparr>;
            ((ok, magic), r2) = ReadRaw 4 r1
        in if \<not> ok then (Status_Corrupt ''not a SequenceFile'', r2)
           else if magic \<noteq> kMagic then (Status_Corrupt ''not a SequenceFile'', r2)
           else
             let ((ok, sync), r3) = ReadRaw (length (sr_sync r2)) r2;
                 r4 = r3\<lparr>sr_sync := sync @ drop (length sync) (sr_sync r3)\<rparr>
             in if \<not> ok then (Status_Corrupt ''truncated header'', r4) else (Status_OK, r4))"

text \<open>The record after its length field.\<close>

definition read_record :: "int32 \<Rightarrow> SequenceFileReader \<Rightarrow> (bool \<times> SequenceFileReader) result" where
  "read_record len r =
     (case ReadBE r of
        (None, r1) \<Rightarrow> Inr (False, r1)
      | (Some key_len, r1) \<Rightarrow>
          if sint key_len < 0 then Inl LengthError
          else
            let n = nat (sint key_len);
                ((ok, got), r2) = ReadRaw n r1;
                r3 = r2\<lparr>sr_key := fill n got (sr_key r2)\<rparr>
            in if \<not> ok then Inr (False, r3)
               else
                 let val_len = sint len - sint key_len
                 in if val_len < - (2 ^ 31) then Inl Undefined
                    else if val_len < 0 then Inl LengthError
                    else
                      let m = nat val_len;
                          ((ok, got), r4) = ReadRaw m r3;
                          r5 = r4\<lparr>sr_val := fill m got (sr_val r4)\<rparr>
                      in Inr (ok, r5))"

lemma ReadBE_Some:
  assumes "ReadBE r = (Some v, r')"
  shows "sr_pos r + 4 \<le> length (sr_file r) \<and> r' = r\<lparr>sr_pos := sr_pos r + 4\<rparr>
    \<and> v = ntohl_on host (of_mem host (take 4 (drop (sr_pos r) (sr_file r)))) \<and> \<not> sr_fail r"
  using assms by (auto simp: ReadBE_def ReadRaw_def Let_def min_def split: if_splits)

function Next :: "SequenceFileReader \<Rightarrow> (bool \<times> SequenceFileReader) result" where
  "Next r =
     (case ReadBE r of
        (None, r1) \<Rightarrow> Inr (False, r1)
      | (Some len, r1) \<Rightarrow>
          if len = kSyncEscape then Next (r1\<lparr>sr_pos := sr_pos r1 + kMD5Len\<rparr>)
          else read_record len r1)"
  by auto

termination
  by (relation "measure (\<lambda>r. length (sr_file r) - sr_pos r)") (auto dest!: ReadBE_Some [OF sym])

declare Next.simps [simp del]

section \<open>Reading records\<close>

lemma ReadRaw_here:
  assumes "\<not> sr_fail r" "sr_file r = pre @ bs @ post" "sr_pos r = length pre"
  shows "ReadRaw (length bs) r = ((True, bs), r\<lparr>sr_pos := length pre + length bs\<rparr>)"
  using assms by (simp add: ReadRaw_def Let_def)

lemma ReadBE_here:
  assumes "\<not> sr_fail r" "sr_file r = pre @ enc_int v @ post" "sr_pos r = length pre"
  shows "ReadBE r = (Some v, r\<lparr>sr_pos := length pre + 4\<rparr>)"
  using ReadRaw_here [OF assms] by (simp add: ReadBE_def htonl_of_mem)

lemma ReadBE_end:
  assumes "\<not> sr_fail r" "sr_pos r = length (sr_file r)"
  shows "ReadBE r = (None, r\<lparr>sr_fail := True\<rparr>)"
  using assms by (simp add: ReadBE_def ReadRaw_def Let_def)

text \<open>The bytes of one record, and of a sync marker.\<close>

definition enc_record :: "byte list \<times> byte list \<Rightarrow> byte list" where
  "enc_record kv = enc_int (word_of_nat (length (fst kv) + length (snd kv)))
     @ enc_int (word_of_nat (length (fst kv))) @ fst kv @ snd kv"

definition enc_sync :: "byte list \<Rightarrow> nat \<Rightarrow> byte list" where
  "enc_sync sync i = (if i > 0 \<and> i mod kSyncInterval = 0 then enc_int kSyncEscape @ sync else [])"

definition record_ok :: "byte list \<times> byte list \<Rightarrow> bool" where
  "record_ok kv \<longleftrightarrow> fst kv \<noteq> [] \<and> length (fst kv) + length (snd kv) < 2 ^ 31"

lemma kSyncEscape_not_length: "n < 2 ^ 31 \<Longrightarrow> (word_of_nat n :: int32) \<noteq> kSyncEscape"
proof
  assume "n < 2 ^ 31" "(word_of_nat n :: int32) = kSyncEscape"
  then have "int n = sint kSyncEscape" using sint_of_nat [where 'a = 32, of n] by simp
  then show False by (simp add: kSyncEscape_def)
qed

lemma Next_record:
  assumes "\<not> sr_fail r" "sr_file r = pre @ enc_record kv @ post" "sr_pos r = length pre" "record_ok kv"
  shows "Next r = Inr (True, r\<lparr>sr_pos := length (pre @ enc_record kv), sr_key := fst kv, sr_val := snd kv\<rparr>)"
proof -
  obtain k v where kv: "kv = (k, v)" by fastforce
  define len klen :: int32 where "len = word_of_nat (length k + length v)" and "klen = word_of_nat (length k)"
  have len: "sint len = int (length k + length v)" "sint klen = int (length k)" "len \<noteq> kSyncEscape"
    using assms(4) kv unfolding len_def klen_def record_ok_def
    by (simp_all add: kSyncEscape_not_length sint_of_nat del: of_nat_add)
  let ?r1 = "r\<lparr>sr_pos := length pre + 4\<rparr>"
  let ?r2 = "r\<lparr>sr_pos := length pre + 8\<rparr>"
  let ?r3 = "r\<lparr>sr_pos := length pre + 8 + length k, sr_key := k\<rparr>"
  have f: "sr_file r = pre @ enc_int len @ enc_int klen @ k @ v @ post"
    using assms(2) kv by (simp add: enc_record_def len_def klen_def)
  have 1: "ReadBE r = (Some len, ?r1)" using assms(1) f assms(3) by (rule ReadBE_here)
  have 2: "ReadBE ?r1 = (Some klen, ?r2)"
    using assms(1) f ReadBE_here [of ?r1 "pre @ enc_int len" klen "k @ v @ post"] by simp
  have 3: "ReadRaw (length k) ?r2 = ((True, k), r\<lparr>sr_pos := length pre + 8 + length k\<rparr>)"
    using assms(1) f ReadRaw_here [of ?r2 "pre @ enc_int len @ enc_int klen" k "v @ post"] by simp
  have 4: "ReadRaw (length v) ?r3 = ((True, v), ?r3\<lparr>sr_pos := length pre + 8 + length k + length v\<rparr>)"
    using assms(1) f ReadRaw_here [of ?r3 "pre @ enc_int len @ enc_int klen @ k" v post] by simp
  have "read_record len ?r1 = Inr (True, ?r3\<lparr>sr_pos := length pre + 8 + length k + length v, sr_val := v\<rparr>)"
    using 3 4 by (simp add: read_record_def 2 len Let_def)
  then show ?thesis
    using len(3) by (subst Next.simps) (simp add: 1 kv enc_record_def add.assoc)
qed

lemma Next_sync_record:
  assumes "\<not> sr_fail r" "sr_file r = pre @ enc_sync sync i @ enc_record kv @ post" "sr_pos r = length pre"
    and "record_ok kv" "length sync = kMD5Len"
  shows "Next r = Inr (True, r\<lparr>sr_pos := length (pre @ enc_sync sync i @ enc_record kv),
                               sr_key := fst kv, sr_val := snd kv\<rparr>)"
proof (cases "i > 0 \<and> i mod kSyncInterval = 0")
  case True
  then have s: "enc_sync sync i = enc_int kSyncEscape @ sync" by (simp add: enc_sync_def)
  let ?r1 = "r\<lparr>sr_pos := length pre + 4 + kMD5Len\<rparr>"
  have "ReadBE r = (Some kSyncEscape, r\<lparr>sr_pos := length pre + 4\<rparr>)"
    using ReadBE_here [OF assms(1), of pre kSyncEscape "sync @ enc_record kv @ post"] assms(2,3) s by simp
  then have "Next r = Next ?r1" by (subst Next.simps) simp
  also have "\<dots> = Inr (True, ?r1\<lparr>sr_pos := length ((pre @ enc_int kSyncEscape @ sync) @ enc_record kv),
                               sr_key := fst kv, sr_val := snd kv\<rparr>)"
    using assms s by (intro Next_record) simp_all
  finally show ?thesis using s by simp
next
  case False
  then have "enc_sync sync i = []" by (auto simp: enc_sync_def)
  then show ?thesis using Next_record [of r pre kv post] assms by simp
qed

lemma Next_end:
  assumes "\<not> sr_fail r" "sr_pos r = length (sr_file r)"
  shows "Next r = Inr (False, r\<lparr>sr_fail := True\<rparr>)"
  by (subst Next.simps) (simp add: ReadBE_end [OF assms])

section \<open>Whole files\<close>

text \<open>The loop \<open>while (r.Next()) use(r.Key(), r.Value())\<close> of a client, with a bound on the number of rounds.\<close>

fun read_all :: "nat \<Rightarrow> SequenceFileReader \<Rightarrow> ((byte list \<times> byte list) list \<times> SequenceFileReader) option result" where
  "read_all 0 r = Inr None"
| "read_all (Suc n) r =
     (case Next r of
        Inl e \<Rightarrow> Inl e
      | Inr (False, r1) \<Rightarrow> Inr (Some ([], r1))
      | Inr (True, r1) \<Rightarrow>
          (case read_all n r1 of
             Inl e \<Rightarrow> Inl e
           | Inr None \<Rightarrow> Inr None
           | Inr (Some (rs, r2)) \<Rightarrow> Inr (Some ((sr_key r1, sr_val r1) # rs, r2))))"

fun enc_records :: "byte list \<Rightarrow> nat \<Rightarrow> (byte list \<times> byte list) list \<Rightarrow> byte list" where
  "enc_records sync i [] = []"
| "enc_records sync i (kv # kvs) = enc_sync sync i @ enc_record kv @ enc_records sync (Suc i) kvs"

lemma AppendRaw_ok:
  assumes "k \<noteq> []" "sw_open w"
  shows "AppendRaw k v w = (Status_OK, w\<lparr>sw_file := sw_file w @ enc_sync (sw_sync w) (sw_count w) @ enc_record (k, v),
                                        sw_count := sw_count w + 1\<rparr>)"
  using assms
  by (simp add: AppendRaw_def Let_def WriteRaw_def OutputBuffer_Data_def OutputBuffer_new_def enc_sync_def enc_record_def)

definition append_all :: "(byte list \<times> byte list) list \<Rightarrow> SequenceFileWriter \<Rightarrow> SequenceFileWriter" where
  "append_all kvs w = fold (\<lambda>(k, v) w. snd (AppendRaw k v w)) kvs w"

lemma append_all_file:
  assumes "\<forall>kv \<in> set kvs. fst kv \<noteq> []" "sw_open w"
  shows "sw_file (append_all kvs w) = sw_file w @ enc_records (sw_sync w) (sw_count w) kvs
    \<and> sw_sync (append_all kvs w) = sw_sync w \<and> sw_count (append_all kvs w) = sw_count w + length kvs"
  using assms
proof (induction kvs arbitrary: w)
  case (Cons kv kvs)
  obtain k v where "kv = (k, v)" by fastforce
  then show ?case using Cons.IH [of "snd (AppendRaw k v w)"] Cons.prems
    by (simp add: append_all_def AppendRaw_ok)
qed (simp add: append_all_def)

lemma read_all_records:
  assumes "\<not> sr_fail r" "sr_file r = pre @ enc_records sync i kvs" "sr_pos r = length pre"
    and "\<forall>kv \<in> set kvs. record_ok kv" "length sync = kMD5Len" "length kvs < n"
  shows "\<exists>r'. read_all n r = Inr (Some (kvs, r'))"
  using assms
proof (induction kvs arbitrary: r pre i n)
  case Nil
  then obtain m where "n = Suc m" by (cases n) auto
  then show ?case using Next_end [of r] Nil by simp
next
  case (Cons kv kvs)
  then obtain m where n: "n = Suc m" by (cases n) auto
  let ?pre = "pre @ enc_sync sync i @ enc_record kv"
  let ?r = "r\<lparr>sr_pos := length ?pre, sr_key := fst kv, sr_val := snd kv\<rparr>"
  have step: "Next r = Inr (True, ?r)"
    using Cons.prems by (intro Next_sync_record [where post = "enc_records sync (Suc i) kvs"]) simp_all
  obtain r' where "read_all m ?r = Inr (Some (kvs, r'))"
    using Cons.IH [of ?r ?pre "Suc i" m] Cons.prems n by auto
  then show ?case using step n by simp
qed



text \<open>Errors of the format: a record with an empty key is refused and leaves the file as it was, and
  opening a file that does not start with the magic number, or ends before the sync marker, is reported
  as corrupt.\<close>

lemma SequenceFile_errors:
  "AppendRaw [] v w = (Status_InvalidArg ''zero-length key'', w)
   \<and> (take 4 content \<noteq> kMagic \<longrightarrow>
       fst (Reader_Open True path content SequenceFileReader_new) = Status_Corrupt ''not a SequenceFile'')
   \<and> (take 4 content = kMagic \<and> length content < 20 \<longrightarrow>
       fst (Reader_Open True path content SequenceFileReader_new) = Status_Corrupt ''truncated header'')
   \<and> fst (Reader_Open False path content SequenceFileReader_new) = Status_IOError (''cannot open: '' @ path)"
proof -
  have "length content \<ge> 4" if "take 4 content = kMagic"
    using arg_cong [OF that, of length] by (simp add: kMagic_def)
  then show ?thesis
    by (auto simp: AppendRaw_def Reader_Open_def ReadRaw_def SequenceFileReader_new_def kMD5Len_def Let_def kMagic_def)
qed

text \<open>A record whose length field is the least integer makes the subtraction \<open>len - key_len\<close> overflow.\<close>

lemma Next_overflow:
  "Next (SequenceFileReader_new\<lparr>sr_file := [128, 0, 0, 0, 0, 0, 0, 1, 7]\<rparr>) = Inl Undefined"
proof -
  let ?r = "SequenceFileReader_new\<lparr>sr_file := [128, 0, 0, 0, 0, 0, 0, 1, 7]\<rparr>"
  have 1: "ReadBE ?r = (Some 0x80000000, ?r\<lparr>sr_pos := 4\<rparr>)"
    using ReadBE_here [of ?r "[]" "0x80000000" "[0, 0, 0, 1, 7]"]
    by (simp add: SequenceFileReader_new_def mem_of_def nat_bytes_numeral)
  have 2: "ReadBE (?r\<lparr>sr_pos := 4\<rparr>) = (Some 1, ?r\<lparr>sr_pos := 8\<rparr>)"
    using ReadBE_here [of "?r\<lparr>sr_pos := 4\<rparr>" "[128, 0, 0, 0]" "1" "[7]"]
    by (simp add: SequenceFileReader_new_def mem_of_def nat_bytes_numeral)
  show ?thesis
    by (subst Next.simps)
       (simp add: 1 2 read_record_def kSyncEscape_def, simp add: ReadRaw_def SequenceFileReader_new_def Let_def)
qed

end
