(* ===== verification/ClientOps.thy ===== *)
theory ClientOps
  imports Cluster
begin

text \<open>
  The namespace operations of the client (\<open>Mkdirs\<close>, \<open>Delete\<close> and \<open>List\<close> of \<^verbatim>\<open>src/ndfs/dfs_client.h\<close>) on a running cluster: the
  request through the RPC layer, the handler of the NameNode, the namesystem and the answer. The lemmas
  of the locale say that a call is the operation of the namesystem; the property says what it means for the
  namespace, that is, the map from paths to entries that the tree represents.
\<close>

section \<open>What the namesystem does\<close>

lemma ns_Mkdirs_namespace:
  assumes "wf_tree (ns_tree ns)" "ns_Mkdirs path ns = (ok, ns')"
  shows "(ok \<longleftrightarrow> \<not> blocked (namespace (ns_tree ns)) (SplitPath path))
    \<and> namespace (ns_tree ns') = (\<lambda>q. if ok \<and> prefix q (SplitPath path) then Some Dir else namespace (ns_tree ns) q)"
  using tree.mkdirs_ok [OF assms(1), of "SplitPath path"] tree.mkdirs_look [OF assms(1), of "SplitPath path"] assms(2)
  by (auto simp: ns_Mkdirs_def tree_Mkdirs_def case_prod_beta fun_eq_iff)

lemma ns_Delete_namespace:
  assumes "wf_tree (ns_tree ns)" "ns_Delete path ns = (ok, ns')"
  shows "(ok \<longleftrightarrow> SplitPath path \<noteq> [] \<and> namespace (ns_tree ns) (SplitPath path) \<noteq> None)
    \<and> namespace (ns_tree ns') = (\<lambda>q. if ok \<and> prefix (SplitPath path) q then None else namespace (ns_tree ns) q)"
proof (cases "GetNode (ns_tree ns) path")
  case None
  then have "namespace (ns_tree ns) (SplitPath path) = None" by (simp add: GetNode_None)
  then show ?thesis using assms(2) None by (simp add: ns_Delete_def)
next
  case (Some node)
  have "ns_tree ns' = fst (delete_at (SplitPath path) (ns_tree ns))" "ok = snd (delete_at (SplitPath path) (ns_tree ns))"
    using assms(2) Some by (auto simp: ns_Delete_def tree_ops_at_path Let_def case_prod_beta split: if_splits)
  moreover have "namespace (ns_tree ns) (SplitPath path) \<noteq> None" using GetNode_namespace [of "ns_tree ns" path] Some by (metis option.simps(3) option.simps(9))
  ultimately show ?thesis
    using tree.delete_ok [OF assms(1), of "SplitPath path"] tree.delete_look [OF assms(1), of "SplitPath path"] by (simp add: fun_eq_iff)
qed

text \<open>The entry of a listing: a directory has a slash at its end.\<close>

definition shown :: "string \<Rightarrow> entry \<Rightarrow> string" where
  "shown n e = (case e of Dir \<Rightarrow> n @ ''/'' | File bs \<Rightarrow> n)"

lemma GetListing_entries:
  assumes "wf_tree (ns_tree ns)"
  shows "set (GetListing path ns) = (if namespace (ns_tree ns) (SplitPath path) = Some Dir
     then {shown n e | n e. namespace (ns_tree ns) (SplitPath path @ [n]) = Some e} else {})"
proof (cases "get_from (ns_tree ns) (SplitPath path)")
  case None
  then show ?thesis by (simp add: GetListing_def tree_ListDir_def GetNode_def namespace_def)
next
  case (Some d)
  have "wf_node d" using assms Some by (auto simp: wf_tree_def intro: get_from_wf)
  then have dist: "distinct (map inode_name (inode_children d))" by (simp add: wf_node_iff [of d])
  have "namespace (ns_tree ns) (SplitPath path @ [n]) = map_option entry_of (FindChild d n)" for n
    using Some by (simp add: namespace_def get_from_append split: option.split)
  then have "namespace (ns_tree ns) (SplitPath path @ [n]) = Some e \<longleftrightarrow> (\<exists>c \<in> set (inode_children d). inode_name c = n \<and> e = entry_of c)" for n e
    using find_distinct [OF dist, of n] by (auto simp: FindChild_def)
  moreover have "(if inode_type c = kDirectory then inode_name c @ ''/'' else inode_name c) = shown (inode_name c) (entry_of c)" for c
    by (cases "inode_type c") (simp_all add: shown_def entry_of_def)
  moreover have "namespace (ns_tree ns) (SplitPath path) = Some Dir \<longleftrightarrow> inode_type d = kDirectory"
    using Some by (cases "inode_type d") (simp_all add: namespace_def entry_of_def)
  ultimately show ?thesis
    using Some by (auto simp: GetListing_def tree_ListDir_def GetNode_def)
qed

section \<open>Calls\<close>

context cluster_net
begin

lemma call_path:
  assumes "handler_of opc = handle ReadString f" "length path + 8 \<le> max_message"
    and "f path OutputBuffer_new (nn w) = (resp, n')" "length (ob_buffer resp) < 2 ^ 32"
  obtains w' where "net_call net (op_id opc) (enc_string path) w = ((Status_OK, ob_buffer resp), w')" "nn w' = n'" "store w' = store w"
proof -
  have "fits_int32 path" "length (enc_string path) + 4 \<le> max_message" using assms(2) by (simp_all add: fits_int32_def max_message_def)
  then show thesis using call_op [OF assms(1) string.decode _ assms(3,4)] that by blast
qed

lemma mkdirs:
  assumes "length path + 8 \<le> max_message" "ns_Mkdirs path (nn_namesystem (nn w)) = (ok, ns')"
  shows "\<exists>w'. client_Mkdirs net path w = Inr (if ok then Status_OK else Status_IOError (''mkdirs failed: '' @ path), w')
    \<and> nn w' = (nn w)\<lparr>nn_namesystem := ns'\<rparr> \<and> store w' = store w"
proof -
  obtain w' where "net_call net (op_id kMkdirs) (enc_string path) w = ((Status_OK, ob_buffer (WriteBool ok OutputBuffer_new)), w')"
      "nn w' = (nn w)\<lparr>nn_namesystem := ns'\<rparr>" "store w' = store w"
    by (rule call_path [of kMkdirs "\<lambda>path resp nn. let (ok, ns) = ns_Mkdirs path (nn_namesystem nn) in (WriteBool ok resp, nn\<lparr>nn_namesystem := ns\<rparr>)"
          path w "WriteBool ok OutputBuffer_new"]) (use assms in \<open>simp_all add: on_Mkdirs_def\<close>)
  then show ?thesis using bool.read_back [of ok "[]"] by (simp add: client_Mkdirs_def del: op_id.simps)
qed

lemma delete:
  assumes "length path + 8 \<le> max_message" "ns_Delete path (nn_namesystem (nn w)) = (ok, ns')"
  shows "\<exists>w'. client_Delete net path w = Inr (if ok then Status_OK else Status_IOError (''delete failed: '' @ path), w')
    \<and> nn w' = (nn w)\<lparr>nn_namesystem := ns'\<rparr> \<and> store w' = store w"
proof -
  obtain w' where "net_call net (op_id kDelete) (enc_string path) w = ((Status_OK, ob_buffer (WriteBool ok OutputBuffer_new)), w')"
      "nn w' = (nn w)\<lparr>nn_namesystem := ns'\<rparr>" "store w' = store w"
    by (rule call_path [of kDelete "\<lambda>path resp nn. let (ok, ns) = ns_Delete path (nn_namesystem nn) in (WriteBool ok resp, nn\<lparr>nn_namesystem := ns\<rparr>)"
          path w "WriteBool ok OutputBuffer_new"]) (use assms in \<open>simp_all add: on_Delete_def\<close>)
  then show ?thesis using bool.read_back [of ok "[]"] by (simp add: client_Delete_def del: op_id.simps)
qed

lemma list:
  assumes "length path + 8 \<le> max_message" "items = GetListing path (nn_namesystem (nn w))"
    and "length (concat (map enc_string items)) + 4 < 2 ^ 31"
  shows "\<exists>w'. client_List net path w = Inr (items, w') \<and> nn w' = nn w \<and> store w' = store w"
proof -
  let ?resp = "fold WriteString items (WriteInt (word_of_nat (length items)) OutputBuffer_new)"
  let ?bs = "enc_int (word_of_nat (length items)) @ concat (map enc_string items)"
  have resp: "ob_buffer ?resp = ?bs" by (simp add: string.write_fold)
  obtain w' where w': "net_call net (op_id kGetListing) (enc_string path) w = ((Status_OK, ob_buffer ?resp), w')" "nn w' = nn w" "store w' = store w"
    by (rule call_path [of kGetListing "\<lambda>path resp nn. let items = GetListing path (nn_namesystem nn)
          in (fold WriteString items (WriteInt (word_of_nat (length items)) resp), nn)" path w ?resp "nn w"]) (use assms resp in \<open>simp_all add: on_GetListing_def Let_def\<close>)
  have len: "length (enc_string x) \<le> length (concat (map enc_string items))" if "x \<in> set items" for x
    using that by (simp add: length_concat member_le_sum_list)
  have "list_all fits_int32 items"
    using len assms(3) by (fastforce simp: list_all_iff fits_int32_def)
  moreover have "length items \<le> length (concat (map enc_string items))" by (induction items) simp_all
  then have "fits_int32 items" using assms(3) by (simp add: fits_int32_def)
  ultimately have "bindr ReadInt (\<lambda>n. read_n ReadString (loop_count n)) (InputBuffer_new ?bs) = Inr (items, \<lparr>ib_data = ?bs, ib_pos = length ?bs\<rparr>)"
    using reads_InputBuffer_new [OF string.reads_counted, of items "[]"] assms(3) by simp
  then show ?thesis using w' resp by (simp add: client_List_def del: op_id.simps)
qed

end

section \<open>Property\<close>

definition cl_namespace :: "cluster \<Rightarrow> path \<rightharpoonup> entry" where
  "cl_namespace w = namespace (ns_tree (nn_namesystem (cl_nn w)))"

text \<open>C14. The namespace through the client: on a running cluster \<open>Mkdirs\<close> returns OK exactly if no file stands on the path, and
  the path and everything above it are then directories; \<open>Delete\<close> returns OK exactly for an existing path other
  than the root, and everything at and below it is then gone; \<open>List\<close> returns the entries of a directory, those that
  are directories with a slash, and nothing for any other path. All else in the namespace and all disks stay as they were, and
  a failed call changes nothing. (Paths and listings have to fit into a message.)\<close>

theorem dfs_namespace_ops:
  assumes "nn_inv (cl_nn w)" "length path + 8 \<le> max_message"
    and "length (concat (map enc_string (GetListing path (nn_namesystem (cl_nn w))))) + 4 < 2 ^ 31"
  shows "(\<exists>st w'. client_Mkdirs cluster_network path w = Inr (st, w') \<and> (Status_ok st \<longleftrightarrow> \<not> blocked (cl_namespace w) (SplitPath path)) \<and> cl_dns w' = cl_dns w
      \<and> cl_namespace w' = (\<lambda>q. if Status_ok st \<and> prefix q (SplitPath path) then Some Dir else cl_namespace w q))
    \<and> (\<exists>st w'. client_Delete cluster_network path w = Inr (st, w') \<and> (Status_ok st \<longleftrightarrow> SplitPath path \<noteq> [] \<and> cl_namespace w (SplitPath path) \<noteq> None) \<and> cl_dns w' = cl_dns w
      \<and> cl_namespace w' = (\<lambda>q. if Status_ok st \<and> prefix (SplitPath path) q then None else cl_namespace w q))
    \<and> (\<exists>items w'. client_List cluster_network path w = Inr (items, w') \<and> cl_dns w' = cl_dns w \<and> cl_namespace w' = cl_namespace w
      \<and> set items = (if cl_namespace w (SplitPath path) = Some Dir then {shown n e | n e. cl_namespace w (SplitPath path @ [n]) = Some e} else {}))"
proof (intro conjI)
  let ?ns = "nn_namesystem (cl_nn w)"
  have wf: "wf_tree (ns_tree ?ns)" using nn_inv_ns(1) [OF assms(1)] by (rule ns_invD)
  obtain ok ns' where m: "ns_Mkdirs path ?ns = (ok, ns')" by fastforce
  then obtain w' where "client_Mkdirs cluster_network path w = Inr (if ok then Status_OK else Status_IOError (''mkdirs failed: '' @ path), w')"
      "cl_nn w' = (cl_nn w)\<lparr>nn_namesystem := ns'\<rparr>" "cl_dns w' = cl_dns w"
    using cluster.mkdirs [OF assms(2) m] by blast
  then show "\<exists>st w'. client_Mkdirs cluster_network path w = Inr (st, w') \<and> (Status_ok st \<longleftrightarrow> \<not> blocked (cl_namespace w) (SplitPath path)) \<and> cl_dns w' = cl_dns w
      \<and> cl_namespace w' = (\<lambda>q. if Status_ok st \<and> prefix q (SplitPath path) then Some Dir else cl_namespace w q)"
    using ns_Mkdirs_namespace [OF wf m] unfolding cl_namespace_def by (cases ok) simp_all
  obtain ok ns' where d: "ns_Delete path ?ns = (ok, ns')" by fastforce
  then obtain w' where "client_Delete cluster_network path w = Inr (if ok then Status_OK else Status_IOError (''delete failed: '' @ path), w')"
      "cl_nn w' = (cl_nn w)\<lparr>nn_namesystem := ns'\<rparr>" "cl_dns w' = cl_dns w"
    using cluster.delete [OF assms(2) d] by blast
  then show "\<exists>st w'. client_Delete cluster_network path w = Inr (st, w') \<and> (Status_ok st \<longleftrightarrow> SplitPath path \<noteq> [] \<and> cl_namespace w (SplitPath path) \<noteq> None) \<and> cl_dns w' = cl_dns w
      \<and> cl_namespace w' = (\<lambda>q. if Status_ok st \<and> prefix (SplitPath path) q then None else cl_namespace w q)"
    using ns_Delete_namespace [OF wf d] unfolding cl_namespace_def by (cases ok) auto
  show "\<exists>items w'. client_List cluster_network path w = Inr (items, w') \<and> cl_dns w' = cl_dns w \<and> cl_namespace w' = cl_namespace w
      \<and> set items = (if cl_namespace w (SplitPath path) = Some Dir then {shown n e | n e. cl_namespace w (SplitPath path @ [n]) = Some e} else {})"
    using cluster.list [OF assms(2) refl assms(3)] GetListing_entries [OF wf, of path] unfolding cl_namespace_def by auto
qed

theorem dfs_namespace_ops_witness:
  "(\<exists>st w'. client_Mkdirs cluster_network ''/a/b'' sample_cluster = Inr (st, w') \<and> Status_ok st
      \<and> cl_namespace w' [''a''] = Some Dir)
   \<and> (\<exists>st w'. client_Delete cluster_network ''/a/b'' sample_cluster = Inr (st, w') \<and> \<not> Status_ok st)
   \<and> (\<exists>w'. client_List cluster_network ''/a/b'' sample_cluster = Inr ([], w'))"
proof -
  have inv: "nn_inv (cl_nn sample_cluster)" by (simp add: sample_cluster_def sample_nn_inv)
  have tree: "ns_tree (nn_namesystem (cl_nn sample_cluster)) = InodeTree_new"
    by (simp add: sample_cluster_def sample_nn_def)
  have P: "SplitPath ''/a/b'' = [''a'', ''b'']" by code_simp
  have list: "GetListing ''/a/b'' (nn_namesystem (cl_nn sample_cluster)) = []"
    by (simp add: GetListing_def tree_ListDir_def GetNode_def tree P InodeTree_new_def)
  have "namespace InodeTree_new [''a'', ''b''] = None" "\<not> blocked (namespace InodeTree_new) [''a'', ''b'']"
    by (simp_all add: InodeTree_new_def namespace_empty_dir not_blocked_empty_dir)
  moreover have "cl_namespace sample_cluster = namespace InodeTree_new" by (simp add: cl_namespace_def tree)
  ultimately have "(\<exists>st w'. client_Mkdirs cluster_network ''/a/b'' sample_cluster = Inr (st, w') \<and> Status_ok st
      \<and> cl_namespace w' = (\<lambda>q. if prefix q [''a'', ''b''] then Some Dir else namespace InodeTree_new q))
   \<and> (\<exists>st w'. client_Delete cluster_network ''/a/b'' sample_cluster = Inr (st, w') \<and> \<not> Status_ok st)
   \<and> (\<exists>w'. client_List cluster_network ''/a/b'' sample_cluster = Inr ([], w'))"
    using dfs_namespace_ops [OF inv, of "''/a/b''"] unfolding P list by (force simp: max_message_def)
  then show ?thesis by (force simp: fun_eq_iff)
qed

end
