(* ===== verification/MapApi.thy ===== *)
theory MapApi
  imports Writables Sums "HOL-Library.Char_ord" "HOL-Library.Product_Lexorder"
begin

text \<open>
  Model of \<^verbatim>\<open>src/mapred/api/input_format.h\<close> and \<^verbatim>\<open>src/mapred/api/mapper.h\<close>: the line reader of text files, the hash
  partitioner and the combining collector. The other classes of the formats are in the theory \<open>RecordIO\<close>.

  A \<open>UTF8\<close> key is its string and a \<open>LongWritable\<close> value is its \<open>int64_t\<close>. A mapper, a reducer or a combiner
  is the function from the arguments of one call to the pairs that the call collects, in order; it may
  raise. Addition of two \<open>int64_t\<close> is undefined if it overflows (\<open>add64\<close>). \<open>std::string\<close> is ordered as
  lists of unsigned characters, and \<open>std::map\<close> is a list of pairs in the order of the keys.

  The locale \<open>summing\<close> is what the combining collector and the jobs rely on in a reducer or combiner.
\<close>

section \<open>User functions\<close>

type_synonym pair = "string \<times> int64"
type_synonym mapper = "int64 \<Rightarrow> string \<Rightarrow> pair list result"
type_synonym reducer = "string \<Rightarrow> int64 list \<Rightarrow> pair list result"

section \<open>Text input\<close>

text \<open>An input file stream: what is left to read, and its flags.\<close>

record ifstream =
  if_rest :: string
  if_eof :: bool
  if_fail :: bool

definition open_in :: "string option \<Rightarrow> ifstream" where
  "open_in content = (case content of
     None \<Rightarrow> \<lparr>if_rest = [], if_eof = False, if_fail = True\<rparr>
   | Some s \<Rightarrow> \<lparr>if_rest = s, if_eof = False, if_fail = False\<rparr>)"

text \<open>\<open>std::getline(f, line)\<close>: whether it succeeded, the new value of \<open>line\<close>, and the stream.\<close>

definition getline :: "ifstream \<Rightarrow> string \<Rightarrow> bool \<times> string \<times> ifstream" where
  "getline f line =
     (if if_eof f \<or> if_fail f then (False, line, f\<lparr>if_fail := True\<rparr>)
      else if if_rest f = [] then (False, [], f\<lparr>if_eof := True, if_fail := True\<rparr>)
      else let l = takeWhile (\<lambda>c. c \<noteq> nl) (if_rest f)
           in if l = if_rest f then (True, l, f\<lparr>if_rest := [], if_eof := True\<rparr>)
              else (True, l, f\<lparr>if_rest := drop (Suc (length l)) (if_rest f)\<rparr>))"

record TextRecordReader =
  tr_file :: ifstream
  tr_pos :: int64
  tr_line :: string

definition TextRecordReader_new :: "string option \<Rightarrow> TextRecordReader" where
  "TextRecordReader_new content = \<lparr>tr_file = open_in content, tr_pos = 0, tr_line = []\<rparr>"

definition Text_Next :: "TextRecordReader \<Rightarrow> ((int64 \<times> string) option \<times> TextRecordReader) result" where
  "Text_Next r =
     (let (ok, line, f) = (if tr_pos r = 0 \<or> 0 < sint (tr_pos r) then getline (tr_file r) (tr_line r)
                           else (True, tr_line r, tr_file r));
          r1 = r\<lparr>tr_file := f, tr_line := line\<rparr>;
          pos = sint (tr_pos r) + (int (length line) + 1)
      in if \<not> ok then Inr (None, r1)
         else if \<not> in_int64 pos then Inl Undefined
         else Inr (Some (tr_pos r, line), r1\<lparr>tr_pos := word_of_int pos\<rparr>))"

definition Text_GetProgress :: "TextRecordReader \<Rightarrow> bool" where
  "Text_GetProgress r = if_eof (tr_file r)"

lemma Text_Next_pos:
  "Text_Next r = Inr (Some kv, r1) \<Longrightarrow> sint (tr_pos r) < sint (tr_pos r1)"
  by (auto simp: Text_Next_def Let_def sint_add_length sint_length split: prod.splits if_splits)

definition tr_room :: "TextRecordReader \<Rightarrow> nat" where
  "tr_room r = nat (2 ^ 63 - sint (tr_pos r))"

lemma Text_Next_room: "Text_Next r = Inr (Some kv, r1) \<Longrightarrow> tr_room r1 < tr_room r"
  using Text_Next_pos [of r kv r1] sint_less [of "tr_pos r1"] by (simp add: tr_room_def)

text \<open>\<open>while (reader->Next(key, value)) body(key, value)\<close>; each round moves the position forward.\<close>

function for_records :: "(int64 \<Rightarrow> string \<Rightarrow> 's \<Rightarrow> 's result) \<Rightarrow> TextRecordReader \<Rightarrow> 's \<Rightarrow> ('s \<times> TextRecordReader) result" where
  "for_records body r s =
     (case Text_Next r of
        Inl e \<Rightarrow> Inl e
      | Inr (None, r1) \<Rightarrow> Inr (s, r1)
      | Inr (Some (key, value), r1) \<Rightarrow>
          (case body key value s of Inl e \<Rightarrow> Inl e | Inr s1 \<Rightarrow> for_records body r1 s1))"
  by pat_completeness auto
termination
  by (relation "measure (\<lambda>(body, r, s). tr_room r)") (auto intro: Text_Next_room)

declare for_records.simps [simp del]

section \<open>Partitioner\<close>

text \<open>\<open>hash\<close> is \<open>std::hash<std::string>\<close>. The remainder is computed in \<open>size_t\<close>, to which \<open>num_partitions\<close> is converted.\<close>

definition GetPartition :: "(string \<Rightarrow> 64 word) \<Rightarrow> string \<Rightarrow> int32 \<Rightarrow> int32 result" where
  "GetPartition hash key num_partitions =
     (if num_partitions = 0 then Inl Undefined
      else Inr (ucast (and (hash key) 0x7FFFFFFF mod (scast num_partitions :: 64 word))))"

section \<open>Combining collector\<close>

fun sm_put :: "'k::linorder \<Rightarrow> 'v \<Rightarrow> ('k \<times> 'v) list \<Rightarrow> ('k \<times> 'v) list" where
  "sm_put k v [] = [(k, v)]"
| "sm_put k v (e # m) =
     (if fst e < k then e # sm_put k v m else if fst e = k then (k, v) # m else (k, v) # e # m)"

record CombiningCollector =
  cc_buffer :: "(string \<times> int64) list"
  cc_combiner :: "reducer option"
  cc_flush_threshold :: int32

definition Flush :: "CombiningCollector \<Rightarrow> CombiningCollector result" where
  "Flush c =
     (case cc_combiner c of
        None \<Rightarrow> Inr c
      | Some combine \<Rightarrow>
          if cc_buffer c = [] then Inr c
          else case fold_result (\<lambda>(k, v) out. map_sum id (\<lambda>ps. out @ ps) (combine k [v])) (cc_buffer c) [] of
                 Inl e \<Rightarrow> Inl e
               | Inr combined \<Rightarrow> Inr (c\<lparr>cc_buffer := fold (\<lambda>(k, v). sm_put k v) combined []\<rparr>))"

definition Collect :: "string \<Rightarrow> int64 \<Rightarrow> CombiningCollector \<Rightarrow> CombiningCollector result" where
  "Collect key value c =
     (case add64 (case map_of (cc_buffer c) key of None \<Rightarrow> 0 | Some v \<Rightarrow> v) value of
        Inl e \<Rightarrow> Inl e
      | Inr v \<Rightarrow>
          let c1 = c\<lparr>cc_buffer := sm_put key v (cc_buffer c)\<rparr>
          in if sint (cc_flush_threshold c) \<le> sint (word_of_nat (length (cc_buffer c1)) :: int32) \<and> cc_combiner c1 \<noteq> None
             then Flush c1 else Inr c1)"

section \<open>Lines and their offsets\<close>

fun fst_result :: "('a \<times> 'b) result \<Rightarrow> 'a result" where
  "fst_result (Inl e) = Inl e"
| "fst_result (Inr (x, _)) = Inr x"

fun with_offsets :: "nat \<Rightarrow> string list \<Rightarrow> (int64 \<times> string) list" where
  "with_offsets n [] = []"
| "with_offsets n (l # ls) = (word_of_nat n, l) # with_offsets (n + length l + 1) ls"

lemma map_snd_with_offsets [simp]: "map snd (with_offsets n ls) = ls"
  by (induction ls arbitrary: n) auto

lemma drop_line:
  assumes "nl \<in> set s"
  shows "drop (Suc (length (takeWhile (\<lambda>c. c \<noteq> nl) s))) s = tl (dropWhile (\<lambda>c. c \<noteq> nl) s)"
proof -
  have "drop (Suc (length (takeWhile (\<lambda>c. c \<noteq> nl) s))) s = tl (drop (length (takeWhile (\<lambda>c. c \<noteq> nl) s)) s)"
    by (simp add: drop_Suc tl_drop)
  then show ?thesis by (simp add: dropWhile_eq_drop)
qed

lemma no_line_rest: "nl \<notin> set s \<Longrightarrow> tl (dropWhile (\<lambda>c. c \<noteq> nl) s) = []"
  by (induction s) auto

lemma takeWhile_all_iff: "takeWhile (\<lambda>c. c \<noteq> nl) s = s \<longleftrightarrow> nl \<notin> set s"
  by (auto simp: takeWhile_eq_all_conv)

text \<open>One call, from a stream in which \<open>s\<close> is left and with \<open>n\<close> bytes read before.\<close>

lemma Text_Next_line:
  assumes "tr_file r = \<lparr>if_rest = s, if_eof = False, if_fail = False\<rparr>" "tr_pos r = word_of_nat n"
    and "n + length s + 1 < 2 ^ 63" "s \<noteq> []"
  defines "l \<equiv> takeWhile (\<lambda>c. c \<noteq> nl) s"
  shows "Text_Next r = Inr (Some (word_of_nat n, l),
    r\<lparr>tr_file := (if nl \<in> set s then \<lparr>if_rest = tl (dropWhile (\<lambda>c. c \<noteq> nl) s), if_eof = False, if_fail = False\<rparr>
                   else \<lparr>if_rest = [], if_eof = True, if_fail = False\<rparr>),
      tr_line := l, tr_pos := word_of_nat (n + length l + 1)\<rparr>)"
proof -
  have l: "length l \<le> length s" unfolding l_def by (rule length_takeWhile_le)
  have n: "sint (word_of_nat n :: int64) = int n" using assms(3) by (intro sint_of_nat) simp
  then have pos: "word_of_nat n = (0 :: int64) \<or> 0 < sint (word_of_nat n :: int64)"
    by (cases "n = 0") simp_all
  have "in_int64 (int n + (int (length l) + 1))" using assms(3) l by (simp add: in_int64_def)
  then show ?thesis
    using assms(1,2,4) pos n drop_line [of s]
    by (simp add: Text_Next_def getline_def Let_def l_def [symmetric] takeWhile_all_iff [of s, folded l_def] algebra_simps)
qed

lemma Text_Next_end:
  "if_eof (tr_file r) \<or> if_fail (tr_file r) \<or> if_rest (tr_file r) = [] \<Longrightarrow> tr_pos r = 0 \<or> 0 < sint (tr_pos r) \<Longrightarrow>
   \<exists>r'. Text_Next r = Inr (None, r')"
  by (auto simp: Text_Next_def getline_def Let_def)

lemma for_records_end:
  "if_eof (tr_file r) \<or> if_fail (tr_file r) \<or> if_rest (tr_file r) = [] \<Longrightarrow> tr_pos r = 0 \<or> 0 < sint (tr_pos r) \<Longrightarrow>
   fst_result (for_records body r s) = Inr s"
  using Text_Next_end [of r] by (subst for_records.simps) auto

lemma pos_word_of_nat: "n < 2 ^ 63 \<Longrightarrow> word_of_nat n = (0 :: int64) \<or> 0 < sint (word_of_nat n :: int64)"
  by (cases "n = 0") (simp_all add: sint_of_nat)

lemma for_records_lines:
  assumes "tr_file r = \<lparr>if_rest = s, if_eof = False, if_fail = False\<rparr>" "tr_pos r = word_of_nat n"
    and "n + length s + 1 < 2 ^ 63"
  shows "fst_result (for_records body r st) = fold_result (\<lambda>(k, l). body k l) (with_offsets n (getlines nl s)) st"
  using assms
proof (induction s arbitrary: r n st rule: length_induct)
  case (1 s)
  note r = "1.prems"
  show ?case
  proof (cases "s = []")
    case True
    then show ?thesis using r for_records_end [of r body st] pos_word_of_nat [of n] by simp
  next
    case False
    let ?l = "takeWhile (\<lambda>c. c \<noteq> nl) s" and ?s = "tl (dropWhile (\<lambda>c. c \<noteq> nl) s)"
    let ?n = "n + length ?l + 1"
    obtain r1 where r1: "Text_Next r = Inr (Some (word_of_nat n, ?l), r1)" "tr_pos r1 = word_of_nat ?n"
      "tr_file r1 = (if nl \<in> set s then \<lparr>if_rest = ?s, if_eof = False, if_fail = False\<rparr>
        else \<lparr>if_rest = [], if_eof = True, if_fail = False\<rparr>)"
      using Text_Next_line [OF r False] by simp
    have lines: "getlines nl s = ?l # getlines nl ?s" using False by (subst getlines.simps) simp
    have "length s = length ?l + length (dropWhile (\<lambda>c. c \<noteq> nl) s)"
      by (metis length_append takeWhile_dropWhile_id)
    moreover have "dropWhile (\<lambda>c. c \<noteq> nl) s = [] \<longleftrightarrow> nl \<notin> set s" by (auto simp: dropWhile_eq_Nil_conv)
    ultimately have len: "length s = length ?l + (if nl \<in> set s then Suc (length ?s) else 0)"
      by (cases "dropWhile (\<lambda>c. c \<noteq> nl) s") simp_all
    have rest: "fst_result (for_records body r1 s1) = fold_result (\<lambda>(k, l). body k l) (with_offsets ?n (getlines nl ?s)) s1" for s1
    proof (cases "nl \<in> set s")
      case True
      then have "length s = length ?l + Suc (length ?s)" using len by (simp only: if_True)
      then have "length ?s < length s" "?n + length ?s + 1 < 2 ^ 63" using r(3) by linarith+
      then show ?thesis using "1.IH" [rule_format, of ?s r1 ?n] r1 True by simp
    next
      case no: False
      then have "length s = length ?l" using len by (simp only: if_False add_0_right)
      then have "?n < 2 ^ 63" using r(3) by linarith
      moreover have "?s = []" using no by (rule no_line_rest)
      ultimately show ?thesis using for_records_end [of r1 body s1] pos_word_of_nat [of ?n] r1 no by simp
    qed
    have "fst_result (for_records body r st)
        = (case body (word_of_nat n) ?l st of Inl e \<Rightarrow> Inl e | Inr s1 \<Rightarrow> fst_result (for_records body r1 s1))"
      using r1(1) by (subst for_records.simps) (simp split: sum.split)
    then show ?thesis using rest by (simp add: lines split: sum.split)
  qed
qed

lemma for_records_file:
  assumes "case content of None \<Rightarrow> True | Some s \<Rightarrow> length s + 1 < 2 ^ 63"
  shows "fst_result (for_records body (TextRecordReader_new content) st)
    = fold_result (\<lambda>(k, l). body k l) (case content of None \<Rightarrow> [] | Some s \<Rightarrow> with_offsets 0 (getlines nl s)) st"
proof (cases content)
  case None
  then show ?thesis
    using for_records_end [of "TextRecordReader_new None"] by (simp add: TextRecordReader_new_def open_in_def)
next
  case (Some s)
  then show ?thesis
    using for_records_lines [of "TextRecordReader_new (Some s)" s 0] assms by (simp add: TextRecordReader_new_def open_in_def)
qed

lemma getlines_parts:
  "concat (map (\<lambda>l. l @ [nl]) (getlines nl s)) = (if s = [] \<or> last s = nl then s else s @ [nl]) \<and> (\<forall>l\<in>set (getlines nl s). nl \<notin> set l)"
proof (induction s rule: length_induct)
  case (1 s)
  let ?l = "takeWhile (\<lambda>c. c \<noteq> nl) s" and ?d = "dropWhile (\<lambda>c. c \<noteq> nl) s"
  have s: "s = ?l @ ?d" by simp
  have l: "nl \<notin> set ?l" using set_takeWhileD by fastforce
  show ?case
  proof (cases ?d)
    case Nil
    then have "nl \<notin> set s" by auto
    then show ?thesis
    proof (cases "s = []")
      case False
      then have "last s \<noteq> nl" using \<open>nl \<notin> set s\<close> last_in_set [of s] by metis
      then show ?thesis using False \<open>nl \<notin> set s\<close> by (simp add: getlines_last)
    qed simp
  next
    case (Cons c t)
    then have c: "c = nl" by (metis (mono_tags, lifting) hd_dropWhile list.discI list.sel(1))
    have st: "s = ?l @ nl # t" using s Cons c by metis
    then have lines: "getlines nl s = ?l # getlines nl t" using getlines_line [OF l] by metis
    have "length t < length s" using arg_cong [OF st, of length] by simp
    then have IH: "concat (map (\<lambda>l. l @ [nl]) (getlines nl t)) = (if t = [] \<or> last t = nl then t else t @ [nl])"
      "\<forall>l\<in>set (getlines nl t). nl \<notin> set l" using "1.IH" by blast+
    have "concat (map (\<lambda>l. l @ [nl]) (getlines nl s)) = ?l @ nl # (if t = [] \<or> last t = nl then t else t @ [nl])"
      using IH(1) by (simp add: lines)
    also have "\<dots> = (if s = [] \<or> last s = nl then s else s @ [nl])"
      by (subst (2 3 4 5) st) simp
    finally show ?thesis using IH(2) l lines by simp
  qed
qed

lemma with_offsets_at:
  assumes "pre @ concat (map (\<lambda>l. l @ [nl]) ls) = content @ x" "length x \<le> 1" "length content < 2 ^ 64"
    and "pre = [] \<or> last pre = nl" "(k, l) \<in> set (with_offsets (length pre) ls)"
  shows "take (length l) (drop (unat k) content) = l \<and> (k = 0 \<or> content ! (unat k - 1) = nl)"
  using assms(1,4,5)
proof (induction ls arbitrary: pre)
  case (Cons l0 ls)
  show ?case
  proof (cases "(k, l) = (word_of_nat (length pre), l0)")
    case True
    have eq: "content @ x = pre @ l @ [nl] @ concat (map (\<lambda>l. l @ [nl]) ls)" using Cons.prems(1) True by simp
    have len: "length pre + length l \<le> length content" using arg_cong [OF eq, of length] assms(2) by simp
    have k: "unat k = length pre" using True len assms(3) by (simp add: unat_of_nat take_bit_nat_eq_self)
    have "take (length pre + length l) (content @ x) = pre @ l" by (subst eq) simp
    then have c: "take (length pre + length l) content = pre @ l" using len by simp
    have "take (length l) (drop (length pre) content) = drop (length pre) (take (length pre + length l) content)"
      by (simp add: drop_take)
    moreover have "content ! (length pre - 1) = nl" if "pre \<noteq> []"
    proof -
      have "content ! (length pre - 1) = take (length pre + length l) content ! (length pre - 1)"
        using that by (intro nth_take [symmetric]) (simp add: length_greater_0_conv [symmetric] del: length_greater_0_conv)
      then show ?thesis using that Cons.prems(2) by (simp add: c nth_append last_conv_nth)
    qed
    ultimately show ?thesis using True k c by (cases "pre = []") auto
  next
    case False
    then have "(k, l) \<in> set (with_offsets (length (pre @ l0 @ [nl])) ls)" using Cons.prems(3) by (auto simp: add.assoc)
    then show ?thesis using Cons.IH [of "pre @ l0 @ [nl]"] Cons.prems(1) by simp
  qed
qed simp

lemma fold_result_snoc: "fold_result (\<lambda>(k, l) acc. Inr (acc @ [(k, l)])) xs acc = Inr (acc @ xs)"
  by (induction xs arbitrary: acc) auto



lemma uint_scast_pos:
  assumes "0 \<le> sint (n :: int32)"
  shows "uint (scast n :: 64 word) = sint n"
proof -
  have "sint n < 2 ^ 31" using sint_less [of n] by simp
  have "uint (word_of_int (sint n) :: 64 word) = take_bit LENGTH(64) (sint n)" by (rule uint_word_of_int_eq)
  also have "\<dots> = sint n" using assms \<open>sint n < 2 ^ 31\<close> by (intro take_bit_int_eq_self) simp_all
  finally show ?thesis by (simp only: scast_eq)
qed

lemma GetPartition_bounds:
  assumes "0 < sint n"
  shows "\<exists>p. GetPartition hash k n = Inr p \<and> 0 \<le> sint p \<and> sint p < sint n"
proof -
  let ?n = "scast n :: 64 word" and ?h = "and (hash k) 0x7FFFFFFF"
  have n: "uint ?n = sint n" using assms by (intro uint_scast_pos) simp
  have "n \<noteq> 0" using assms by auto
  have "uint (?h mod ?n) = uint ?h mod sint n" by (simp add: uint_mod n)
  then have b: "0 \<le> uint (?h mod ?n)" "uint (?h mod ?n) < sint n" using assms by simp_all
  then have "sint (ucast (?h mod ?n) :: int32) = uint (?h mod ?n)"
    using sint_less [of n] by (simp add: signed_ucast_eq signed_take_bit_int_eq_self_iff order.trans [of _ 0])
  then show ?thesis using b \<open>n \<noteq> 0\<close> by (simp add: GetPartition_def)
qed

section \<open>Summing reducers and the combining collector\<close>

locale summing =
  fixes red :: reducer
  assumes sums: "sums_ok vs \<Longrightarrow> red k vs = Inr [(k, total64 vs)]"
begin

lemma combined: "fold_result (\<lambda>(k, v) out. map_sum id (\<lambda>ps. out @ ps) (red k [v])) ps out = Inr (out @ ps)"
  by (induction ps arbitrary: out) (auto simp: sums)

end

lemma map_of_sm_put [simp]: "map_of (sm_put k v m) = (map_of m)(k \<mapsto> v)"
  by (induction m) (auto simp: fun_eq_iff)

lemma set_sm_put [simp]: "fst ` set (sm_put k v m) = insert k (fst ` set m)"
  by (induction m) auto

lemma sorted_sm_put: "sorted_wrt (<) (map fst m) \<Longrightarrow> sorted_wrt (<) (map fst (sm_put k v m))"
proof (induction m)
  case (Cons e m)
  then show ?case using set_sm_put [of k v m] by (auto simp flip: set_map)
qed simp

lemma sm_put_last: "(\<And>a. a \<in> set (map fst m) \<Longrightarrow> a < k) \<Longrightarrow> sm_put k v m = m @ [(k, v)]"
  by (induction m) auto

lemma fold_sm_put: "sorted_wrt (<) (map fst (acc @ m)) \<Longrightarrow> fold (\<lambda>(k, v). sm_put k v) m acc = acc @ m"
proof (induction m arbitrary: acc)
  case (Cons e m)
  have "sm_put (fst e) (snd e) acc = acc @ [e]"
    using Cons.prems by (subst sm_put_last) (auto simp: sorted_wrt_append)
  then show ?case using Cons.IH [of "acc @ [e]"] Cons.prems by (simp add: split_def)
qed simp

context summing
begin

text \<open>Flushing through a summing combiner changes nothing.\<close>

lemma Flush_summing:
  assumes "cc_combiner c = Some red" "sorted_wrt (<) (map fst (cc_buffer c))"
  shows "Flush c = Inr c"
  using assms combined [of "cc_buffer c" "[]"] fold_sm_put [of "[]" "cc_buffer c"]
  by (simp add: Flush_def)

end

text \<open>The values that a list of pairs has for a key.\<close>

definition values_of :: "string \<Rightarrow> pair list \<Rightarrow> int64 list" where
  "values_of k ps = map snd (filter (\<lambda>p. fst p = k) ps)"

lemma values_of_append [simp]: "values_of k (ps @ qs) = values_of k ps @ values_of k qs"
  by (simp add: values_of_def)

lemma values_of_simps [simp]: "values_of k [] = []" "values_of k (p # ps) = (if fst p = k then snd p # values_of k ps else values_of k ps)"
  by (simp_all add: values_of_def)

lemma values_of_eq_Nil: "values_of k ps = [] \<longleftrightarrow> k \<notin> fst ` set ps"
  by (auto simp: values_of_def filter_empty_conv)

definition collects :: "pair list \<Rightarrow> CombiningCollector \<Rightarrow> bool" where
  "collects ps c \<longleftrightarrow> sorted_wrt (<) (map fst (cc_buffer c))
     \<and> map_of (cc_buffer c) = (\<lambda>k. if k \<in> fst ` set ps then Some (total64 (values_of k ps)) else None)"

lemma Collect_step:
  assumes "collects ps c" "sums_ok (values_of k (ps @ [(k, v)]))"
    and "cc_combiner c = None \<or> (\<exists>red. cc_combiner c = Some red \<and> summing red)"
  shows "\<exists>c'. Collect k v c = Inr c' \<and> collects (ps @ [(k, v)]) c' \<and> cc_combiner c' = cc_combiner c"
proof -
  have old: "(case map_of (cc_buffer c) k of None \<Rightarrow> 0 | Some v \<Rightarrow> v) = total64 (values_of k ps)"
    using assms(1) values_of_eq_Nil [of k ps] by (auto simp: collects_def total64_def)
  let ?v = "total64 (values_of k (ps @ [(k, v)]))"
  let ?c = "c\<lparr>cc_buffer := sm_put k ?v (cc_buffer c)\<rparr>"
  have add: "add64 (total64 (values_of k ps)) v = Inr ?v" using add64_total assms(2) by simp
  have c: "collects (ps @ [(k, v)]) ?c"
    using assms(1) by (auto simp: collects_def sorted_sm_put fun_eq_iff)
  have "Flush ?c = Inr ?c" if "cc_combiner c \<noteq> None"
    using summing.Flush_summing [of _ ?c] assms(3) c that by (auto simp: collects_def)
  then have "Collect k v c = Inr ?c" by (auto simp: Collect_def old add Let_def)
  then show ?thesis using c by simp
qed

lemma Collect_all:
  assumes "collects qs c" "\<And>k. sums_ok (values_of k (qs @ ps))"
    and "cc_combiner c = None \<or> (\<exists>red. cc_combiner c = Some red \<and> summing red)"
  shows "\<exists>c'. fold_result (\<lambda>(k, v). Collect k v) ps c = Inr c' \<and> collects (qs @ ps) c'"
  using assms
proof (induction ps arbitrary: qs c)
  case (Cons p ps)
  obtain k v where p: "p = (k, v)" by fastforce
  have "sums_ok (values_of k (qs @ [(k, v)]))"
    using Cons.prems(2) [of k] sums_ok_prefix [of "values_of k (qs @ [(k, v)])" "values_of k ps"] by (simp add: p)
  then obtain c1 where c1: "Collect k v c = Inr c1" "collects (qs @ [(k, v)]) c1" "cc_combiner c1 = cc_combiner c"
    using Collect_step [OF Cons.prems(1) _ Cons.prems(3)] by blast
  then show ?case using Cons.IH [OF c1(2)] Cons.prems(2,3) by (auto simp: p)
qed auto

end
