(* ===== verification/WordCount.thy ===== *)
theory WordCount
  imports MapApi
begin

text \<open>
  Model of \<^verbatim>\<open>src/mapred/examples/wordcount.h\<close>: mapper, reducer and combiner of the word count. The reducer and
  the combiner are interpretations of \<open>summing\<close>.
\<close>

definition WordCountMapper_Map :: mapper where
  "WordCountMapper_Map key value = Inr (map (\<lambda>word. (word, 1)) (extract_words value))"

definition sum_loop :: "int64 list \<Rightarrow> int64 result" where
  "sum_loop values = fold_result (\<lambda>v s. add64 s v) values 0"

definition WordCountReducer_Reduce :: reducer where
  "WordCountReducer_Reduce key values =
     (case sum_loop values of Inl e \<Rightarrow> Inl e | Inr s \<Rightarrow> Inr [(key, s)])"

definition WordCountCombiner_Combine :: reducer where
  "WordCountCombiner_Combine key values =
     (case sum_loop values of Inl e \<Rightarrow> Inl e | Inr s \<Rightarrow> Inr [(key, s)])"

lemma sum_loop_total: "sums_ok vs \<Longrightarrow> sum_loop vs = Inr (total64 vs)"
  using sum_loop [of "\<lambda>v. v" vs] by (simp add: sum_loop_def)

interpretation wc_reduce: summing WordCountReducer_Reduce
  by unfold_locales (simp add: WordCountReducer_Reduce_def sum_loop_total)

interpretation wc_combine: summing WordCountCombiner_Combine
  by unfold_locales (simp add: WordCountCombiner_Combine_def sum_loop_total)

text \<open>C27. The combining collector adds up: whatever pairs are collected (as long as no running sum overflows),
  with the word count combiner or none and at any flush threshold, the buffer ends with each key once,
  in order, and with the sum of the values collected for it.\<close>

theorem combining_collector_sums:
  assumes "\<forall>k. sums_ok (values_of k ps)" "cc_buffer c = []"
    and "cc_combiner c = None \<or> cc_combiner c = Some WordCountCombiner_Combine"
  shows "\<exists>c'. fold_result (\<lambda>(k, v). Collect k v) ps c = Inr c'
    \<and> cc_buffer c' = map (\<lambda>k. (k, total64 (values_of k ps))) (sorted_list_of_set (fst ` set ps))"
proof -
  have "collects [] c" using assms(2) by (simp add: collects_def fun_eq_iff)
  then obtain c' where c': "fold_result (\<lambda>(k, v). Collect k v) ps c = Inr c'" "collects ps c'"
    using Collect_all [of "[]" c ps] assms wc_combine.summing_axioms by auto
  let ?m = "cc_buffer c'"
  have sorted: "sorted_wrt (<) (map fst ?m)" and m: "map_of ?m k = (if k \<in> fst ` set ps then Some (total64 (values_of k ps)) else None)" for k
    using c'(2) by (simp_all add: collects_def)
  have keys: "fst ` set ?m = fst ` set ps" using m dom_map_of_conv_image_fst [of ?m] by (auto simp: dom_def split: if_splits)
  then have order: "map fst ?m = sorted_list_of_set (fst ` set ps)"
    using sorted by (metis list.set_map sorted_list_of_set.idem_if_sorted_distinct strict_sorted_iff)
  have "e = (fst e, total64 (values_of (fst e) ps))" if "e \<in> set ?m" for e
  proof -
    have "distinct (map fst ?m)" using sorted strict_sorted_iff by blast
    then have "map_of ?m (fst e) = Some (snd e)" using that by simp
    then show ?thesis using m [of "fst e"] by (cases e) (auto split: if_splits)
  qed
  then have "?m = map (\<lambda>k. (k, total64 (values_of k ps))) (map fst ?m)" by (simp add: map_idI)
  then show ?thesis using c'(1) order by auto
qed

theorem combining_collector_sums_witness:
  "\<exists>c'. fold_result (\<lambda>(k, v). Collect k v) [(''b'', 2), (''a'', 1), (''b'', 3)]
      \<lparr>cc_buffer = [], cc_combiner = Some WordCountCombiner_Combine, cc_flush_threshold = 1\<rparr> = Inr c'
    \<and> map fst (cc_buffer c') = sorted_list_of_set {''a'', ''b''}"
proof -
  have "sums_ok (values_of k [(''b'', 2), (''a'', 1), (''b'', 3)])" for k
    by (cases "k = ''a''"; cases "k = ''b''") (simp_all add: sums_ok_def in_int64_def)
  then obtain c' where "fold_result (\<lambda>(k, v). Collect k v) [(''b'', 2), (''a'', 1), (''b'', 3)]
      \<lparr>cc_buffer = [], cc_combiner = Some WordCountCombiner_Combine, cc_flush_threshold = 1\<rparr> = Inr c'"
    "cc_buffer c' = map (\<lambda>k. (k, total64 (values_of k [(''b'', 2), (''a'', 1), (''b'', 3)])))
       (sorted_list_of_set (fst ` set [(''b'', 2), (''a'', 1), (''b'', 3)]))"
    using combining_collector_sums [of "[(''b'', 2), (''a'', 1), (''b'', 3)]"
        "\<lparr>cc_buffer = [], cc_combiner = Some WordCountCombiner_Combine, cc_flush_threshold = 1\<rparr>"] by auto
  then show ?thesis by (auto simp: comp_def insert_commute)
qed

end
