(* ===== verification/JobTracker.thy ===== *)
theory JobTracker
  imports WordCount
begin

text \<open>
  Model of \<^verbatim>\<open>src/mapred/job_tracker.h\<close>: the local job tracker, which runs a whole job in one process: map, partition,
  sort, combine, reduce, sort, write.

  The host's files are a map from names to contents; \<open>can_write\<close> says which can be opened for writing.
  \<open>hash\<close> is \<open>std::hash<std::string>\<close>. The sort of a partition compares keys only, and \<open>std::sort\<close> may leave records
  with equal keys in any order: it is the parameter \<open>sort_part\<close>, and \<open>sorts\<close> says what it promises. The
  final sort is by a total order on pairs, which determines its result. A factory is an option, \<open>None\<close>
  being the empty \<open>std::function\<close>.
\<close>

section \<open>State\<close>

record JobConfig =
  input_path :: string
  output_path :: string
  mapper_class :: string
  reducer_class :: string
  num_map_tasks :: int32
  num_reduce_tasks :: int32

record JobTracker =
  jt_config :: JobConfig
  jt_mapper :: "mapper option"
  jt_reducer :: "reducer option"
  jt_combiner :: "reducer option"
  jt_done :: bool

definition JobTracker_new :: JobTracker where
  "JobTracker_new = \<lparr>jt_config = \<lparr>input_path = [], output_path = [], mapper_class = [], reducer_class = [],
       num_map_tasks = 1, num_reduce_tasks = 1\<rparr>,
     jt_mapper = None, jt_reducer = None, jt_combiner = None, jt_done = False\<rparr>"

definition SubmitJob :: "JobConfig \<Rightarrow> mapper option \<Rightarrow> reducer option \<Rightarrow> reducer option \<Rightarrow> JobTracker \<Rightarrow> bool \<times> JobTracker" where
  "SubmitJob config mf rf cf jt =
     (True, jt\<lparr>jt_config := config, jt_mapper := mf, jt_reducer := rf, jt_combiner := cf, jt_done := False\<rparr>)"

definition IsJobDone :: "JobTracker \<Rightarrow> bool" where
  "IsJobDone jt = jt_done jt"

section \<open>Map phase\<close>

text \<open>\<open>(*parts)[p].push_back({key, value})\<close>, with no check of the index.\<close>

definition MapCollector_Collect :: "(string \<Rightarrow> 64 word) \<Rightarrow> int32 \<Rightarrow> pair \<Rightarrow> pair list list \<Rightarrow> pair list list result" where
  "MapCollector_Collect hash num_reduces kv parts =
     (case GetPartition hash (fst kv) num_reduces of
        Inl e \<Rightarrow> Inl e
      | Inr p \<Rightarrow> if 0 \<le> sint p \<and> nat (sint p) < length parts
                 then Inr (parts[nat (sint p) := parts ! nat (sint p) @ [kv]])
                 else Inl Undefined)"

definition map_record :: "(string \<Rightarrow> 64 word) \<Rightarrow> int32 \<Rightarrow> mapper \<Rightarrow> int64 \<Rightarrow> string \<Rightarrow> pair list list \<Rightarrow> pair list list result" where
  "map_record hash num_reduces mapper lk lv parts =
     (case mapper lk lv of
        Inl e \<Rightarrow> Inl e
      | Inr ps \<Rightarrow> fold_result (MapCollector_Collect hash num_reduces) ps parts)"

section \<open>Groups of equal keys\<close>

text \<open>\<open>while (j < size) { key = part[j].key; while (j < size && same(part[j].key, key)) \<dots>; f(key, values); }\<close>,
  with the pairs that the calls of \<open>f\<close> produce. The first record of a group is in it: both comparisons that
  the sources use for \<open>same\<close> are reflexive.\<close>

function for_groups :: "(string \<Rightarrow> string \<Rightarrow> bool) \<Rightarrow> reducer \<Rightarrow> pair list \<Rightarrow> pair list result" where
  "for_groups same f [] = Inr []"
| "for_groups same f ((key, v) # ps) =
     (case f key (v # map snd (takeWhile (\<lambda>p. same (fst p) key) ps)) of
        Inl e \<Rightarrow> Inl e
      | Inr out \<Rightarrow>
          (case for_groups same f (dropWhile (\<lambda>p. same (fst p) key) ps) of
             Inl e \<Rightarrow> Inl e
           | Inr rest \<Rightarrow> Inr (out @ rest)))"
  by pat_completeness auto
termination
  by (relation "measure (\<lambda>(same, f, ps). length ps)") (auto simp: length_dropWhile_le less_Suc_eq_le)

definition same_key :: "string \<Rightarrow> string \<Rightarrow> bool" where
  "same_key a b \<longleftrightarrow> CompareTo (UTF8 a) (UTF8 b) = Inr 0"

text \<open>The combiner step adds the values up itself; the combiner object is created and never called.\<close>

definition combine_part :: "pair list \<Rightarrow> pair list result" where
  "combine_part part =
     for_groups same_key (\<lambda>key values. case sum_loop values of Inl e \<Rightarrow> Inl e | Inr s \<Rightarrow> Inr [(key, s)]) part"

definition reduce_part :: "reducer \<Rightarrow> pair list \<Rightarrow> pair list result" where
  "reduce_part reducer part = for_groups same_key reducer part"

section \<open>The job\<close>

text \<open>A loop over parts whose body returns a list; the results in order, and their concatenation.\<close>

fun map_result :: "('a \<Rightarrow> 'b result) \<Rightarrow> 'a list \<Rightarrow> 'b list result" where
  "map_result f [] = Inr []"
| "map_result f (x # xs) =
     (case f x of
        Inl e \<Rightarrow> Inl e
      | Inr y \<Rightarrow> (case map_result f xs of Inl e \<Rightarrow> Inl e | Inr ys \<Rightarrow> Inr (y # ys)))"

definition sort_results :: "pair list \<Rightarrow> pair list" where
  "sort_results = sort_key (\<lambda>(k, v). (k, sint v))"

definition output_text :: "pair list \<Rightarrow> string" where
  "output_text results = concat (map (\<lambda>(k, v). k @ [tab] @ show_int64 v @ [nl]) results)"

definition RunJob :: "(string \<Rightarrow> 64 word) \<Rightarrow> (pair list \<Rightarrow> pair list) \<Rightarrow> (string \<Rightarrow> bool) \<Rightarrow> JobTracker \<Rightarrow> files
    \<Rightarrow> ((bool \<times> JobTracker) \<times> files) result" where
  "RunJob hash sort_part can_write jt fs =
     (let config = jt_config jt;
          reader = TextRecordReader_new (fs (input_path config));
          n = num_reduce_tasks config
      in case jt_mapper jt of
           None \<Rightarrow> Inl BadFunctionCall
         | Some mapper \<Rightarrow>
             if sint n < 0 then Inl LengthError
             else case for_records (map_record hash n mapper) reader (replicate (nat (sint n)) []) of
               Inl e \<Rightarrow> Inl e
             | Inr (partitioned, _) \<Rightarrow>
                 let partitioned = map sort_part partitioned
                 in case (if jt_combiner jt \<noteq> None then map_result combine_part partitioned else Inr partitioned) of
                   Inl e \<Rightarrow> Inl e
                 | Inr partitioned \<Rightarrow>
                     (case jt_reducer jt of
                        None \<Rightarrow> Inl BadFunctionCall
                      | Some reducer \<Rightarrow>
                          (case map_result (reduce_part reducer) partitioned of
                             Inl e \<Rightarrow> Inl e
                           | Inr results \<Rightarrow>
                               let all_results = sort_results (concat results);
                                   fs1 = (if can_write (output_path config)
                                          then fs(output_path config \<mapsto> output_text all_results) else fs)
                               in Inr ((True, jt\<lparr>jt_done := True\<rparr>), fs1))))"

definition sorts :: "(pair list \<Rightarrow> pair list) \<Rightarrow> bool" where
  "sorts sort_part \<longleftrightarrow> (\<forall>part. mset (sort_part part) = mset part
     \<and> sorted_wrt (\<lambda>a b. \<not> Writable_less (UTF8 (fst b)) (UTF8 (fst a)) = Inr True) (sort_part part))"

section \<open>Order of keys\<close>

lemma byte_of_char_less [simp]: "byte_of_char c < byte_of_char d \<longleftrightarrow> c < d"
proof -
  have "unat (byte_of_char x) = of_char x" for x
    by (simp add: byte_of_char_def unat_of_nat)
  then show ?thesis by (simp add: word_less_nat_alt less_char_def)
qed

lemma byte_of_char_eq [simp]: "byte_of_char c = byte_of_char d \<longleftrightarrow> c = d"
  by (metis char_of_byte_of_char)

lemma map_byte_less: "map byte_of_char a < map byte_of_char b \<longleftrightarrow> a < b"
  by (induction a b rule: list_induct2') simp_all

lemma map_byte_eq: "map byte_of_char a = map byte_of_char b \<longleftrightarrow> a = b"
  by (metis map_char_of_byte)

lemma Writable_less_string: "Writable_less (UTF8 a) (UTF8 b) = Inr True \<longleftrightarrow> a < b"
  by (auto simp: Writable_less_def compare_bytes_def map_byte_less)

lemma same_key_eq: "same_key = (=)"
  by (auto simp: same_key_def compare_bytes_def map_byte_eq fun_eq_iff)

lemma sortsD: "sorts sp \<Longrightarrow> mset (sp part) = mset part" "sorts sp \<Longrightarrow> sorted (map fst (sp part))"
  by (auto simp: sorts_def Writable_less_string sorted_map not_less)

section \<open>Grouping a sorted list\<close>

definition keys_of :: "pair list \<Rightarrow> string list" where
  "keys_of ps = sorted_list_of_set (fst ` set ps)"

lemma takeWhile_sorted_key:
  fixes ps :: "pair list"
  assumes "sorted (map fst ps)" "\<And>k. k \<in> fst ` set ps \<Longrightarrow> key \<le> k"
  shows "takeWhile (\<lambda>p. fst p = key) ps = filter (\<lambda>p. fst p = key) ps"
    and "dropWhile (\<lambda>p. fst p = key) ps = filter (\<lambda>p. fst p \<noteq> key) ps"
proof -
  have "takeWhile (\<lambda>p. fst p = key) ps = filter (\<lambda>p. fst p = key) ps \<and> dropWhile (\<lambda>p. fst p = key) ps = filter (\<lambda>p. fst p \<noteq> key) ps"
    using assms
  proof (induction ps)
    case (Cons p ps)
    show ?case
    proof (cases "fst p = key")
      case False
      then have "key < fst p" using Cons.prems(2) [of "fst p"] by simp
      then have "fst q \<noteq> key" if "q \<in> set ps" for q using Cons.prems(1) that by force
      then show ?thesis using False by (simp add: filter_empty_conv filter_id_conv)
    qed (use Cons in simp)
  qed simp
  then show "takeWhile (\<lambda>p. fst p = key) ps = filter (\<lambda>p. fst p = key) ps"
    and "dropWhile (\<lambda>p. fst p = key) ps = filter (\<lambda>p. fst p \<noteq> key) ps" by simp_all
qed

lemma values_of_filter: "values_of k (filter (\<lambda>p. P (fst p)) ps) = (if P k then values_of k ps else [])"
  by (induction ps) auto

lemma sorted_list_of_set_least:
  "finite A \<Longrightarrow> (\<And>x. x \<in> A \<Longrightarrow> k < x) \<Longrightarrow> sorted_list_of_set (insert k A) = k # sorted_list_of_set A"
  by (rule strict_sorted_equal) (auto simp del: sorted_list_of_set.sorted_key_list_of_set_insert_remove)

lemma for_groups_sorted:
  assumes "sorted (map fst ps)" "\<And>k. k \<in> fst ` set ps \<Longrightarrow> f k (values_of k ps) = Inr (G k)"
  shows "for_groups (=) f ps = Inr (concat (map G (keys_of ps)))"
  using assms
proof (induction "(=) :: string \<Rightarrow> string \<Rightarrow> bool" f ps rule: for_groups.induct)
  case (2 f key v ps)
  let ?rest = "filter (\<lambda>p. fst p \<noteq> key) ps"
  have least: "key \<le> k" if "k \<in> fst ` set ps" for k using "2.prems"(1) that by auto
  have grp: "takeWhile (\<lambda>p. fst p = key) ps = filter (\<lambda>p. fst p = key) ps" "dropWhile (\<lambda>p. fst p = key) ps = ?rest"
    using takeWhile_sorted_key [of ps key] "2.prems"(1) least by simp_all
  have "fst ` set ((key, v) # ps) = insert key (fst ` set ?rest)" by auto
  moreover have "key < k" if "k \<in> fst ` set ?rest" for k using least that by force
  ultimately have keys: "keys_of ((key, v) # ps) = key # keys_of ?rest"
    unfolding keys_of_def by (simp only: sorted_list_of_set_least finite_imageI finite_set)
  have first: "f key (v # map snd (filter (\<lambda>p. fst p = key) ps)) = Inr (G key)"
    using "2.prems"(2) [of key] by (simp add: values_of_def)
  have "f k (values_of k ?rest) = Inr (G k)" if "k \<in> fst ` set ?rest" for k
  proof -
    have "k \<in> fst ` set ((key, v) # ps)" "k \<noteq> key" using that by auto
    then show ?thesis using "2.prems"(2) [of k] by (simp add: values_of_filter [where P = "\<lambda>k. k \<noteq> key"])
  qed
  moreover have "sorted (map fst ?rest)" using "2.prems"(1) by (simp add: sorted_filter)
  ultimately have "for_groups (=) f ?rest = Inr (concat (map G (keys_of ?rest)))"
    using "2.hyps" [of "G key"] first by (simp add: grp)
  then show ?case using first by (simp add: grp keys)
qed (simp add: keys_of_def)

section \<open>Partitions\<close>

definition part_of :: "(string \<Rightarrow> 64 word) \<Rightarrow> int32 \<Rightarrow> string \<Rightarrow> nat" where
  "part_of hash n k = (case GetPartition hash k n of Inl e \<Rightarrow> 0 | Inr p \<Rightarrow> nat (sint p))"

lemma part_of_less: "0 < sint n \<Longrightarrow> part_of hash n k < nat (sint n)"
  using GetPartition_bounds [of n hash k] by (auto simp: part_of_def)

definition split_parts :: "(string \<Rightarrow> nat) \<Rightarrow> nat \<Rightarrow> pair list \<Rightarrow> pair list list" where
  "split_parts idx n ps = map (\<lambda>i. filter (\<lambda>p. idx (fst p) = i) ps) [0..<n]"

lemma length_split_parts [simp]: "length (split_parts idx n ps) = n"
  by (simp add: split_parts_def)

lemma split_parts_snoc:
  assumes "idx (fst p) < n"
  shows "(split_parts idx n ps)[idx (fst p) := split_parts idx n ps ! idx (fst p) @ [p]] = split_parts idx n (ps @ [p])"
  using assms by (intro nth_equalityI) (auto simp: split_parts_def nth_list_update)

lemma collect_parts:
  assumes "0 < sint n"
  shows "fold_result (MapCollector_Collect hash n) ps (split_parts (part_of hash n) (nat (sint n)) qs)
    = Inr (split_parts (part_of hash n) (nat (sint n)) (qs @ ps))"
proof (induction ps arbitrary: qs)
  case (Cons p ps)
  obtain i where i: "GetPartition hash (fst p) n = Inr i" "0 \<le> sint i" "sint i < sint n"
    using GetPartition_bounds [OF assms] by blast
  then have "part_of hash n (fst p) = nat (sint i)" by (simp add: part_of_def)
  then show ?case
    using Cons.IH [of "qs @ [p]"] i split_parts_snoc [of "part_of hash n" p "nat (sint n)" qs] part_of_less [OF assms, of hash "fst p"]
    by (simp add: MapCollector_Collect_def)
qed simp

lemma fold_result_append:
  "fold_result f (xs @ ys) s = (case fold_result f xs s of Inl e \<Rightarrow> Inl e | Inr s' \<Rightarrow> fold_result f ys s')"
  by (induction xs arbitrary: s) (auto split: sum.splits)

lemma fold_map_record:
  "map_result (\<lambda>(k, l). mapper k l) recs = Inr pss \<Longrightarrow>
   fold_result (\<lambda>(k, l). map_record hash n mapper k l) recs parts = fold_result (MapCollector_Collect hash n) (concat pss) parts"
  by (induction recs arbitrary: pss parts)
    (auto simp: map_record_def fold_result_append split: sum.splits)

text \<open>The records of a file and the pairs that a mapper emits for them.\<close>

definition file_records :: "string option \<Rightarrow> (int64 \<times> string) list" where
  "file_records content = (case content of None \<Rightarrow> [] | Some s \<Rightarrow> with_offsets 0 (getlines nl s))"

definition readable :: "string option \<Rightarrow> bool" where
  "readable content \<longleftrightarrow> (case content of None \<Rightarrow> True | Some s \<Rightarrow> length s + 1 < 2 ^ 63)"

definition emits :: "mapper \<Rightarrow> string option \<Rightarrow> pair list result" where
  "emits mapper content = (case map_result (\<lambda>(k, l). mapper k l) (file_records content) of Inl e \<Rightarrow> Inl e | Inr pss \<Rightarrow> Inr (concat pss))"

lemma fst_result_Inr: "fst_result r = Inr x \<Longrightarrow> \<exists>y. r = Inr (x, y)"
  by (cases r rule: fst_result.cases) auto

lemma map_phase:
  assumes "0 < sint n" "readable content" "emits mapper content = Inr ps"
  shows "\<exists>r. for_records (map_record hash n mapper) (TextRecordReader_new content) (replicate (nat (sint n)) [])
    = Inr (split_parts (part_of hash n) (nat (sint n)) ps, r)"
proof (rule fst_result_Inr)
  have empty: "replicate (nat (sint n)) [] = split_parts (part_of hash n) (nat (sint n)) []"
    by (simp add: split_parts_def map_replicate_const)
  obtain pss where pss: "map_result (\<lambda>(k, l). mapper k l) (file_records content) = Inr pss" "ps = concat pss"
    using assms(3) by (auto simp: emits_def split: sum.splits)
  show "fst_result (for_records (map_record hash n mapper) (TextRecordReader_new content) (replicate (nat (sint n)) []))
      = Inr (split_parts (part_of hash n) (nat (sint n)) ps)"
    using for_records_file [of content "map_record hash n mapper"] assms(2) fold_map_record [OF pss(1)] collect_parts [OF assms(1), of hash ps "[]"]
    by (simp add: readable_def file_records_def [symmetric] empty pss(2))
qed

section \<open>Reducing all partitions\<close>

lemma map_result_Inr: "(\<And>x. x \<in> set xs \<Longrightarrow> f x = Inr (g x)) \<Longrightarrow> map_result f xs = Inr (map g xs)"
  by (induction xs) auto

lemma sort_results_mset:
  assumes "mset xs = mset ys"
  shows "sort_results xs = sort_results ys"
proof -
  let ?f = "\<lambda>p :: pair. (fst p, sint (snd p))"
  have inj: "inj ?f" by (auto simp: inj_def prod_eq_iff intro: signed_word_eqI)
  have "map ?f (sort_key ?f xs) = sort (map ?f xs)" for xs :: "pair list"
    by (rule sym, rule properties_for_sort) simp_all
  moreover have "sort (map ?f xs) = sort (map ?f ys)"
    using assms by (intro properties_for_sort) simp_all
  ultimately have "map ?f (sort_key ?f xs) = map ?f (sort_key ?f ys)" by metis
  then show ?thesis using inj_map_eq_map [OF inj] by (simp add: sort_results_def split_def)
qed

lemma mset_concat_sorted_set:
  "finite A \<Longrightarrow> mset (concat (map G (sorted_list_of_set A))) = (\<Sum>k\<in>A. mset (G k))"
  by (simp add: mset_concat comp_def sum_list_distinct_conv_sum_set)

text \<open>A family of key-sorted parts, each with the keys of its index.\<close>

definition is_split :: "string set \<Rightarrow> (string \<Rightarrow> nat) \<Rightarrow> nat \<Rightarrow> (nat \<Rightarrow> pair list) \<Rightarrow> bool" where
  "is_split K idx n q \<longleftrightarrow> finite K \<and> (\<forall>k\<in>K. idx k < n)
     \<and> (\<forall>i<n. sorted (map fst (q i)) \<and> fst ` set (q i) = {k \<in> K. idx k = i})"

lemma for_groups_split:
  assumes "is_split K idx n q" "\<And>k. k \<in> K \<Longrightarrow> f k (values_of k (q (idx k))) = Inr (G k)"
  shows "map_result (for_groups same_key f) (map q [0..<n]) = Inr (map (\<lambda>i. concat (map G (keys_of (q i)))) [0..<n])"
proof -
  have "for_groups (=) f (q i) = Inr (concat (map G (keys_of (q i))))" if "i < n" for i
    using assms that by (intro for_groups_sorted) (auto simp: is_split_def)
  then have "map_result (for_groups same_key f) (map q [0..<n]) = Inr (map (\<lambda>p. concat (map G (keys_of p))) (map q [0..<n]))"
    by (intro map_result_Inr) (auto simp: same_key_eq)
  then show ?thesis by (simp add: comp_def)
qed

lemma reduce_split:
  assumes "is_split K idx n q" "\<And>k. k \<in> K \<Longrightarrow> f k (values_of k (q (idx k))) = Inr (G k)"
  shows "\<exists>results. map_result (for_groups same_key f) (map q [0..<n]) = Inr results
    \<and> sort_results (concat results) = sort_results (concat (map G (sorted_list_of_set K)))"
proof -
  let ?results = "map (\<lambda>i. concat (map G (keys_of (q i)))) [0..<n]"
  have K: "finite K" "\<And>k. k \<in> K \<Longrightarrow> idx k < n" using assms(1) by (auto simp: is_split_def)
  have "mset (concat ?results) = (\<Sum>i\<leftarrow>[0..<n]. mset (concat (map G (keys_of (q i)))))"
    by (simp add: mset_concat comp_def)
  also have "\<dots> = (\<Sum>i\<leftarrow>[0..<n]. \<Sum>k | k \<in> K \<and> idx k = i. mset (G k))"
    using assms(1) by (intro arg_cong [where f = sum_list] map_cong) (auto simp: is_split_def keys_of_def mset_concat_sorted_set)
  also have "\<dots> = (\<Sum>i\<in>{0..<n}. \<Sum>k | k \<in> K \<and> idx k = i. mset (G k))"
    by (simp add: sum_list_distinct_conv_sum_set)
  also have "\<dots> = (\<Sum>k\<in>K. mset (G k))" using K by (intro sum.group) auto
  finally have "mset (concat ?results) = mset (concat (map G (sorted_list_of_set K)))"
    using K(1) by (simp add: mset_concat_sorted_set)
  then show ?thesis using for_groups_split [where f = f, OF assms] sort_results_mset by blast
qed

lemma is_split_sorted_parts:
  assumes "sorts sp" "\<And>k. idx k < n"
  shows "is_split (fst ` set ps) idx n (\<lambda>i. sp (filter (\<lambda>p. idx (fst p) = i) ps))"
proof -
  have "set (sp part) = set part" for part using sortsD(1) [OF assms(1)] mset_eq_setD by blast
  then show ?thesis using assms(2) sortsD(2) [OF assms(1)] by (auto simp: is_split_def)
qed

lemma mset_values_of: "mset ps = mset qs \<Longrightarrow> mset (values_of k ps) = mset (values_of k qs)"
  by (simp add: values_of_def mset_filter)

lemma mset_values_part:
  "sorts sp \<Longrightarrow> mset (values_of k (sp (filter (\<lambda>p. idx (fst p) = idx k) ps))) = mset (values_of k ps)"
  using mset_values_of [of "sp (filter (\<lambda>p. idx (fst p) = idx k) ps)" "filter (\<lambda>p. idx (fst p) = idx k) ps" k]
    values_of_filter [where P = "\<lambda>k'. idx k' = idx k"] by (simp add: sortsD)

section \<open>Properties\<close>

lemma group_loops:
  "reduce_part f = for_groups same_key f"
  "combine_part = for_groups same_key (\<lambda>key values. case sum_loop values of Inl e \<Rightarrow> Inl e | Inr s \<Rightarrow> Inr [(key, s)])"
  by (simp_all add: fun_eq_iff reduce_part_def combine_part_def)

lemma RunJob_result:
  fixes hash :: "string \<Rightarrow> 64 word"
  assumes "sorts sort_part" "0 < sint (num_reduce_tasks (jt_config jt))" "readable (fs (input_path (jt_config jt)))"
    and "jt_mapper jt = Some mapper" "emits mapper (fs (input_path (jt_config jt))) = Inr ps" "jt_reducer jt = Some reducer"
    and "can_write (output_path (jt_config jt))"
  defines "n \<equiv> num_reduce_tasks (jt_config jt)"
  defines "q \<equiv> \<lambda>i. sort_part (filter (\<lambda>p. part_of hash n (fst p) = i) ps)"
  assumes "(if jt_combiner jt \<noteq> None then map_result combine_part (map q [0..<nat (sint n)])
      else Inr (map q [0..<nat (sint n)])) = Inr parts"
    and "map_result (reduce_part reducer) parts = Inr results"
  shows "RunJob hash sort_part can_write jt fs
    = Inr ((True, jt\<lparr>jt_done := True\<rparr>), fs(output_path (jt_config jt) \<mapsto> output_text (sort_results (concat results))))"
proof -
  obtain r where r: "for_records (map_record hash n mapper) (TextRecordReader_new (fs (input_path (jt_config jt))))
      (replicate (nat (sint n)) []) = Inr (split_parts (part_of hash n) (nat (sint n)) ps, r)"
    using map_phase [of n] assms(2,3,5) n_def by blast
  have parts: "map sort_part (split_parts (part_of hash n) (nat (sint n)) ps) = map q [0..<nat (sint n)]"
    by (simp add: split_parts_def q_def)
  show ?thesis
    unfolding RunJob_def Let_def
    using r assms(2,4,6,7,10,11)
    by (cases "jt_combiner jt") (simp_all add: n_def [symmetric] parts del: fun_upd_apply)
qed

text \<open>C13. A job groups by key: for every hash function, every positive number of reducers and every \<open>std::sort\<close>, if the mapper
  emits the pairs \<open>ps\<close> for the lines of the input and the reducer, called with the values of a key in
  any order, collects \<open>out k\<close>, then (without a combiner) the job ends, and its output has the results of
  exactly one such call for each emitted key, sorted.\<close>

theorem RunJob_groups:
  assumes "sorts sort_part" "0 < sint (num_reduce_tasks (jt_config jt))" "readable (fs (input_path (jt_config jt)))"
    and "jt_mapper jt = Some mapper" "emits mapper (fs (input_path (jt_config jt))) = Inr ps"
    and "jt_reducer jt = Some reducer" "jt_combiner jt = None" "can_write (output_path (jt_config jt))"
    and "\<And>k vs. k \<in> fst ` set ps \<Longrightarrow> mset vs = mset (values_of k ps) \<Longrightarrow> reducer k vs = Inr (out k)"
  shows "RunJob hash sort_part can_write jt fs = Inr ((True, jt\<lparr>jt_done := True\<rparr>),
    fs(output_path (jt_config jt) \<mapsto> output_text (sort_results (concat (map out (sorted_list_of_set (fst ` set ps)))))))"
proof -
  let ?n = "num_reduce_tasks (jt_config jt)"
  let ?idx = "part_of hash ?n"
  let ?q = "\<lambda>i. sort_part (filter (\<lambda>p. ?idx (fst p) = i) ps)"
  have split: "is_split (fst ` set ps) ?idx (nat (sint ?n)) ?q"
    using assms(1) part_of_less [OF assms(2)] by (intro is_split_sorted_parts)
  have "reducer k (values_of k (?q (?idx k))) = Inr (out k)" if "k \<in> fst ` set ps" for k
    using assms(9) [OF that] mset_values_part [OF assms(1), of k ?idx ps] by simp
  then obtain results where res: "map_result (reduce_part reducer) (map ?q [0..<nat (sint ?n)]) = Inr results"
    "sort_results (concat results) = sort_results (concat (map out (sorted_list_of_set (fst ` set ps))))"
    using reduce_split [OF split, of reducer out] unfolding group_loops by blast
  show ?thesis
    using RunJob_result [where hash = hash and sort_part = sort_part and jt = jt and fs = fs and can_write = can_write, OF assms(1-6,8) _ res(1)]
      assms(7) res(2) by simp
qed

lemma for_groups_empty: "map_result (for_groups same f) (replicate n []) = Inr (replicate n [])"
  by (induction n) simp_all

lemma sort_results_keys: "sort_results (map (\<lambda>k. (k, v k)) (sorted_list_of_set A)) = map (\<lambda>k. (k, v k)) (sorted_list_of_set A)"
proof -
  have "sorted_wrt (<) (sorted_list_of_set A)" by simp
  then have "sorted_wrt (\<lambda>x y. x < y \<or> x \<le> y \<and> sint (v x) \<le> sint (v y)) (sorted_list_of_set A)"
    by (rule sorted_wrt_mono_rel [rotated]) simp
  then have "sorted (map (\<lambda>k. (k, sint (v k))) (sorted_list_of_set A))" by (simp add: sorted_map)
  then show ?thesis by (simp add: sort_results_def sort_key_id_if_sorted comp_def)
qed

lemma replicate_ones:
  assumes "n < 2 ^ 63"
  shows "sums_ok (replicate n 1)" "total64 (replicate n 1) = word_of_nat n"
proof -
  show "sums_ok (replicate n 1)" using assms by (auto simp: sums_ok_iff in_int64_def sum_list_replicate)
  show "total64 (replicate n 1) = word_of_nat n" by (simp add: total64_def sum_list_replicate)
qed

lemma mset_replicate_eq: "mset vs = mset (replicate n x) \<Longrightarrow> vs = replicate n x"
  by (metis mset_eq_length mset_eq_setD replicate_eqI in_set_replicate length_replicate)

lemma values_of_words: "values_of w (map (\<lambda>w. (w, 1)) ws) = replicate (count_list ws w) 1"
  by (induction ws) auto

lemma emits_words: "emits WordCountMapper_Map (Some content) = Inr (map (\<lambda>w. (w, 1)) (extract_words content))"
proof -
  let ?recs = "with_offsets 0 (getlines nl content)"
  have "map_result (\<lambda>(k, l). WordCountMapper_Map k l) ?recs = Inr (map (\<lambda>(k, l). map (\<lambda>w. (w, 1)) (extract_words l)) ?recs)"
    by (intro map_result_Inr) (auto simp: WordCountMapper_Map_def)
  moreover have "map (\<lambda>(k, l). map (\<lambda>w. (w, 1)) (extract_words l)) ?recs = map (\<lambda>l. map (\<lambda>w. (w, 1 :: int64)) (extract_words l)) (map snd ?recs)"
    by (simp only: map_map comp_def split_def)
  moreover have "concat (map (\<lambda>l. map (\<lambda>w. (w, 1 :: int64)) (extract_words l)) (getlines nl content)) = map (\<lambda>w. (w, 1)) (extract_words content)"
    by (simp add: extract_words_lines [of content, symmetric] map_concat comp_def)
  ultimately show ?thesis by (simp add: emits_def file_records_def)
qed

text \<open>The combiner step on a family of parts keeps the keys and leaves one value for each.\<close>

lemma combine_split:
  assumes "is_split K idx n q" "\<And>k. k \<in> K \<Longrightarrow> sums_ok (values_of k (q (idx k)))"
  obtains q' where "map_result combine_part (map q [0..<n]) = Inr (map q' [0..<n])" "is_split K idx n q'"
    "\<And>k. k \<in> K \<Longrightarrow> values_of k (q' (idx k)) = [total64 (values_of k (q (idx k)))]"
proof
  let ?G = "\<lambda>k. [(k, total64 (values_of k (q (idx k))))]"
  define q' where "q' i = concat (map ?G (keys_of (q i)))" for i
  have q': "q' i = map (\<lambda>k. (k, total64 (values_of k (q (idx k))))) (keys_of (q i))" for i
    unfolding q'_def by (induction "keys_of (q i)") simp_all
  show "map_result combine_part (map q [0..<n]) = Inr (map q' [0..<n])"
    unfolding group_loops q'_def using for_groups_split [OF assms(1), where G = ?G] assms(2) by (simp add: sum_loop_total)
  have fin: "finite K" using assms(1) by (simp add: is_split_def)
  have keys: "set (keys_of (q i)) = {k \<in> K. idx k = i}" if "i < n" for i
    using assms(1) that by (simp add: is_split_def keys_of_def)
  then show "is_split K idx n q'"
    using assms(1) by (auto simp: is_split_def q' comp_def keys_of_def image_image)
  have vals: "values_of k (map (\<lambda>k. (k, v k)) ks) = (if k \<in> set ks then [v k] else [])" if "distinct ks" for k v ks
    using that by (induction ks) auto
  show "values_of k (q' (idx k)) = [total64 (values_of k (q (idx k)))]" if "k \<in> K" for k
    using that assms(1) keys [of "idx k"] by (simp add: q' vals keys_of_def is_split_def)
qed

lemma show_int64_nat: "n < 2 ^ 63 \<Longrightarrow> show_int64 (word_of_nat n) = show_nat n"
  by (simp add: show_int64_def show_int_def sint_of_nat)

lemma RunJob_counts:
  assumes "sorts sort_part" "0 < sint (num_reduce_tasks (jt_config jt))"
    and "fs (input_path (jt_config jt)) = Some content" "length content + 1 < 2 ^ 63"
    and "jt_mapper jt = Some WordCountMapper_Map" "jt_reducer jt = Some WordCountReducer_Reduce"
    and "can_write (output_path (jt_config jt))"
  shows "RunJob hash sort_part can_write jt fs = Inr ((True, jt\<lparr>jt_done := True\<rparr>),
    fs(output_path (jt_config jt) \<mapsto>
      concat (map (\<lambda>w. w @ [tab] @ show_nat (count_list (extract_words content) w) @ [nl])
        (sorted_list_of_set (set (extract_words content))))))"
proof -
  let ?n = "num_reduce_tasks (jt_config jt)" and ?ws = "extract_words content"
  let ?ps = "map (\<lambda>w. (w, 1 :: int64)) ?ws" and ?idx = "part_of hash ?n"
  let ?q = "\<lambda>i. sort_part (filter (\<lambda>p. ?idx (fst p) = i) ?ps)"
  let ?G = "\<lambda>w. [(w, word_of_nat (count_list ?ws w) :: int64)]"
  have count: "count_list ?ws w < 2 ^ 63" for w
    using count_le_length [of ?ws w] length_extract_words [of content] assms(4) by linarith
  have split: "is_split (set ?ws) ?idx (nat (sint ?n)) ?q"
    using is_split_sorted_parts [OF assms(1), of ?idx "nat (sint ?n)" ?ps] part_of_less [OF assms(2)] by (simp add: image_image)
  have vals: "values_of w (?q (?idx w)) = replicate (count_list ?ws w) 1" for w
    using mset_values_part [OF assms(1), of w ?idx ?ps] by (intro mset_replicate_eq) (simp add: values_of_words)
  have input: "readable (fs (input_path (jt_config jt)))" "emits WordCountMapper_Map (fs (input_path (jt_config jt))) = Inr ?ps"
    using assms(3,4) by (simp_all add: readable_def emits_words)
  obtain parts where parts: "(if jt_combiner jt \<noteq> None then map_result combine_part (map ?q [0..<nat (sint ?n)])
      else Inr (map ?q [0..<nat (sint ?n)])) = Inr parts"
    "\<exists>results. map_result (for_groups same_key WordCountReducer_Reduce) parts = Inr results
      \<and> sort_results (concat results) = sort_results (concat (map ?G (sorted_list_of_set (set ?ws))))"
  proof (cases "jt_combiner jt")
    case None
    then show thesis
      using that reduce_split [OF split, of WordCountReducer_Reduce ?G] wc_reduce.sums vals count replicate_ones by auto
  next
    case (Some c)
    obtain q' where q': "map_result combine_part (map ?q [0..<nat (sint ?n)]) = Inr (map q' [0..<nat (sint ?n)])"
      "is_split (set ?ws) ?idx (nat (sint ?n)) q'"
      "\<And>w. w \<in> set ?ws \<Longrightarrow> values_of w (q' (?idx w)) = [total64 (values_of w (?q (?idx w)))]"
      using combine_split [OF split] vals count replicate_ones by metis
    then show thesis
      using that [of "map q' [0..<nat (sint ?n)]"] Some reduce_split [OF q'(2), of WordCountReducer_Reduce ?G]
        wc_reduce.sums vals count replicate_ones by auto
  qed
  then obtain results where res: "map_result (reduce_part WordCountReducer_Reduce) parts = Inr results"
    "sort_results (concat results) = sort_results (concat (map ?G (sorted_list_of_set (set ?ws))))"
    unfolding group_loops by blast
  have single: "concat (map ?G xs) = map (\<lambda>w. (w, word_of_nat (count_list ?ws w))) xs" for xs
    by (induction xs) simp_all
  have "output_text (sort_results (concat results))
      = concat (map (\<lambda>w. w @ [tab] @ show_nat (count_list ?ws w) @ [nl]) (sorted_list_of_set (set ?ws)))"
    by (simp add: res(2) single sort_results_keys output_text_def comp_def show_int64_nat [OF count])
  then show ?thesis
    using RunJob_result [where hash = hash and sort_part = sort_part and jt = jt and fs = fs and can_write = can_write,
        OF assms(1,2) input(1) assms(5) input(2) assms(6,7) parts(1) res(1)] by simp
qed

text \<open>C5. Word count is right: for every hash function, every positive number of reducers, every \<open>std::sort\<close> and with
  any combiner or none, the job returns true and writes one line for each word of the input, in the
  order of the words, with the number of its occurrences.\<close>

theorem RunJob_wordcount:
  assumes "sorts sort_part" "0 < sint (num_reduce_tasks (jt_config jt))"
    and "fs (input_path (jt_config jt)) = Some content" "length content + 1 < 2 ^ 63"
    and "jt_mapper jt = Some WordCountMapper_Map" "jt_reducer jt = Some WordCountReducer_Reduce"
    and "can_write (output_path (jt_config jt))"
  shows "RunJob hash sort_part can_write jt fs = Inr ((True, jt\<lparr>jt_done := True\<rparr>),
    fs(output_path (jt_config jt) \<mapsto>
      concat (map (\<lambda>w. w @ [tab] @ show_nat (count_list (extract_words content) w) @ [nl])
        (sorted_list_of_set (set (extract_words content))))))"
  using assms by (rule RunJob_counts)

text \<open>Sorting by insertion is a possible \<open>std::sort\<close>.\<close>

lemma sorts_sort_key: "sorts (sort_key fst)"
proof (unfold sorts_def, intro allI conjI)
  fix part :: "pair list"
  have "sorted (map fst (sort_key fst part))" by simp
  then show "sorted_wrt (\<lambda>a b. \<not> Writable_less (UTF8 (fst b)) (UTF8 (fst a)) = Inr True) (sort_key fst part)"
    by (simp only: sorted_map Writable_less_string not_less)
qed simp

definition sample_job :: JobTracker where
  "sample_job = snd (SubmitJob \<lparr>input_path = ''in'', output_path = ''out'', mapper_class = [], reducer_class = [],
       num_map_tasks = 1, num_reduce_tasks = 3\<rparr>
     (Some WordCountMapper_Map) (Some WordCountReducer_Reduce) (Some WordCountCombiner_Combine) JobTracker_new)"

lemma sample_job_simps [simp]:
  "jt_config sample_job = \<lparr>input_path = ''in'', output_path = ''out'', mapper_class = [], reducer_class = [],
     num_map_tasks = 1, num_reduce_tasks = 3\<rparr>"
  "jt_mapper sample_job = Some WordCountMapper_Map" "jt_reducer sample_job = Some WordCountReducer_Reduce"
  "jt_combiner sample_job = Some WordCountCombiner_Combine"
  by (simp_all add: sample_job_def SubmitJob_def)

theorem RunJob_wordcount_witness:
  "RunJob (\<lambda>s. word_of_nat (length s)) (sort_key fst) (\<lambda>_. True) sample_job [''in'' \<mapsto> ''b a b'']
    = Inr ((True, sample_job\<lparr>jt_done := True\<rparr>), [''in'' \<mapsto> ''b a b'', ''out'' \<mapsto>
        concat (map (\<lambda>w. w @ [tab] @ show_nat (count_list (extract_words ''b a b'') w) @ [nl])
          (sorted_list_of_set (set (extract_words ''b a b''))))])"
  using RunJob_wordcount [OF sorts_sort_key, of sample_job "[''in'' \<mapsto> ''b a b'']" "''b a b''" "\<lambda>_. True"] by simp

theorem RunJob_groups_witness:
  "RunJob (\<lambda>s. 7) (sort_key fst) (\<lambda>_. True) (sample_job\<lparr>jt_combiner := None, jt_reducer := Some (\<lambda>k vs. Inr [(k, word_of_nat (length vs))])\<rparr>)
      [''in'' \<mapsto> ''x'']
    = Inr ((True, sample_job\<lparr>jt_combiner := None, jt_reducer := Some (\<lambda>k vs. Inr [(k, word_of_nat (length vs))]), jt_done := True\<rparr>),
        [''in'' \<mapsto> ''x'', ''out'' \<mapsto> output_text (sort_results [(''x'', 1)])])"
proof -
  have e: "extract_words ''x'' = [''x'']"
    by (simp add: extract_words.simps [of "''x''"] extract_words.simps [of "[]"] extract_word_def isspace_def)
  have "mset vs = {#1#} \<Longrightarrow> length vs = 1" for vs :: "int64 list" by (metis size_mset size_single)
  then show ?thesis
    using RunJob_groups [OF sorts_sort_key, of "sample_job\<lparr>jt_combiner := None, jt_reducer := Some (\<lambda>k vs. Inr [(k, word_of_nat (length vs))])\<rparr>"
        "[''in'' \<mapsto> ''x'']" WordCountMapper_Map "[(''x'', 1)]" "\<lambda>k vs. Inr [(k, word_of_nat (length vs))]" "\<lambda>_. True" "\<lambda>k. [(k, 1)]"]
    by (simp add: readable_def emits_words e)
qed

lemma RunJob_missing_input:
  assumes "jt_mapper jt = Some mapper" "jt_reducer jt = Some reducer" "0 \<le> sint (num_reduce_tasks (jt_config jt))"
    "sorts sort_part" "fs (input_path (jt_config jt)) = None" "can_write (output_path (jt_config jt))"
  shows "RunJob hash sort_part can_write jt fs
    = Inr ((True, jt\<lparr>jt_done := True\<rparr>), fs(output_path (jt_config jt) \<mapsto> []))"
proof -
  let ?n = "num_reduce_tasks (jt_config jt)"
  let ?e = "replicate (nat (sint ?n)) []"
  obtain r where "Text_Next (TextRecordReader_new None) = Inr (None, r)"
    using Text_Next_end [of "TextRecordReader_new None"] by (auto simp: TextRecordReader_new_def open_in_def)
  then have r: "for_records (map_record hash ?n mapper) (TextRecordReader_new None) ?e = Inr (?e, r)"
    by (subst for_records.simps) simp
  have m: "sort_part [] = []" using sortsD(1) [OF assms(4), of "[]"] by simp
  have g: "map_result combine_part ?e = Inr ?e" "map_result (reduce_part reducer) ?e = Inr ?e"
    by (simp_all add: group_loops for_groups_empty)
  show ?thesis
    using assms r m g
    by (cases "jt_combiner jt") (simp_all add: RunJob_def Let_def sort_results_def output_text_def del: fun_upd_apply)
qed



text \<open>The user's combiner is never called: which one is set makes no difference.\<close>

lemma combiner_never_called:
  assumes "jt_combiner jt = Some c"
  shows "(case RunJob hash sp cw (jt\<lparr>jt_combiner := Some d\<rparr>) fs of Inl e \<Rightarrow> Inl e | Inr (_, fs1) \<Rightarrow> Inr fs1)
    = (case RunJob hash sp cw jt fs of Inl e \<Rightarrow> Inl e | Inr (_, fs1) \<Rightarrow> Inr fs1)"
  using assms by (simp add: RunJob_def Let_def split: option.split sum.split prod.split)

end
