(* ===== verification/DistJobTracker.thy ===== *)
theory DistJobTracker
  imports Rpc "HOL-Library.Sublist"
begin

text \<open>
  Model of \<^verbatim>\<open>src/mapred/dist_job_tracker.h\<close>: the job tracker of the distributed mode. Its three request handlers
  are state transformers; each is one step (the second and third hold the tracker's mutex; the first
  does not, see the findings). The functions \<open>DistSubmitJob\<close>, \<open>PollForTask\<close> and \<open>TaskCompleted\<close> are the bodies of the
  handlers after the request is read; \<open>WriteTask\<close> is what the second one writes.

  A run of the tracker is a sequence of events: polls with their answers and reports of completed tasks,
  from any trackers, in any order and with any contents. The property says in which order tasks are
  handed out.
\<close>

section \<open>State\<close>

record MapOutputLocation =
  ml_task_id :: string
  ml_host :: string
  ml_port :: int32
  ml_partition :: int32

datatype TaskType = kMap | kReduce

definition type_id :: "TaskType \<Rightarrow> int32" where
  "type_id t = (case t of kMap \<Rightarrow> 0 | kReduce \<Rightarrow> 1)"

record Task =
  t_task_id :: string
  t_job_id :: string
  t_type :: TaskType
  t_partition :: int32
  t_input_path :: string
  t_output_path :: string
  t_map_outputs :: "MapOutputLocation list"
  t_is_speculative :: bool

datatype JobState = kPending | kRunning | kSucceeded | kFailed

record DistJobTracker =
  dj_job_id :: string
  dj_input_path :: string
  dj_output_path :: string
  dj_num_maps :: int32
  dj_num_reduces :: int32
  dj_maps_completed :: int32
  dj_reduces_completed :: int32
  dj_pending_reduces_created :: int32
  dj_pending_maps :: "Task list"
  dj_pending_reduces :: "Task list"
  dj_map_output_locations :: "MapOutputLocation list"
  dj_job_state :: JobState
  dj_job_done :: bool

definition DistJobTracker_new :: DistJobTracker where
  "DistJobTracker_new = \<lparr>dj_job_id = [], dj_input_path = [], dj_output_path = [], dj_num_maps = 0, dj_num_reduces = 0,
     dj_maps_completed = 0, dj_reduces_completed = 0, dj_pending_reduces_created = 0, dj_pending_maps = [],
     dj_pending_reduces = [], dj_map_output_locations = [], dj_job_state = kPending, dj_job_done = False\<rparr>"

section \<open>SubmitJob\<close>

definition map_task :: "string \<Rightarrow> string \<Rightarrow> nat \<Rightarrow> Task" where
  "map_task job input i = \<lparr>t_task_id = job @ ''_m_'' @ show_nat i, t_job_id = job, t_type = kMap, t_partition = word_of_nat i,
     t_input_path = input, t_output_path = [], t_map_outputs = [], t_is_speculative = False\<rparr>"

definition DistSubmitJob :: "string \<Rightarrow> string \<Rightarrow> int32 \<Rightarrow> int32 \<Rightarrow> DistJobTracker \<Rightarrow> DistJobTracker" where
  "DistSubmitJob input output num_maps num_reduces s =
     (let s1 = s\<lparr>dj_job_id := ''job_001'', dj_input_path := input, dj_output_path := output, dj_num_maps := num_maps,
            dj_num_reduces := num_reduces, dj_maps_completed := 0, dj_reduces_completed := 0, dj_job_state := kRunning\<rparr>
      in s1\<lparr>dj_pending_maps := dj_pending_maps s1 @ map (map_task (dj_job_id s1) input) [0..<loop_count num_maps]\<rparr>)"

section \<open>PollForTask\<close>

definition PollForTask :: "DistJobTracker \<Rightarrow> Task option \<times> DistJobTracker" where
  "PollForTask s =
     (if dj_pending_maps s \<noteq> []
      then (Some (last (dj_pending_maps s)), s\<lparr>dj_pending_maps := butlast (dj_pending_maps s)\<rparr>)
      else
        let s1 = (if sint (dj_num_maps s) \<le> sint (dj_maps_completed s) \<and> sint (dj_pending_reduces_created s) < sint (dj_num_reduces s)
                  then let r = dj_pending_reduces_created s;
                           t = \<lparr>t_task_id = dj_job_id s @ ''_r_'' @ show_int (sint r), t_job_id = dj_job_id s, t_type = kReduce,
                                t_partition = r, t_input_path = [], t_output_path = dj_output_path s,
                                t_map_outputs = dj_map_output_locations s, t_is_speculative = False\<rparr>
                       in s\<lparr>dj_pending_reduces_created := r + 1, dj_pending_reduces := dj_pending_reduces s @ [t]\<rparr>
                  else s)
        in if dj_pending_reduces s1 \<noteq> []
           then (Some (last (dj_pending_reduces s1)), s1\<lparr>dj_pending_reduces := butlast (dj_pending_reduces s1)\<rparr>)
           else (None,
             if sint (dj_num_maps s1) \<le> sint (dj_maps_completed s1) \<and> sint (dj_num_reduces s1) \<le> sint (dj_reduces_completed s1)
             then s1\<lparr>dj_job_state := kSucceeded, dj_job_done := True\<rparr> else s1))"

definition WriteLocation :: "MapOutputLocation \<Rightarrow> OutputBuffer \<Rightarrow> OutputBuffer" where
  "WriteLocation loc resp =
     WriteInt (ml_partition loc) (WriteInt (ml_port loc) (WriteString (ml_host loc) (WriteString (ml_task_id loc) resp)))"

text \<open>The fields of a task as the handler writes them; the last field of a map task is written as an empty string.\<close>

definition WriteTask :: "Task option \<Rightarrow> OutputBuffer \<Rightarrow> OutputBuffer" where
  "WriteTask task resp =
     (case task of
        None \<Rightarrow> WriteInt 0 resp
      | Some t \<Rightarrow>
          let resp1 = WriteInt (t_partition t) (WriteInt (type_id (t_type t)) (WriteString (t_task_id t) (WriteInt 1 resp)))
          in if t_type t = kMap
             then WriteString [] (WriteString [] (WriteString (t_input_path t) resp1))
             else fold WriteLocation (t_map_outputs t)
                    (WriteInt (word_of_nat (length (t_map_outputs t))) (WriteString (t_output_path t) (WriteString [] resp1))))"

section \<open>TaskCompleted\<close>

text \<open>A report: the task, and for a map task the number of its partitions and the address of its tracker.\<close>

datatype report = MapDone string int32 string int32 | ReduceDone string

definition TaskCompleted :: "report \<Rightarrow> DistJobTracker \<Rightarrow> DistJobTracker" where
  "TaskCompleted rep s =
     (case rep of
        MapDone tid num_parts hst port \<Rightarrow>
          s\<lparr>dj_map_output_locations := dj_map_output_locations s @
              map (\<lambda>i. \<lparr>ml_task_id = tid, ml_host = hst, ml_port = port, ml_partition = word_of_nat i\<rparr>) [0..<loop_count num_parts],
            dj_maps_completed := dj_maps_completed s + 1\<rparr>
      | ReduceDone tid \<Rightarrow> s\<lparr>dj_reduces_completed := dj_reduces_completed s + 1\<rparr>)"

section \<open>Handlers\<close>

definition req_SubmitJob :: "(string \<times> string \<times> int32 \<times> int32) reader" where
  "req_SubmitJob = bindr ReadString (\<lambda>input. bindr ReadString (\<lambda>output. bindr ReadInt (\<lambda>num_maps. bindr ReadInt (\<lambda>num_reduces.
     returnr (input, output, num_maps, num_reduces)))))"

definition on_SubmitJob :: "DistJobTracker handler" where
  "on_SubmitJob = handle req_SubmitJob (\<lambda>(input, output, num_maps, num_reduces) resp s.
     (WriteInt 1 resp, DistSubmitJob input output num_maps num_reduces s))"

definition req_Poll :: "(string \<times> int32) reader" where
  "req_Poll = bindr ReadString (\<lambda>tracker_host. bindr ReadInt (\<lambda>tracker_port. returnr (tracker_host, tracker_port)))"

definition on_PollForTask :: "DistJobTracker handler" where
  "on_PollForTask = handle req_Poll (\<lambda>_ resp s. let (task, s1) = PollForTask s in (WriteTask task resp, s1))"

definition req_TaskCompleted :: "report reader" where
  "req_TaskCompleted = bindr ReadString (\<lambda>tid. bindr ReadInt (\<lambda>ty.
     if ty = type_id kMap
     then bindr ReadInt (\<lambda>num_parts. bindr ReadString (\<lambda>hst. bindr ReadInt (\<lambda>port. returnr (MapDone tid num_parts hst port))))
     else returnr (ReduceDone tid)))"

definition on_TaskCompleted :: "DistJobTracker handler" where
  "on_TaskCompleted = handle req_TaskCompleted (\<lambda>rep resp s. (WriteInt 1 resp, TaskCompleted rep s))"

definition dist_handlers :: "DistJobTracker handlers" where
  "dist_handlers = RegisterHandler 2 on_TaskCompleted (RegisterHandler 1 on_PollForTask (RegisterHandler 0 on_SubmitJob []))"

section \<open>The handlers on well-formed requests\<close>

lemma dist_handlers_get [simp]:
  "um_get dist_handlers 0 = Some on_SubmitJob" "um_get dist_handlers 1 = Some on_PollForTask"
  "um_get dist_handlers 2 = Some on_TaskCompleted"
  by (simp_all add: dist_handlers_def RegisterHandler_def)

lemma reads_req_SubmitJob:
  "fits_int32 input \<Longrightarrow> fits_int32 output \<Longrightarrow>
   reads req_SubmitJob (enc_string input @ enc_string output @ enc_int m @ enc_int r) (input, output, m, r)"
  unfolding req_SubmitJob_def
  by - (rule reads_bind reads_bind_return codec_intros | simp)+

lemma reads_req_Poll: "fits_int32 hst \<Longrightarrow> reads req_Poll (enc_string hst @ enc_int port) (hst, port)"
  unfolding req_Poll_def
  by - (rule reads_bind reads_bind_return codec_intros | simp)+

fun enc_report :: "report \<Rightarrow> byte list" where
  "enc_report (MapDone tid n hst port) = enc_string tid @ enc_int (type_id kMap) @ enc_int n @ enc_string hst @ enc_int port"
| "enc_report (ReduceDone tid) = enc_string tid @ enc_int (type_id kReduce)"

fun report_ok :: "report \<Rightarrow> bool" where
  "report_ok (MapDone tid n hst port) = (fits_int32 tid \<and> fits_int32 hst)"
| "report_ok (ReduceDone tid) = fits_int32 tid"

lemma type_id_simps [simp]: "type_id kMap = 0" "type_id kReduce = 1"
  by (simp_all add: type_id_def)

lemma reads_req_TaskCompleted: "report_ok rep \<Longrightarrow> reads req_TaskCompleted (enc_report rep) rep"
proof (cases rep)
  case (MapDone tid n hst port)
  assume "report_ok rep"
  moreover have "reads (bindr ReadInt (\<lambda>n. bindr ReadString (\<lambda>hst. bindr ReadInt (\<lambda>port. returnr (MapDone tid n hst port)))))
      (enc_int n @ enc_string hst @ enc_int port) (MapDone tid n hst port)" if "fits_int32 hst"
    using that by - (rule reads_bind reads_bind_return codec_intros | simp)+
  ultimately show ?thesis
    unfolding req_TaskCompleted_def MapDone enc_report.simps
    by - (rule reads_bind codec_intros | simp)+
next
  case (ReduceDone tid)
  assume "report_ok rep"
  moreover have "reads (bindr ReadInt (\<lambda>ty. if ty = type_id kMap then R else returnr (ReduceDone tid)))
      (enc_int (type_id kReduce) @ []) (ReduceDone tid)" for R
    by (rule reads_bind [OF basic_reads(1)]) (simp add: reads_return)
  ultimately show ?thesis
    unfolding req_TaskCompleted_def ReduceDone enc_report.simps
    by - (rule reads_bind codec_intros | simp)+
qed

section \<open>Runs\<close>

datatype dist_event = Polled "Task option" | Reported report

inductive dist_run :: "DistJobTracker \<Rightarrow> dist_event list \<Rightarrow> DistJobTracker \<Rightarrow> bool" where
  dist_start: "dist_run s [] s"
| dist_poll: "dist_run s es t \<Longrightarrow> PollForTask t = (task, u) \<Longrightarrow> dist_run s (es @ [Polled task]) u"
| dist_report: "dist_run s es t \<Longrightarrow> dist_run s (es @ [Reported rep]) (TaskCompleted rep t)"

fun assigned :: "dist_event list \<Rightarrow> Task list" where
  "assigned [] = []"
| "assigned (Polled (Some t) # es) = t # assigned es"
| "assigned (e # es) = assigned es"

fun map_reports :: "dist_event list \<Rightarrow> nat" where
  "map_reports [] = 0"
| "map_reports (Reported (MapDone tid n hst port) # es) = Suc (map_reports es)"
| "map_reports (e # es) = map_reports es"

fun reduce_reports :: "dist_event list \<Rightarrow> nat" where
  "reduce_reports [] = 0"
| "reduce_reports (Reported (ReduceDone tid) # es) = Suc (reduce_reports es)"
| "reduce_reports (e # es) = reduce_reports es"

lemma assigned_append [simp]: "assigned (es @ fs) = assigned es @ assigned fs"
  by (induction es rule: assigned.induct) simp_all

lemma map_reports_append [simp]: "map_reports (es @ fs) = map_reports es + map_reports fs"
  by (induction es rule: map_reports.induct) simp_all

lemma reduce_reports_append [simp]: "reduce_reports (es @ fs) = reduce_reports es + reduce_reports fs"
  by (induction es rule: reduce_reports.induct) simp_all

definition task_key :: "Task \<Rightarrow> string \<times> TaskType \<times> int32" where
  "task_key t = (t_task_id t, t_type t, t_partition t)"

text \<open>The order in which the tasks of a job are handed out: the map tasks from the last to the first, then the
  reduce tasks.\<close>

definition task_plan :: "string \<Rightarrow> nat \<Rightarrow> nat \<Rightarrow> (string \<times> TaskType \<times> int32) list" where
  "task_plan job m r = map (\<lambda>i. (job @ ''_m_'' @ show_nat i, kMap, word_of_nat i)) (rev [0..<m])
     @ map (\<lambda>i. (job @ ''_r_'' @ show_nat i, kReduce, word_of_nat i)) [0..<r]"

lemma length_task_plan [simp]: "length (task_plan job m r) = m + r"
  by (simp add: task_plan_def)

lemma task_plan_nth:
  "k < m \<Longrightarrow> task_plan job m r ! k = (job @ ''_m_'' @ show_nat (m - Suc k), kMap, word_of_nat (m - Suc k))"
  "i < r \<Longrightarrow> task_plan job m r ! (m + i) = (job @ ''_r_'' @ show_nat i, kReduce, word_of_nat i)"
  by (simp_all add: task_plan_def nth_append rev_nth)

lemma show_nat_inj: "show_nat a = show_nat b \<longleftrightarrow> a = b"
  by (metis digits_value_show_nat)

lemma distinct_task_plan: "distinct (map fst (task_plan job m r))"
  by (auto simp: task_plan_def distinct_map comp_def inj_on_def show_nat_inj)

text \<open>What holds after the events \<open>es\<close> of a run that starts with the submission of a job of \<open>m\<close> map and \<open>r\<close>
  reduce tasks: how far the plan has been followed, what is still pending, and what the counters say.\<close>

definition dist_inv :: "string \<Rightarrow> int32 \<Rightarrow> int32 \<Rightarrow> dist_event list \<Rightarrow> DistJobTracker \<Rightarrow> bool" where
  "dist_inv input m r es s \<longleftrightarrow>
     (let M = nat (sint m); R = nat (sint r); k = length (assigned es)
      in dj_num_maps s = m \<and> dj_num_reduces s = r \<and> dj_job_id s = ''job_001'' \<and> dj_pending_reduces s = []
       \<and> dj_maps_completed s = word_of_nat (map_reports es) \<and> dj_reduces_completed s = word_of_nat (reduce_reports es)
       \<and> dj_pending_maps s = map (map_task ''job_001'' input) [0..<M - k]
       \<and> dj_pending_reduces_created s = word_of_nat (k - M) \<and> k \<le> M + R
       \<and> map task_key (assigned es) = take k (task_plan ''job_001'' M R)
       \<and> (dj_job_done s \<longrightarrow> M \<le> map_reports es \<and> R \<le> reduce_reports es))"

lemma dist_inv_submit:
  "0 \<le> sint m \<Longrightarrow> dist_inv input m r [] (DistSubmitJob input output m r DistJobTracker_new)"
  by (simp add: dist_inv_def DistSubmitJob_def DistJobTracker_new_def loop_count_def Let_def)

lemma dist_inv_report:
  "dist_inv input m r es s \<Longrightarrow> dist_inv input m r (es @ [Reported rep]) (TaskCompleted rep s)"
  by (cases rep) (auto simp: dist_inv_def TaskCompleted_def Let_def)

lemma map_task_type: "t_type (map_task job input i) = kMap"
  by (simp add: map_task_def)

lemma reports_le: "map_reports es + reduce_reports es \<le> length es"
proof (induction es)
  case (Cons e es)
  then show ?case
  proof (cases e)
    case (Reported rep)
    then show ?thesis using Cons by (cases rep) simp_all
  qed simp
qed simp

lemma sint_count: "n < 2 ^ 31 \<Longrightarrow> sint (word_of_nat n :: int32) = int n"
  by (intro sint_of_nat) simp

text \<open>What a poll answers: with \<open>k\<close> tasks handed out before, the next task of the plan, unless the reduce tasks have to
  wait for map reports or the plan is finished.\<close>

lemma poll_step:
  assumes inv: "dist_inv input m r es s" and bounds: "0 \<le> sint m" "0 \<le> sint r" "length es < 2 ^ 31"
    and poll: "PollForTask s = (task, u)"
  defines "k \<equiv> length (assigned es)" and "M \<equiv> nat (sint m)" and "R \<equiv> nat (sint r)"
  shows "dist_inv input m r (es @ [Polled task]) u
    \<and> (case task of None \<Rightarrow> M \<le> k \<and> (map_reports es < M \<or> k = M + R) | Some t \<Rightarrow> t_type t = kReduce \<longrightarrow> M \<le> map_reports es)"
proof -
  note I = inv [unfolded dist_inv_def Let_def, folded M_def R_def k_def]
  have R: "R < 2 ^ 31" using sint_less [of r] by (simp add: R_def)
  have cnt: "sint (dj_maps_completed s) = int (map_reports es)" "sint (dj_reduces_completed s) = int (reduce_reports es)"
    using I reports_le [of es] bounds(3) by (simp_all add: sint_count)
  have mr: "sint m = int M" "sint r = int R" using bounds by (simp_all add: M_def R_def)
  have "k - M < 2 ^ 31" using I R by linarith
  then have created: "sint (dj_pending_reduces_created s) = int (k - M)" using I sint_count by simp
  consider (maps) "k < M" | (reduces) "M \<le> k" "M \<le> map_reports es" "k < M + R"
    | (wait) "M \<le> k" "map_reports es < M \<or> k = M + R"
    using I by linarith
  then show ?thesis
  proof cases
    case maps
    then obtain j where j: "M - k = Suc j" by (metis Suc_diff_Suc)
    then have t: "task = Some (map_task ''job_001'' input j)" "u = s\<lparr>dj_pending_maps := map (map_task ''job_001'' input) [0..<j]\<rparr>"
      using poll I by (auto simp: PollForTask_def)
    have j': "M - Suc k = j" "Suc k - M = k - M" using j maps by simp_all
    then have "take (Suc k) (task_plan ''job_001'' M R) = take k (task_plan ''job_001'' M R) @ [task_key (map_task ''job_001'' input j)]"
      using maps by (simp add: take_Suc_conv_app_nth task_plan_nth(1) task_key_def map_task_def)
    then show ?thesis
      using I maps t j' by (simp add: dist_inv_def Let_def M_def [symmetric] R_def [symmetric] k_def [symmetric] map_task_type)
  next
    case reduces
    then obtain i where i: "k = M + i" "i < R" by (metis add_less_cancel_left le_Suc_ex)
    let ?t = "\<lparr>t_task_id = ''job_001'' @ ''_r_'' @ show_nat i, t_job_id = ''job_001'', t_type = kReduce, t_partition = word_of_nat i,
      t_input_path = [], t_output_path = dj_output_path s, t_map_outputs = dj_map_output_locations s, t_is_speculative = False\<rparr>"
    have now: "dj_pending_maps s = []" "dj_pending_reduces s = []" "dj_job_id s = ''job_001''" "dj_pending_reduces_created s = word_of_nat i"
      "sint (dj_num_maps s) \<le> sint (dj_maps_completed s)" "sint (word_of_nat i :: int32) = int i" "int i < sint (dj_num_reduces s)"
      using I reduces i cnt created mr by simp_all
    have t: "task = Some ?t" "u = s\<lparr>dj_pending_reduces_created := word_of_nat (Suc i), dj_pending_reduces := []\<rparr>"
      using poll now by (simp_all add: PollForTask_def Let_def show_int_def add.commute)
    have "take (Suc k) (task_plan ''job_001'' M R) = take k (task_plan ''job_001'' M R) @ [task_key ?t]"
      using reduces i by (simp add: take_Suc_conv_app_nth task_plan_nth(2) task_key_def)
    then show ?thesis
      using I reduces i t by (auto simp: dist_inv_def Let_def M_def [symmetric] R_def [symmetric] k_def [symmetric])
  next
    case wait
    then have "task = None" "u = (if M \<le> map_reports es \<and> R \<le> reduce_reports es then s\<lparr>dj_job_state := kSucceeded, dj_job_done := True\<rparr> else s)"
      using poll I cnt created mr by (auto simp: PollForTask_def split: if_splits)
    then show ?thesis
      using I wait by (auto simp: dist_inv_def Let_def M_def [symmetric] R_def [symmetric] k_def [symmetric])
  qed
qed

lemma poll_finishes:
  assumes inv: "dist_inv input m r es s" and bounds: "0 \<le> sint m" "0 \<le> sint r" "length es < 2 ^ 31"
    and out: "length (assigned es) = nat (sint m) + nat (sint r)"
    and reports: "nat (sint m) \<le> map_reports es" "nat (sint r) \<le> reduce_reports es"
  shows "fst (PollForTask s) = None \<and> dj_job_done (snd (PollForTask s))"
proof -
  have "nat (sint r) < 2 ^ 31" using sint_less [of r] by simp
  then have "sint (dj_pending_reduces_created s) = sint (dj_num_reduces s)"
    using inv out bounds(2) by (simp add: dist_inv_def Let_def sint_count)
  moreover have "sint (dj_num_maps s) \<le> sint (dj_maps_completed s)" "sint (dj_num_reduces s) \<le> sint (dj_reduces_completed s)"
    using inv reports reports_le [of es] bounds(3) by (simp_all add: dist_inv_def Let_def sint_count)
  ultimately show ?thesis using inv out by (simp add: PollForTask_def dist_inv_def Let_def)
qed

text \<open>The other fields of a task that a poll hands out.\<close>

lemma poll_fields:
  assumes "PollForTask s = (task, u)" "dj_pending_reduces s = []"
  shows "dj_output_path u = dj_output_path s \<and> dj_map_output_locations u = dj_map_output_locations s
    \<and> (\<forall>t. task = Some t \<longrightarrow> t \<in> set (dj_pending_maps s)
         \<or> (t_type t = kReduce \<and> t_input_path t = [] \<and> t_output_path t = dj_output_path s \<and> t_map_outputs t = dj_map_output_locations s))"
  using assms by (auto simp: PollForTask_def Let_def split: if_splits)

lemma dist_run_inv:
  assumes "dist_run (DistSubmitJob input output m r DistJobTracker_new) es s" "0 \<le> sint m" "0 \<le> sint r" "length es < 2 ^ 31"
  shows "dist_inv input m r es s"
  using assms
proof (induction "DistSubmitJob input output m r DistJobTracker_new" es s rule: dist_run.induct)
  case dist_start
  then show ?case by (simp add: dist_inv_submit)
next
  case (dist_poll es t task u)
  then show ?case using poll_step [of input m r es t task u] by simp
next
  case (dist_report es t rep)
  then show ?case by (simp add: dist_inv_report)
qed

lemma dist_poll_next: "dist_run s es t \<Longrightarrow> dist_run s (es @ [Polled (fst (PollForTask t))]) (snd (PollForTask t))"
  by (rule dist_poll) simp_all

inductive_cases dist_run_snocE: "dist_run s (es @ [e]) u"

lemma dist_run_prefix: "dist_run s (pre @ post) u \<Longrightarrow> \<exists>t. dist_run s pre t"
proof (induction post arbitrary: u rule: rev_induct)
  case (snoc e post)
  then have "dist_run s ((pre @ post) @ [e]) u" by simp
  then obtain t where "dist_run s (pre @ post) t" by (rule dist_run_snocE) blast+
  then show ?case using snoc.IH by blast
qed auto

lemma dist_run_poll:
  assumes "dist_run s (pre @ Polled task # post) u"
  obtains t v where "dist_run s pre t" "PollForTask t = (task, v)"
proof -
  have "dist_run s ((pre @ [Polled task]) @ post) u" using assms by simp
  then obtain v where "dist_run s (pre @ [Polled task]) v" using dist_run_prefix by blast
  then show ?thesis using that by (auto elim: dist_run_snocE)
qed

text \<open>C12. Order of the distributed job: after a job of \<open>m\<close> map and \<open>r\<close> reduce tasks is submitted to a fresh tracker, whatever
  trackers poll and report (fewer than \<open>2^31\<close> messages), the tasks handed out follow the plan (the map
  tasks from the last to the first, then the reduce tasks in order), none is handed out twice, a reduce
  task is handed out only after at least \<open>m\<close> reports of map tasks, a poll is turned away only if all
  map tasks are out and reports are missing or everything is out, and the job is marked as done only
  after \<open>m\<close> map and \<open>r\<close> reduce reports.\<close>

theorem dist_job_order:
  assumes "dist_run (DistSubmitJob input output m r DistJobTracker_new) es s" "0 \<le> sint m" "0 \<le> sint r" "length es < 2 ^ 31"
  shows "prefix (map task_key (assigned es)) (task_plan ''job_001'' (nat (sint m)) (nat (sint r)))
    \<and> distinct (map t_task_id (assigned es))
    \<and> (\<forall>pre t post. es = pre @ Polled (Some t) # post \<longrightarrow> t_type t = kReduce \<longrightarrow> nat (sint m) \<le> map_reports pre)
    \<and> (\<forall>pre post. es = pre @ Polled None # post \<longrightarrow> nat (sint m) \<le> length (assigned pre)
         \<and> (map_reports pre < nat (sint m) \<or> length (assigned pre) = nat (sint m) + nat (sint r)))
    \<and> (dj_job_done s \<longrightarrow> nat (sint m) \<le> map_reports es \<and> nat (sint r) \<le> reduce_reports es)"
proof -
  let ?plan = "task_plan ''job_001'' (nat (sint m)) (nat (sint r))"
  have inv: "dist_inv input m r es s" using dist_run_inv [OF assms] .
  then have pre: "prefix (map task_key (assigned es)) ?plan" and fin: "dj_job_done s \<longrightarrow> nat (sint m) \<le> map_reports es \<and> nat (sint r) \<le> reduce_reports es"
    by (simp_all add: dist_inv_def Let_def take_is_prefix)
  have "distinct (map fst (map task_key (assigned es)))"
    using pre distinct_task_plan by (metis distinct_append map_append prefixE)
  then have "distinct (map t_task_id (assigned es))" by (simp add: comp_def task_key_def)
  moreover have polls: "case task of None \<Rightarrow> nat (sint m) \<le> length (assigned q) \<and> (map_reports q < nat (sint m) \<or> length (assigned q) = nat (sint m) + nat (sint r))
      | Some t \<Rightarrow> t_type t = kReduce \<longrightarrow> nat (sint m) \<le> map_reports q" if es: "es = q @ Polled task # post" for q task post
  proof -
    obtain t v where "dist_run (DistSubmitJob input output m r DistJobTracker_new) q t" "PollForTask t = (task, v)"
      using assms(1) es by (metis dist_run_poll)
    moreover have "length q < 2 ^ 31" using assms(4) es by simp
    ultimately show ?thesis using dist_run_inv poll_step assms(2,3) by blast
  qed
  have "nat (sint m) \<le> map_reports q" if "es = q @ Polled (Some t) # post" "t_type t = kReduce" for q t post
    using polls [OF that(1)] that(2) by simp
  moreover have "nat (sint m) \<le> length (assigned q) \<and> (map_reports q < nat (sint m) \<or> length (assigned q) = nat (sint m) + nat (sint r))"
    if "es = q @ Polled None # post" for q post
    using polls [OF that] by simp
  ultimately show ?thesis using pre fin by blast
qed

theorem dist_job_order_witness:
  "\<exists>es s. dist_run (DistSubmitJob ''in'' ''out'' 1 1 DistJobTracker_new) es s
    \<and> prefix (map task_key (assigned es)) (task_plan ''job_001'' 1 1) \<and> dj_job_done s"
proof -
  let ?s0 = "DistSubmitJob ''in'' ''out'' 1 1 DistJobTracker_new"
  let ?s1 = "snd (PollForTask ?s0)" and ?m = "MapDone ''job_001_m_0'' 1 ''h'' 9"
  let ?s2 = "TaskCompleted ?m ?s1"
  let ?s3 = "snd (PollForTask ?s2)"
  let ?s4 = "TaskCompleted (ReduceDone ''job_001_r_0'') ?s3"
  let ?es = "((([] @ [Polled (fst (PollForTask ?s0))]) @ [Reported ?m]) @ [Polled (fst (PollForTask ?s2))]) @ [Reported (ReduceDone ''job_001_r_0'')]"
  have run: "dist_run ?s0 (?es @ [Polled (fst (PollForTask ?s4))]) (snd (PollForTask ?s4))"
    by (intro dist_poll_next dist_report dist_start)
  have "dj_job_done (snd (PollForTask ?s4))"
    by (simp add: PollForTask_def TaskCompleted_def DistSubmitJob_def DistJobTracker_new_def loop_count_def)
  moreover have "prefix (map task_key (assigned (?es @ [Polled (fst (PollForTask ?s4))]))) (task_plan ''job_001'' (nat (sint (1 :: int32))) (nat (sint (1 :: int32))))"
    by (rule dist_job_order [OF run, THEN conjunct1]) simp_all
  ultimately show ?thesis using run by (intro exI conjI) (assumption | simp)+
qed

end
