(* ===== verification/TaskTracker.thy ===== *)
theory TaskTracker
  imports JobTracker DistJobTracker RpcExchange
begin

text \<open>
  Model of \<^verbatim>\<open>src/mapred/task_tracker.h\<close>: the answer of a poll as the tracker reads it, the execution of map and reduce
  tasks, the shuffle server, and the report of a completed task.

  The mapper and the reducer are those that the factories of the tracker create. The outputs of the
  map tasks (a \<open>std::map\<close> that is only searched and counted) are a table from task and partition to pairs.
  What is behind the sockets of a reduce task is its argument \<open>dial\<close>: the status and the response of one
  call to the shuffle server of an address, or \<open>None\<close> if the connection fails.
\<close>

section \<open>State\<close>

record TaskTracker =
  tt_host :: string
  tt_shuffle_port :: int32
  tt_mapper :: mapper
  tt_reducer :: reducer
  tt_map_outputs :: "(string \<times> int32, pair list) umap"

definition TaskTracker_new :: "string \<Rightarrow> int32 \<Rightarrow> mapper \<Rightarrow> reducer \<Rightarrow> TaskTracker" where
  "TaskTracker_new hst port mf rf = \<lparr>tt_host = hst, tt_shuffle_port = port, tt_mapper = mf, tt_reducer = rf, tt_map_outputs = []\<rparr>"

section \<open>Shuffle server\<close>

definition WritePair :: "pair \<Rightarrow> OutputBuffer \<Rightarrow> OutputBuffer" where
  "WritePair kv resp = WriteLong (snd kv) (WriteString (fst kv) resp)"

definition req_Shuffle :: "(string \<times> int32) reader" where
  "req_Shuffle = bindr ReadString (\<lambda>tid. bindr ReadInt (\<lambda>part. returnr (tid, part)))"

definition on_Shuffle :: "TaskTracker handler" where
  "on_Shuffle = handle req_Shuffle (\<lambda>key resp tt.
     (case um_get (tt_map_outputs tt) key of
        Some kvs \<Rightarrow> (fold WritePair kvs (WriteInt (word_of_nat (length kvs)) (WriteInt 1 resp)), tt)
      | None \<Rightarrow> (WriteInt 0 resp, tt)))"

definition shuffle_handlers :: "TaskTracker handlers" where
  "shuffle_handlers = RegisterHandler 0 on_Shuffle []"

section \<open>Polling\<close>

definition poll_request :: "TaskTracker \<Rightarrow> byte list" where
  "poll_request tt = OutputBuffer_Data (WriteInt (tt_shuffle_port tt) (WriteString (tt_host tt) OutputBuffer_new))"

definition ReadLocation :: "MapOutputLocation reader" where
  "ReadLocation = bindr ReadString (\<lambda>tid. bindr ReadString (\<lambda>hst. bindr ReadInt (\<lambda>port. bindr ReadInt (\<lambda>part.
     returnr \<lparr>ml_task_id = tid, ml_host = hst, ml_port = port, ml_partition = part\<rparr>))))"

text \<open>The last field of a map task is read as a number, although the job tracker writes an empty string: both are
  four zero bytes. Any type other than that of a map task is taken as reduce.\<close>

definition ReadTask :: "Task option reader" where
  "ReadTask = bindr ReadInt (\<lambda>has_task.
     if has_task = 0 then returnr None
     else bindr ReadString (\<lambda>tid. bindr ReadInt (\<lambda>ty. bindr ReadInt (\<lambda>part.
       if ty = type_id kMap
       then bindr ReadString (\<lambda>input. bindr ReadString (\<lambda>_. bindr ReadInt (\<lambda>_.
              returnr (Some \<lparr>t_task_id = tid, t_job_id = [], t_type = kMap, t_partition = part, t_input_path = input,
                t_output_path = [], t_map_outputs = [], t_is_speculative = False\<rparr>))))
       else bindr ReadString (\<lambda>_. bindr ReadString (\<lambda>output.
              bindr (bindr ReadInt (\<lambda>num_locs. read_n ReadLocation (loop_count num_locs))) (\<lambda>locs.
              returnr (Some \<lparr>t_task_id = tid, t_job_id = [], t_type = kReduce, t_partition = part, t_input_path = [],
                t_output_path = output, t_map_outputs = locs, t_is_speculative = False\<rparr>))))))))"

section \<open>Map tasks\<close>

text \<open>One pair of the sorted output goes to its partition; the number of reduce tasks is fixed to 1.\<close>

definition store_output :: "(string \<Rightarrow> 64 word) \<Rightarrow> string \<Rightarrow> pair \<Rightarrow> (string \<times> int32, pair list) umap \<Rightarrow> (string \<times> int32, pair list) umap" where
  "store_output hash tid kv outputs =
     (let num_reduces = 1 :: int;
          p = (if fst kv \<noteq> [] then word_of_int (sint (ucast (and (hash (fst kv)) 0x7FFFFFFF) :: int32) mod num_reduces) else 0);
          old = (case um_get outputs (tid, p) of None \<Rightarrow> [] | Some kvs \<Rightarrow> kvs)
      in um_put (tid, p) (old @ [kv]) outputs)"

definition ExecuteMapTask :: "(string \<Rightarrow> 64 word) \<Rightarrow> Task \<Rightarrow> files \<Rightarrow> TaskTracker \<Rightarrow> TaskTracker result" where
  "ExecuteMapTask hash task fs tt =
     (case for_records (\<lambda>lk lv outputs. case tt_mapper tt lk lv of Inl e \<Rightarrow> Inl e | Inr ps \<Rightarrow> Inr (outputs @ ps))
             (TextRecordReader_new (fs (t_input_path task))) [] of
        Inl e \<Rightarrow> Inl e
      | Inr (outputs, _) \<Rightarrow>
          Inr (tt\<lparr>tt_map_outputs := fold (store_output hash (t_task_id task)) (sort_results outputs) (tt_map_outputs tt)\<rparr>))"

section \<open>Reduce tasks\<close>

definition ReadPair :: "pair reader" where
  "ReadPair = bindr ReadString (\<lambda>k. bindr ReadLong (\<lambda>v. returnr (k, v)))"

definition shuffle_request :: "MapOutputLocation \<Rightarrow> byte list" where
  "shuffle_request loc = OutputBuffer_Data (WriteInt (ml_partition loc) (WriteString (ml_task_id loc) OutputBuffer_new))"

definition fetch_output :: "(string \<Rightarrow> int32 \<Rightarrow> byte list \<Rightarrow> (Status \<times> byte list) option) \<Rightarrow> int32 \<Rightarrow> MapOutputLocation
    \<Rightarrow> pair list \<Rightarrow> pair list result" where
  "fetch_output dial part loc all_data =
     (if ml_partition loc \<noteq> part then Inr all_data
      else case dial (ml_host loc) (ml_port loc) (shuffle_request loc) of
        None \<Rightarrow> Inr all_data
      | Some (st, resp_data) \<Rightarrow>
          if \<not> Status_ok st then Inr all_data
          else case ReadInt (InputBuffer_new resp_data) of
            Inl e \<Rightarrow> Inl e
          | Inr (found, inb) \<Rightarrow>
              if found = 0 then Inr all_data
              else case bindr ReadInt (\<lambda>n. read_n ReadPair (loop_count n)) inb of
                Inl e \<Rightarrow> Inl e
              | Inr (kvs, _) \<Rightarrow> Inr (all_data @ kvs))"

definition ExecuteReduceTask :: "(string \<Rightarrow> int32 \<Rightarrow> byte list \<Rightarrow> (Status \<times> byte list) option) \<Rightarrow> (string \<Rightarrow> bool) \<Rightarrow> Task
    \<Rightarrow> TaskTracker \<Rightarrow> files \<Rightarrow> files result" where
  "ExecuteReduceTask dial can_write task tt fs =
     (case fold_result (fetch_output dial (t_partition task)) (t_map_outputs task) [] of
        Inl e \<Rightarrow> Inl e
      | Inr all_data \<Rightarrow>
          (case for_groups (=) (tt_reducer tt) (sort_results all_data) of
             Inl e \<Rightarrow> Inl e
           | Inr results \<Rightarrow>
               Inr (if can_write (t_output_path task) then fs(t_output_path task \<mapsto> output_text results) else fs)))"

section \<open>Report\<close>

text \<open>The number of partitions is counted over the outputs of all map tasks of the tracker.\<close>

definition report_request :: "Task \<Rightarrow> TaskTracker \<Rightarrow> byte list" where
  "report_request task tt =
     (let req = WriteInt (type_id (t_type task)) (WriteString (t_task_id task) OutputBuffer_new);
          parts = remdups (map (\<lambda>(key, val). snd key) (tt_map_outputs tt))
      in OutputBuffer_Data
           (if t_type task = kMap
            then WriteInt (tt_shuffle_port tt) (WriteString (tt_host tt) (WriteInt (word_of_nat (length parts)) req))
            else req))"

section \<open>Wire formats\<close>

definition enc_Location :: "MapOutputLocation \<Rightarrow> byte list" where
  "enc_Location loc = enc_string (ml_task_id loc) @ enc_string (ml_host loc) @ enc_int (ml_port loc) @ enc_int (ml_partition loc)"

definition Location_ok :: "MapOutputLocation \<Rightarrow> bool" where
  "Location_ok loc \<longleftrightarrow> fits_int32 (ml_task_id loc) \<and> fits_int32 (ml_host loc)"

interpretation location: codec WriteLocation ReadLocation enc_Location Location_ok
proof unfold_locales
  fix loc :: MapOutputLocation assume "Location_ok loc"
  then show "reads ReadLocation (enc_Location loc) loc"
    unfolding ReadLocation_def enc_Location_def Location_ok_def
    by - (rule reads_bind reads_bind_return codec_intros | simp)+
qed (simp add: WriteLocation_def enc_Location_def)

definition enc_pair :: "pair \<Rightarrow> byte list" where
  "enc_pair kv = enc_string (fst kv) @ enc_long (snd kv)"

interpretation kv: codec WritePair ReadPair enc_pair "\<lambda>kv. fits_int32 (fst kv)"
proof unfold_locales
  fix kv :: pair assume "fits_int32 (fst kv)"
  then show "reads ReadPair (enc_pair kv) kv"
    unfolding ReadPair_def enc_pair_def
    by - (rule reads_bind reads_bind_return codec_intros | simp)+
qed (simp add: WritePair_def enc_pair_def)

fun enc_Task :: "Task option \<Rightarrow> byte list" where
  "enc_Task None = enc_int 0"
| "enc_Task (Some t) = enc_int 1 @ enc_string (t_task_id t) @ enc_int (type_id (t_type t)) @ enc_int (t_partition t) @
     (if t_type t = kMap then enc_string (t_input_path t) @ enc_string [] @ enc_string []
      else enc_string [] @ enc_string (t_output_path t) @
        enc_int (word_of_nat (length (t_map_outputs t))) @ concat (map enc_Location (t_map_outputs t)))"

lemma WriteTask_buffer: "ob_buffer (WriteTask task resp) = ob_buffer resp @ enc_Task task"
  by (cases task) (simp_all add: WriteTask_def Let_def location.write_fold)

fun Task_ok :: "Task option \<Rightarrow> bool" where
  "Task_ok None \<longleftrightarrow> True"
| "Task_ok (Some t) \<longleftrightarrow> fits_int32 (t_task_id t) \<and> fits_int32 (t_input_path t) \<and> fits_int32 (t_output_path t)
     \<and> fits_int32 (t_map_outputs t) \<and> list_all Location_ok (t_map_outputs t)"

text \<open>The task that a tracker makes of what the job tracker sends.\<close>

definition received :: "Task \<Rightarrow> Task" where
  "received t = (if t_type t = kMap then t\<lparr>t_job_id := [], t_output_path := [], t_map_outputs := [], t_is_speculative := False\<rparr>
     else t\<lparr>t_job_id := [], t_input_path := [], t_is_speculative := False\<rparr>)"

lemma enc_string_empty: "enc_string [] = enc_int 0"
  by (simp add: enc_string_def enc_bytes_def)

lemma reads_map_fields:
  assumes "fits_int32 input"
  shows "reads (bindr ReadString (\<lambda>input. bindr ReadString (\<lambda>_. bindr ReadInt (\<lambda>_. returnr (f input)))))
    (enc_string input @ enc_string [] @ enc_string []) (f input)"
  unfolding enc_string_empty [THEN arg_cong, of "\<lambda>x. enc_string input @ enc_string [] @ x"]
  using assms by - (rule reads_bind reads_bind_return codec_intros | simp add: fits_int32_def)+

lemma reads_reduce_fields:
  assumes "fits_int32 output" "fits_int32 locs" "list_all Location_ok locs"
  shows "reads (bindr ReadString (\<lambda>_. bindr ReadString (\<lambda>output.
      bindr (bindr ReadInt (\<lambda>n. read_n ReadLocation (loop_count n))) (\<lambda>locs. returnr (f output locs)))))
    (enc_string [] @ enc_string output @ enc_int (word_of_nat (length locs)) @ concat (map enc_Location locs)) (f output locs)"
  using assms
  by - (rule reads_bind reads_bind_return location.reads_counted codec_intros | simp add: fits_int32_def)+

lemma reads_ReadTask:
  assumes "Task_ok task"
  shows "reads ReadTask (enc_Task task) (map_option received task)"
proof (cases task)
  case None
  have "reads ReadTask (enc_int 0 @ []) None"
    unfolding ReadTask_def by (rule reads_bind [OF basic_reads(1)]) (simp add: reads_return)
  then show ?thesis using None by simp
next
  case (Some t)
  note ok = assms [unfolded Some Task_ok.simps]
  show ?thesis
  proof (cases "t_type t")
    case kMap
    have "received t = \<lparr>t_task_id = t_task_id t, t_job_id = [], t_type = kMap, t_partition = t_partition t, t_input_path = t_input_path t,
        t_output_path = [], t_map_outputs = [], t_is_speculative = False\<rparr>" using kMap by (simp add: received_def)
    then show ?thesis
      using ok kMap unfolding ReadTask_def Some enc_Task.simps
      by - (rule reads_map_fields reads_bind [OF basic_reads(1)] reads_bind [OF string.decode] | simp)+
  next
    case kReduce
    have "received t = \<lparr>t_task_id = t_task_id t, t_job_id = [], t_type = kReduce, t_partition = t_partition t, t_input_path = [],
        t_output_path = t_output_path t, t_map_outputs = t_map_outputs t, t_is_speculative = False\<rparr>" using kReduce by (simp add: received_def)
    then show ?thesis
      using ok kReduce unfolding ReadTask_def Some enc_Task.simps
      by - (rule reads_reduce_fields reads_bind [OF basic_reads(1)] reads_bind [OF string.decode] | simp)+
  qed
qed

section \<open>Map tasks\<close>

lemma store_output_put:
  "store_output hash tid kv outputs
    = um_put (tid, 0) ((case um_get outputs (tid, 0) of None \<Rightarrow> [] | Some kvs \<Rightarrow> kvs) @ [kv]) outputs"
  by (simp add: store_output_def Let_def)

lemma get_stored_outputs:
  "um_get (fold (store_output hash tid) kvs outputs) key =
    (if key = (tid, 0) \<and> kvs \<noteq> [] then Some ((case um_get outputs (tid, 0) of None \<Rightarrow> [] | Some old \<Rightarrow> old) @ kvs)
     else um_get outputs key)"
  by (induction kvs arbitrary: outputs) (auto simp: store_output_put)

lemma fold_collect:
  "map_result (\<lambda>(k, l). mapper k l) recs = Inr pss \<Longrightarrow>
   fold_result (\<lambda>(k, l) outs. case mapper k l of Inl e \<Rightarrow> Inl e | Inr ps \<Rightarrow> Inr (outs @ ps)) recs outs = Inr (outs @ concat pss)"
  by (induction recs arbitrary: pss outs) (auto split: sum.splits)

lemma ExecuteMapTask_emits:
  assumes "readable (fs (t_input_path task))" "emits (tt_mapper tt) (fs (t_input_path task)) = Inr ps"
  shows "ExecuteMapTask hash task fs tt
    = Inr (tt\<lparr>tt_map_outputs := fold (store_output hash (t_task_id task)) (sort_results ps) (tt_map_outputs tt)\<rparr>)"
proof -
  let ?body = "\<lambda>lk lv outputs. case tt_mapper tt lk lv of Inl e \<Rightarrow> Inl e | Inr ps \<Rightarrow> Inr (outputs @ ps)"
  obtain pss where pss: "map_result (\<lambda>(k, l). tt_mapper tt k l) (file_records (fs (t_input_path task))) = Inr pss" "ps = concat pss"
    using assms(2) by (auto simp: emits_def split: sum.splits)
  have "fst_result (for_records ?body (TextRecordReader_new (fs (t_input_path task))) []) = Inr ps"
    using for_records_file [of "fs (t_input_path task)" ?body "[]"] assms(1) fold_collect [OF pss(1), of "[]"]
    by (simp add: readable_def file_records_def [symmetric] pss(2))
  then show ?thesis using fst_result_Inr by (fastforce simp: ExecuteMapTask_def)
qed

section \<open>Shuffle\<close>

lemma dispatch_shuffle:
  assumes "fits_int32 tid" "length tid + 12 \<le> max_message"
  shows "dispatch shuffle_handlers (request_message 0 (enc_string tid @ enc_int part)) tt =
    Inr (case um_get (tt_map_outputs tt) (tid, part) of
           Some kvs \<Rightarrow> (fold WritePair kvs (WriteInt (word_of_nat (length kvs)) (WriteInt 1 OutputBuffer_new)), tt)
         | None \<Rightarrow> (WriteInt 0 OutputBuffer_new, tt))"
proof -
  have "reads req_Shuffle (enc_string tid @ enc_int part) (tid, part)"
    unfolding req_Shuffle_def using assms(1) by - (rule reads_bind reads_bind_return codec_intros | simp)+
  moreover have "length (enc_string tid @ enc_int part) + 4 < size_max" using assms(2) by (simp add: max_message_def)
  ultimately show ?thesis
    by (simp add: dispatch_request shuffle_handlers_def RegisterHandler_def on_Shuffle_def handle_reads split: option.split)
qed

text \<open>The shuffle servers of a set of trackers, by address.\<close>

definition shuffle_dial :: "(string \<times> int32 \<rightharpoonup> TaskTracker) \<Rightarrow> string \<Rightarrow> int32 \<Rightarrow> byte list \<Rightarrow> (Status \<times> byte list) option" where
  "shuffle_dial tts hst port req = map_option (\<lambda>tt. fst (exchange shuffle_handlers 0 req tt)) (tts (hst, port))"

lemma shuffle_request_enc: "shuffle_request loc = enc_string (ml_task_id loc) @ enc_int (ml_partition loc)"
  by (simp add: shuffle_request_def)

definition sendable :: "pair list \<Rightarrow> bool" where
  "sendable kvs \<longleftrightarrow> length kvs < 2 ^ 31 \<and> list_all (\<lambda>kv. fits_int32 (fst kv)) kvs \<and> length (concat (map enc_pair kvs)) + 8 < 2 ^ 32"

lemma fetch_output_ok:
  assumes "tts (ml_host loc, ml_port loc) = Some tt" "um_get (tt_map_outputs tt) (ml_task_id loc, part) = Some kvs"
    and "ml_partition loc = part" "fits_int32 (ml_task_id loc)" "length (ml_task_id loc) + 12 \<le> max_message" "sendable kvs"
  shows "fetch_output (shuffle_dial tts) part loc all_data = Inr (all_data @ kvs)"
proof -
  let ?resp = "fold WritePair kvs (WriteInt (word_of_nat (length kvs)) (WriteInt 1 OutputBuffer_new))"
  let ?tail = "enc_int (word_of_nat (length kvs)) @ concat (map enc_pair kvs)"
  have resp: "ob_buffer ?resp = enc_int 1 @ ?tail" by (simp add: kv.write_fold)
  have len: "length (enc_int 1 @ ?tail) < 2 ^ 32" using assms(6) by (simp add: sendable_def)
  have "exchange shuffle_handlers 0 (shuffle_request loc) tt = ((Status_OK, enc_int 1 @ ?tail), tt)"
    using exchange_delivers [of shuffle_handlers 0 "shuffle_request loc" tt ?resp tt] dispatch_shuffle [OF assms(4,5), of part tt] assms(2,3,5) len
    by (simp add: shuffle_request_enc resp)
  then have dial: "shuffle_dial tts (ml_host loc) (ml_port loc) (shuffle_request loc) = Some (Status_OK, enc_int 1 @ ?tail)"
    using assms(1) by (simp add: shuffle_dial_def)
  have first: "ReadInt (InputBuffer_new (enc_int 1 @ ?tail)) = Inr (1, \<lparr>ib_data = enc_int 1 @ ?tail, ib_pos = 4\<rparr>)"
    using reads_InputBuffer_new [OF basic_reads(1), of 1 ?tail] len by simp
  have "reads (bindr ReadInt (\<lambda>n. read_n ReadPair (loop_count n))) ?tail kvs"
    using assms(6) by (intro kv.reads_counted) (simp_all add: sendable_def fits_int32_def)
  then obtain b where "bindr ReadInt (\<lambda>n. read_n ReadPair (loop_count n)) \<lparr>ib_data = enc_int 1 @ ?tail, ib_pos = 4\<rparr> = Inr (kvs, b)"
    using readsD [of _ ?tail kvs "enc_int 1" "[]"] len by fastforce
  then show ?thesis using dial first assms(3) by (simp add: fetch_output_def)
qed

section \<open>Reduce tasks\<close>

lemma sorted_sort_results: "sorted (map fst (sort_results ps))"
proof -
  have "sorted (map (\<lambda>(k, v). (k, sint v)) (sort_results ps))" by (simp add: sort_results_def)
  then show ?thesis unfolding sorted_map by (rule sorted_wrt_mono_rel [rotated]) auto
qed

lemma sort_results_perm: "mset (sort_results ps) = mset ps"
  by (simp add: sort_results_def)

lemma ExecuteReduceTask_totals:
  assumes "fold_result (fetch_output dial (t_partition task)) (t_map_outputs task) [] = Inr ps"
    and "tt_reducer tt = WordCountReducer_Reduce" "\<And>k. sums_ok (values_of k (sort_results ps))"
  shows "ExecuteReduceTask dial can_write task tt fs = Inr (if can_write (t_output_path task)
    then fs(t_output_path task \<mapsto> output_text (map (\<lambda>k. (k, total64 (values_of k (sort_results ps)))) (sorted_list_of_set (fst ` set ps)))) else fs)"
proof -
  let ?G = "\<lambda>k. [(k, total64 (values_of k (sort_results ps)))]"
  have "set (sort_results ps) = set ps" using sort_results_perm mset_eq_setD by blast
  then have keys: "keys_of (sort_results ps) = sorted_list_of_set (fst ` set ps)" by (simp add: keys_of_def)
  have "for_groups (=) WordCountReducer_Reduce (sort_results ps) = Inr (concat (map ?G (keys_of (sort_results ps))))"
    using sorted_sort_results assms(3) by (intro for_groups_sorted) (simp_all add: wc_reduce.sums)
  moreover have "concat (map ?G xs) = map (\<lambda>k. (k, total64 (values_of k (sort_results ps)))) xs" for xs by (induction xs) simp_all
  ultimately show ?thesis using assms(1,2) keys by (simp add: ExecuteReduceTask_def)
qed

end
