(* ===== verification/DistCluster.thy ===== *)
theory DistCluster
  imports TaskTracker
begin

text \<open>
  The distributed mode as a whole: one job tracker, any number of task trackers, and the threads that
  execute tasks. A step of the system is a poll of a tracker (with its remote call, and the task read
  from the answer), the execution of a running map or reduce task, or the report of an executed task.
  Steps of different trackers and tasks interleave in any order. Every remote call runs the models of
  both ends (\<open>exchange\<close>).

  The property is about word count with one reduce task: whatever the interleaving, the output is never
  anything but the complete result.
\<close>

type_synonym addr = "string \<times> int32"

record dsys =
  ds_jt :: DistJobTracker
  ds_tt :: "addr \<rightharpoonup> TaskTracker"
  ds_running :: "(addr \<times> Task) list"    \<comment> \<open>threads that have not executed their task yet\<close>
  ds_executed :: "(addr \<times> Task) list"   \<comment> \<open>threads that have executed it and will report\<close>
  ds_files :: files

inductive dsys_step :: "(string \<Rightarrow> 64 word) \<Rightarrow> (string \<Rightarrow> bool) \<Rightarrow> dsys \<Rightarrow> dsys \<Rightarrow> bool"
  for hash can_write where
  sys_poll: "ds_tt s a = Some tt \<Longrightarrow> exchange dist_handlers 1 (poll_request tt) (ds_jt s) = ((st, resp), jt) \<Longrightarrow> Status_ok st \<Longrightarrow>
     ReadTask (InputBuffer_new resp) = Inr (task, b) \<Longrightarrow>
     dsys_step hash can_write s (s\<lparr>ds_jt := jt,
       ds_running := ds_running s @ (case task of None \<Rightarrow> [] | Some t \<Rightarrow> [(a, t)])\<rparr>)"
| sys_poll_failed: "ds_tt s a = Some tt \<Longrightarrow> exchange dist_handlers 1 (poll_request tt) (ds_jt s) = ((st, resp), jt) \<Longrightarrow> \<not> Status_ok st \<Longrightarrow>
     dsys_step hash can_write s (s\<lparr>ds_jt := jt\<rparr>)"
| sys_map: "ds_running s = xs @ (a, t) # ys \<Longrightarrow> t_type t = kMap \<Longrightarrow> ds_tt s a = Some tt \<Longrightarrow>
     ExecuteMapTask hash t (ds_files s) tt = Inr tt' \<Longrightarrow>
     dsys_step hash can_write s (s\<lparr>ds_tt := (ds_tt s)(a \<mapsto> tt'), ds_running := xs @ ys, ds_executed := ds_executed s @ [(a, t)]\<rparr>)"
| sys_reduce: "ds_running s = xs @ (a, t) # ys \<Longrightarrow> t_type t = kReduce \<Longrightarrow> ds_tt s a = Some tt \<Longrightarrow>
     ExecuteReduceTask (shuffle_dial (ds_tt s)) can_write t tt (ds_files s) = Inr fs \<Longrightarrow>
     dsys_step hash can_write s (s\<lparr>ds_files := fs, ds_running := xs @ ys, ds_executed := ds_executed s @ [(a, t)]\<rparr>)"
| sys_report: "ds_executed s = xs @ (a, t) # ys \<Longrightarrow> ds_tt s a = Some tt \<Longrightarrow>
     exchange dist_handlers 2 (report_request t tt) (ds_jt s) = (reply, jt) \<Longrightarrow>
     dsys_step hash can_write s (s\<lparr>ds_jt := jt, ds_executed := xs @ ys\<rparr>)"

inductive dsys_run :: "(string \<Rightarrow> 64 word) \<Rightarrow> (string \<Rightarrow> bool) \<Rightarrow> dsys \<Rightarrow> nat \<Rightarrow> dsys \<Rightarrow> bool"
  for hash can_write s0 where
  run_start: "dsys_run hash can_write s0 0 s0"
| run_step: "dsys_run hash can_write s0 n s \<Longrightarrow> dsys_step hash can_write s u \<Longrightarrow> dsys_run hash can_write s0 (Suc n) u"

definition dsys_submitted :: "string \<Rightarrow> string \<Rightarrow> int32 \<Rightarrow> int32 \<Rightarrow> (addr \<rightharpoonup> TaskTracker) \<Rightarrow> files \<Rightarrow> dsys" where
  "dsys_submitted input output m r tts fs = \<lparr>ds_jt = DistSubmitJob input output m r DistJobTracker_new, ds_tt = tts,
     ds_running = [], ds_executed = [], ds_files = fs\<rparr>"

section \<open>Remote calls of the trackers\<close>

lemma exchange_poll:
  assumes "length (tt_host tt) < 256" "length (enc_Task (fst (PollForTask jt))) < 2 ^ 32"
  shows "exchange dist_handlers 1 (poll_request tt) jt
    = ((Status_OK, enc_Task (fst (PollForTask jt))), snd (PollForTask jt))"
proof -
  let ?req = "enc_string (tt_host tt) @ enc_int (tt_shuffle_port tt)"
  have req: "poll_request tt = ?req" by (simp add: poll_request_def)
  have "fits_int32 (tt_host tt)" using assms(1) by (simp add: fits_int32_def)
  then have "dispatch dist_handlers (request_message 1 ?req) jt
      = Inr (WriteTask (fst (PollForTask jt)) OutputBuffer_new, snd (PollForTask jt))"
    using assms(1) by (simp add: dispatch_request on_PollForTask_def handle_reads [OF reads_req_Poll] split_def Let_def)
  then show ?thesis
    using exchange_delivers [of dist_handlers 1 ?req jt] assms by (simp add: req WriteTask_buffer max_message_def)
qed

lemma ReadTask_enc:
  assumes "Task_ok task" "length (enc_Task task) < 2 ^ 32"
  shows "\<exists>b. ReadTask (InputBuffer_new (enc_Task task)) = Inr (map_option received task, b)"
  using reads_InputBuffer_new [OF reads_ReadTask [OF assms(1)], of "[]"] assms(2) by simp

lemma exchange_report:
  assumes "report_ok rep" "length (enc_report rep) + 4 \<le> max_message"
  shows "snd (exchange dist_handlers 2 (enc_report rep) jt) = TaskCompleted rep jt"
proof -
  have "dispatch dist_handlers (request_message 2 (enc_report rep)) jt = Inr (WriteInt 1 OutputBuffer_new, TaskCompleted rep jt)"
    using assms by (simp add: dispatch_request on_TaskCompleted_def handle_reads [OF reads_req_TaskCompleted] max_message_def)
  then show ?thesis using exchange_delivers [of dist_handlers 2 "enc_report rep" jt] assms(2) by simp
qed

definition report_of :: "Task \<Rightarrow> TaskTracker \<Rightarrow> report" where
  "report_of t tt = (if t_type t = kMap
     then MapDone (t_task_id t) (word_of_nat (length (remdups (map (\<lambda>(key, val). snd key) (tt_map_outputs tt))))) (tt_host tt) (tt_shuffle_port tt)
     else ReduceDone (t_task_id t))"

lemma report_request_enc: "report_request t tt = enc_report (report_of t tt)"
  by (cases "t_type t") (simp_all add: report_request_def report_of_def Let_def)

section \<open>The word count job\<close>

text \<open>The job of the property: word count of \<open>content\<close> with \<open>m\<close> map tasks and one reduce task on fresh trackers. The
  bounds keep every message below the limits of the wire format and every counter below overflow.\<close>

definition word_pairs :: "string \<Rightarrow> pair list" where
  "word_pairs content = map (\<lambda>w. (w, 1)) (extract_words content)"

definition job_ok :: "string \<Rightarrow> string \<Rightarrow> int32 \<Rightarrow> string \<Rightarrow> (addr \<rightharpoonup> TaskTracker) \<Rightarrow> files \<Rightarrow> bool" where
  "job_ok input output m content tts fs \<longleftrightarrow> 0 < sint m \<and> sint m \<le> 2 ^ 20 \<and> length content < 2 ^ 27
     \<and> length input < 2 ^ 20 \<and> length output < 2 ^ 20 \<and> input \<noteq> output \<and> fs input = Some content
     \<and> (\<forall>a tt. tts a = Some tt \<longrightarrow> length (fst a) < 256
          \<and> tt = TaskTracker_new (fst a) (snd a) WordCountMapper_Map WordCountReducer_Reduce)"

text \<open>The output of the job: the whole input is counted once for every map task.\<close>

definition job_text :: "nat \<Rightarrow> string \<Rightarrow> string" where
  "job_text m content = concat (map (\<lambda>w. w @ [tab] @ show_nat (m * count_list (extract_words content) w) @ [nl])
     (sorted_list_of_set (set (extract_words content))))"

definition loc_of :: "addr \<times> Task \<Rightarrow> MapOutputLocation" where
  "loc_of x = \<lparr>ml_task_id = t_task_id (snd x), ml_host = fst (fst x), ml_port = snd (fst x), ml_partition = 0\<rparr>"

definition locs :: "pair list \<Rightarrow> (addr \<times> Task) list \<Rightarrow> MapOutputLocation list" where
  "locs P rm = (if P = [] then [] else map loc_of rm)"

abbreviation is_map :: "Task \<Rightarrow> bool" where
  "is_map t \<equiv> t_type t = kMap"

definition maps_in :: "(addr \<times> Task) list \<Rightarrow> (addr \<times> Task) list" where
  "maps_in xs = filter (\<lambda>x. is_map (snd x)) xs"

lemma maps_in_simps [simp]:
  "maps_in [] = []" "maps_in (x # xs) = (if is_map (snd x) then x # maps_in xs else maps_in xs)"
  "maps_in (xs @ ys) = maps_in xs @ maps_in ys" "set (maps_in xs) = {x \<in> set xs. is_map (snd x)}"
  by (auto simp: maps_in_def)

definition reduces_in :: "(addr \<times> Task) list \<Rightarrow> (addr \<times> Task) list" where
  "reduces_in xs = filter (\<lambda>x. \<not> is_map (snd x)) xs"

lemma reduces_in_simps [simp]:
  "reduces_in [] = []" "reduces_in (x # xs) = (if is_map (snd x) then reduces_in xs else x # reduces_in xs)"
  "reduces_in (xs @ ys) = reduces_in xs @ reduces_in ys"
  by (simp_all add: reduces_in_def)

abbreviation ids :: "(addr \<times> Task) list \<Rightarrow> string list" where
  "ids xs \<equiv> map (\<lambda>x. t_task_id (snd x)) xs"

text \<open>A tracker holds the output of exactly the map tasks \<open>done\<close> that it has executed.\<close>

definition tracker_ok :: "pair list \<Rightarrow> (addr \<times> Task) set \<Rightarrow> addr \<Rightarrow> TaskTracker \<Rightarrow> bool" where
  "tracker_ok P don a tt \<longleftrightarrow> tt_host tt = fst a \<and> tt_shuffle_port tt = snd a \<and> length (fst a) < 256
     \<and> tt_mapper tt = WordCountMapper_Map \<and> tt_reducer tt = WordCountReducer_Reduce
     \<and> (\<forall>key. um_get (tt_map_outputs tt) key =
          (if P \<noteq> [] \<and> (\<exists>t. (a, t) \<in> don \<and> key = (t_task_id t, 0)) then Some (sort_results P) else None))"

text \<open>A task that is running or executed.\<close>

definition task_ok :: "string \<Rightarrow> string \<Rightarrow> nat \<Rightarrow> pair list \<Rightarrow> (addr \<times> Task) list \<Rightarrow> (addr \<rightharpoonup> TaskTracker) \<Rightarrow> addr \<times> Task \<Rightarrow> bool" where
  "task_ok input output M P rm tts x \<longleftrightarrow> tts (fst x) \<noteq> None \<and> length (t_task_id (snd x)) \<le> 20
     \<and> (if is_map (snd x) then t_input_path (snd x) = input
        else t_partition (snd x) = 0 \<and> t_output_path (snd x) = output \<and> length rm = M \<and> t_map_outputs (snd x) = locs P rm)"

text \<open>The invariant, with the events \<open>es\<close> at the job tracker and the map tasks \<open>rm\<close> that have been reported.\<close>

definition sys_inv :: "string \<Rightarrow> string \<Rightarrow> int32 \<Rightarrow> string \<Rightarrow> files \<Rightarrow> nat \<Rightarrow> dist_event list \<Rightarrow> (addr \<times> Task) list \<Rightarrow> dsys \<Rightarrow> bool" where
  "sys_inv input output m content fs n es rm s \<longleftrightarrow>
     (let M = nat (sint m); P = word_pairs content; fs1 = fs(output \<mapsto> job_text M content)
      in dist_inv input m 1 es (ds_jt s) \<and> length es \<le> n \<and> dj_output_path (ds_jt s) = output
       \<and> map_reports es = length rm \<and> dj_map_output_locations (ds_jt s) = locs P rm
       \<and> mset (ids (maps_in (ds_running s) @ maps_in (ds_executed s) @ rm)) = mset (map t_task_id (filter is_map (assigned es)))
       \<and> (\<forall>x\<in>set (ds_running s @ ds_executed s). task_ok input output M P rm (ds_tt s) x)
       \<and> (\<forall>x\<in>set rm. is_map (snd x) \<and> ds_tt s (fst x) \<noteq> None \<and> length (t_task_id (snd x)) \<le> 20)
       \<and> (\<forall>a tt. ds_tt s a = Some tt \<longrightarrow> tracker_ok P (set (maps_in (ds_executed s) @ rm)) a tt)
       \<and> ds_files s \<in> {fs, fs1}
       \<and> ((0 < reduce_reports es \<or> (\<exists>x\<in>set (ds_executed s). \<not> is_map (snd x))) \<longrightarrow> ds_files s = fs1)
       \<and> length (reduces_in (ds_running s @ ds_executed s)) + reduce_reports es = length (filter (\<lambda>t. \<not> is_map t) (assigned es)))"

lemma sys_invD:
  assumes "sys_inv input output m content fs n es rm s"
  defines "M \<equiv> nat (sint m)" and "P \<equiv> word_pairs content"
  shows "dist_inv input m 1 es (ds_jt s)" "length es \<le> n" "dj_output_path (ds_jt s) = output"
    "map_reports es = length rm" "dj_map_output_locations (ds_jt s) = locs P rm"
    "mset (ids (maps_in (ds_running s) @ maps_in (ds_executed s) @ rm)) = mset (map t_task_id (filter is_map (assigned es)))"
    "\<And>x. x \<in> set (ds_running s @ ds_executed s) \<Longrightarrow> task_ok input output M P rm (ds_tt s) x"
    "\<And>x. x \<in> set rm \<Longrightarrow> is_map (snd x) \<and> ds_tt s (fst x) \<noteq> None \<and> length (t_task_id (snd x)) \<le> 20"
    "\<And>a tt. ds_tt s a = Some tt \<Longrightarrow> tracker_ok P (set (maps_in (ds_executed s) @ rm)) a tt"
    "ds_files s \<in> {fs, fs(output \<mapsto> job_text M content)}"
    "0 < reduce_reports es \<or> (\<exists>x\<in>set (ds_executed s). \<not> is_map (snd x)) \<Longrightarrow> ds_files s = fs(output \<mapsto> job_text M content)"
    "length (reduces_in (ds_running s @ ds_executed s)) + reduce_reports es = length (filter (\<lambda>t. \<not> is_map t) (assigned es))"
  using assms(1) unfolding sys_inv_def Let_def M_def P_def by (blast+)

section \<open>Bounds\<close>

lemma in_locs: "x \<in> set (locs P rm) \<Longrightarrow> \<exists>y\<in>set rm. x = loc_of y"
  by (cases "P = []") (auto simp: locs_def)

lemma length_concat_bound: "(\<And>x. x \<in> set xs \<Longrightarrow> length (f x) \<le> b) \<Longrightarrow> length (concat (map f xs)) \<le> length xs * b"
proof (induction xs)
  case (Cons x xs)
  then have "length (f x) \<le> b" "length (concat (map f xs)) \<le> length xs * b" by auto
  then show ?case by simp
qed simp

lemma task_plan_entries:
  assumes "x \<in> set (task_plan ''job_001'' M 1)" "M \<le> 2 ^ 20"
  shows "length (fst x) \<le> 20" "fst (snd x) = kReduce \<Longrightarrow> snd (snd x) = 0"
proof -
  have "length (show_nat i) \<le> 10" if "i < M \<or> i = 0" for i
    using that assms(2) by (intro length_show_nat) auto
  then show "length (fst x) \<le> 20" "fst (snd x) = kReduce \<Longrightarrow> snd (snd x) = 0" using assms(1) by (auto simp: task_plan_def)
qed

lemma dist_inv_assigned:
  assumes "dist_inv input m 1 es jt"
  shows "map task_key (assigned es) = take (length (assigned es)) (task_plan ''job_001'' (nat (sint m)) 1)"
  using assms by (simp add: dist_inv_def Let_def)

lemma assigned_maps:
  assumes "dist_inv input m 1 es jt"
  shows "length (filter is_map (assigned es)) \<le> nat (sint m)" "distinct (map t_task_id (assigned es))"
    "\<And>t. t \<in> set (assigned es) \<Longrightarrow> task_key t \<in> set (task_plan ''job_001'' (nat (sint m)) 1)"
proof -
  let ?plan = "task_plan ''job_001'' (nat (sint m)) 1" and ?k = "length (assigned es)"
  note eq = dist_inv_assigned [OF assms]
  have "length (filter is_map (assigned es)) = length (filter (\<lambda>x. fst (snd x) = kMap) (map task_key (assigned es)))"
    by (simp add: filter_map comp_def task_key_def)
  also have "\<dots> \<le> length (filter (\<lambda>x. fst (snd x) = kMap) (take ?k ?plan @ drop ?k ?plan))"
    unfolding eq filter_append by simp
  also have "\<dots> = nat (sint m)" unfolding append_take_drop_id by (simp add: task_plan_def filter_map comp_def)
  finally show "length (filter is_map (assigned es)) \<le> nat (sint m)" .
  have "distinct (map fst (map task_key (assigned es)))"
    unfolding eq take_map [symmetric] by (intro distinct_take distinct_task_plan)
  then show "distinct (map t_task_id (assigned es))" by (simp add: comp_def task_key_def)
  fix t assume "t \<in> set (assigned es)"
  then have "task_key t \<in> set (take ?k ?plan)" by (metis eq image_eqI list.set_map)
  then show "task_key t \<in> set ?plan" by (rule in_set_takeD)
qed

lemma reported_bound:
  assumes "sys_inv input output m content fs n es rm s"
  shows "length (maps_in (ds_running s)) + length (maps_in (ds_executed s)) + length rm \<le> nat (sint m)"
    "distinct (ids (maps_in (ds_running s) @ maps_in (ds_executed s) @ rm))"
proof -
  note D = sys_invD [OF assms]
  have "length (ids (maps_in (ds_running s) @ maps_in (ds_executed s) @ rm)) = length (map t_task_id (filter is_map (assigned es)))"
    using D(6) by (rule mset_eq_length)
  then show "length (maps_in (ds_running s)) + length (maps_in (ds_executed s)) + length rm \<le> nat (sint m)"
    using assigned_maps(1) [OF D(1)] by simp
  have "distinct (map t_task_id (filter is_map (assigned es)))"
    using assigned_maps(2) [OF D(1)] by (rule distinct_map_filter)
  then show "distinct (ids (maps_in (ds_running s) @ maps_in (ds_executed s) @ rm))"
    using mset_eq_imp_distinct_iff [OF D(6)] by blast
qed

section \<open>Polls\<close>

lemma poll_message:
  assumes inv: "sys_inv input output m content fs n es rm s" and job: "job_ok input output m content tts fs" and n: "n < 2 ^ 31"
    and poll: "PollForTask (ds_jt s) = (task, jt)"
  shows "Task_ok task \<and> length (enc_Task task) < 2 ^ 32"
proof (cases task)
  case (Some t)
  note D = sys_invD [OF inv]
  have m: "0 \<le> sint m" "nat (sint m) \<le> 2 ^ 20" and paths: "length input < 2 ^ 20" "length output < 2 ^ 20"
    using job by (auto simp: job_ok_def)
  have bound: "length rm \<le> 2 ^ 20" using reported_bound(1) [OF inv] m(2) by linarith
  have loc: "length (enc_Location x) \<le> 292 \<and> Location_ok x" if x: "x \<in> set (locs (word_pairs content) rm)" for x
  proof -
    obtain y where y: "x = loc_of y" "y \<in> set rm" using x in_locs by blast
    then obtain tt where "ds_tt s (fst y) = Some tt" "length (t_task_id (snd y)) \<le> 20" using D(8) by blast
    then show ?thesis using D(9) [of "fst y" tt] y(1) by (simp add: loc_of_def enc_Location_def Location_ok_def tracker_ok_def fits_int32_def)
  qed
  have "length (concat (map enc_Location (locs (word_pairs content) rm))) \<le> length (locs (word_pairs content) rm) * 292"
    using loc by (intro length_concat_bound) blast
  moreover have "length (locs (word_pairs content) rm) \<le> 2 ^ 20" using bound by (simp add: locs_def)
  ultimately have size: "length (concat (map enc_Location (locs (word_pairs content) rm))) \<le> 2 ^ 20 * 292" "length (locs (word_pairs content) rm) < 2 ^ 31"
    by simp_all
  have "dist_inv input m 1 (es @ [Polled task]) jt" using poll_step [OF D(1) m(1) _ _ poll] D(2) n by simp
  then have "task_key t \<in> set (task_plan ''job_001'' (nat (sint m)) 1)" using assigned_maps(3) [of input m "es @ [Polled task]" jt t] Some by simp
  then have tid: "length (t_task_id t) \<le> 20" using task_plan_entries(1) [of "task_key t" "nat (sint m)"] m(2) by (simp add: task_key_def)
  have "dj_pending_reduces (ds_jt s) = []" "set (dj_pending_maps (ds_jt s)) \<subseteq> range (map_task ''job_001'' input)"
    using D(1) by (auto simp: dist_inv_def Let_def)
  then consider i where "t = map_task ''job_001'' input i"
    | "t_type t = kReduce" "t_output_path t = output" "t_map_outputs t = locs (word_pairs content) rm" "t_input_path t = []"
    using poll_fields [OF poll] D(3,5) Some by auto
  then show ?thesis
  proof cases
    case 1
    then show ?thesis using tid paths Some by (simp add: map_task_def fits_int32_def)
  next
    case 2
    have "list_all Location_ok (t_map_outputs t)" using loc 2(3) by (simp add: list_all_iff)
    then show ?thesis using tid paths size 2 Some by (simp add: fits_int32_def)
  qed
qed simp

lemma received_fields [simp]:
  "t_task_id (received t) = t_task_id t" "t_type (received t) = t_type t" "t_partition (received t) = t_partition t"
  "is_map t \<Longrightarrow> t_input_path (received t) = t_input_path t"
  "\<not> is_map t \<Longrightarrow> t_output_path (received t) = t_output_path t" "\<not> is_map t \<Longrightarrow> t_map_outputs (received t) = t_map_outputs t"
  by (simp_all add: received_def)

lemma not_map: "\<not> is_map t \<longleftrightarrow> t_type t = kReduce"
  by (cases "t_type t") simp_all

lemma poll_task:
  assumes inv: "sys_inv input output m content fs n es rm s" and job: "job_ok input output m content tts fs" and n: "n < 2 ^ 31"
    and poll: "PollForTask (ds_jt s) = (Some t, jt)" and a: "ds_tt s a \<noteq> None"
  shows "task_ok input output (nat (sint m)) (word_pairs content) rm (ds_tt s) (a, received t)"
proof -
  note D = sys_invD [OF inv]
  have m: "0 \<le> sint m" "nat (sint m) \<le> 2 ^ 20" using job by (auto simp: job_ok_def)
  note step = poll_step [OF D(1) m(1) _ _ poll]
  have "dist_inv input m 1 (es @ [Polled (Some t)]) jt" and wait: "t_type t = kReduce \<longrightarrow> nat (sint m) \<le> length rm"
    using step D(2,4) n by simp_all
  then have key: "task_key t \<in> set (task_plan ''job_001'' (nat (sint m)) 1)" using assigned_maps(3) [of input m "es @ [Polled (Some t)]" jt t] by simp
  then have tid: "length (t_task_id t) \<le> 20" and part: "t_type t = kReduce \<Longrightarrow> t_partition t = 0"
    using task_plan_entries [of "task_key t" "nat (sint m)"] m(2) by (simp_all add: task_key_def)
  have pend: "dj_pending_reduces (ds_jt s) = []" "\<And>u. u \<in> set (dj_pending_maps (ds_jt s)) \<Longrightarrow> is_map u \<and> t_input_path u = input"
    using D(1) by (auto simp: dist_inv_def Let_def map_task_def)
  have fields: "t \<in> set (dj_pending_maps (ds_jt s)) \<or> (t_type t = kReduce \<and> t_output_path t = output \<and> t_map_outputs t = locs (word_pairs content) rm)"
    using poll_fields [OF poll pend(1)] D(3,5) by auto
  show ?thesis
  proof (cases "is_map t")
    case True
    then have "t_input_path t = input" using fields pend(2) by auto
    then show ?thesis using True tid a by (simp add: task_ok_def)
  next
    case False
    then have "t_type t = kReduce" "t_output_path t = output" "t_map_outputs t = locs (word_pairs content) rm" using fields pend(2) by auto
    moreover from this have "length rm = nat (sint m)" using wait reported_bound(1) [OF inv] by simp
    ultimately show ?thesis using False tid a part by (simp add: task_ok_def)
  qed
qed

lemma sys_inv_poll:
  assumes inv: "sys_inv input output m content fs n es rm s" and job: "job_ok input output m content tts fs" and n: "n < 2 ^ 31"
    and poll: "PollForTask (ds_jt s) = (task, jt)" and a: "ds_tt s a \<noteq> None"
  shows "sys_inv input output m content fs (Suc n) (es @ [Polled task]) rm
    (s\<lparr>ds_jt := jt, ds_running := ds_running s @ (case map_option received task of None \<Rightarrow> [] | Some t \<Rightarrow> [(a, t)])\<rparr>)"
proof -
  note D = sys_invD [OF inv]
  have "0 \<le> sint m" using job by (simp add: job_ok_def)
  then have "dist_inv input m 1 (es @ [Polled task]) jt" using poll_step [OF D(1) _ _ _ poll] D(2) n by simp
  moreover have "dj_output_path jt = output" "dj_map_output_locations jt = locs (word_pairs content) rm"
    using poll_fields [OF poll] D(1,3,5) by (simp_all add: dist_inv_def Let_def)
  moreover have "task_ok input output (nat (sint m)) (word_pairs content) rm (ds_tt s) (a, received t)" if "task = Some t" for t
    using poll_task [OF inv job n _ a] poll that by simp
  ultimately show ?thesis
    using inv by (cases task) (auto simp: sys_inv_def Let_def)
qed

section \<open>Execution of tasks\<close>

lemma tracker_ok_get:
  "tracker_ok P don a tt \<Longrightarrow> um_get (tt_map_outputs tt) key =
    (if P \<noteq> [] \<and> (\<exists>t. (a, t) \<in> don \<and> key = (t_task_id t, 0)) then Some (sort_results P) else None)"
  unfolding tracker_ok_def by blast

lemma tracker_ok_store:
  assumes "tracker_ok P don a tt" "um_get (tt_map_outputs tt) (t_task_id t, 0) = None"
  shows "tracker_ok P (insert (a, t) don) a
    (tt\<lparr>tt_map_outputs := fold (store_output hash (t_task_id t)) (sort_results P) (tt_map_outputs tt)\<rparr>)"
proof -
  have P: "sort_results P = [] \<longleftrightarrow> P = []" by (metis mset_zero_iff sort_results_perm)
  have "um_get (fold (store_output hash (t_task_id t)) (sort_results P) (tt_map_outputs tt)) key =
      (if P \<noteq> [] \<and> (\<exists>u. (a, u) \<in> insert (a, t) don \<and> key = (t_task_id u, 0)) then Some (sort_results P) else None)" for key
  proof (cases "key = (t_task_id t, 0)")
    case True
    then show ?thesis using assms(2) by (auto simp: get_stored_outputs P)
  next
    case False
    then have "(\<exists>u. (a, u) \<in> insert (a, t) don \<and> key = (t_task_id u, 0)) \<longleftrightarrow> (\<exists>u. (a, u) \<in> don \<and> key = (t_task_id u, 0))" by blast
    then show ?thesis using False by (simp add: get_stored_outputs tracker_ok_get [OF assms(1)])
  qed
  then show ?thesis using assms(1) by (simp add: tracker_ok_def del: split_paired_All)
qed

lemma sys_inv_map:
  assumes inv: "sys_inv input output m content fs n es rm s" and job: "job_ok input output m content tts fs"
    and run: "ds_running s = xs @ (a, t) # ys" "is_map t" "ds_tt s a = Some tt"
    and exec: "ExecuteMapTask hash t (ds_files s) tt = Inr tt'"
  shows "sys_inv input output m content fs (Suc n) es rm
    (s\<lparr>ds_tt := (ds_tt s)(a \<mapsto> tt'), ds_running := xs @ ys, ds_executed := ds_executed s @ [(a, t)]\<rparr>)"
proof -
  note D = sys_invD [OF inv]
  let ?P = "word_pairs content" and ?don = "set (maps_in (ds_executed s) @ rm)"
  let ?outs = "fold (store_output hash (t_task_id t)) (sort_results ?P) (tt_map_outputs tt)"
  have task: "task_ok input output (nat (sint m)) ?P rm (ds_tt s) (a, t)" using D(7) run(1) by simp
  then have input: "t_input_path t = input" using run(2) by (simp add: task_ok_def)
  have "ds_files s input = Some content" using D(10) job by (auto simp: job_ok_def)
  moreover have tt: "tracker_ok ?P ?don a tt" using D(9) run(3) by blast
  ultimately have "tt' = tt\<lparr>tt_map_outputs := ?outs\<rparr>"
    using ExecuteMapTask_emits [of "ds_files s" t tt ?P hash] exec job input
    by (simp add: readable_def emits_words word_pairs_def job_ok_def tracker_ok_def)
  have "t_task_id t \<notin> set (ids (maps_in (ds_executed s) @ rm))"
    using reported_bound(2) [OF inv] run(1,2) by simp
  then have fresh: "t_task_id u \<noteq> t_task_id t" if "(b, u) \<in> ?don" for b u
    using that by (metis (mono_tags, lifting) image_eqI list.set_map snd_conv)
  have none: "um_get (tt_map_outputs tt) (t_task_id t, 0) = None"
  proof -
    have "\<not> (\<exists>u. (a, u) \<in> ?don \<and> (t_task_id t, 0 :: int32) = (t_task_id u, 0))" using fresh by (metis prod.inject)
    then show ?thesis by (simp only: tracker_ok_get [OF tt] simp_thms if_False)
  qed
  have "tracker_ok ?P (insert (a, t) ?don) a tt'"
    unfolding \<open>tt' = _\<close> using tt none by (rule tracker_ok_store)
  moreover have "tracker_ok ?P (insert (a, t) ?don) b u" if "ds_tt s b = Some u" "b \<noteq> a" for b u
    using D(9) [OF that(1)] that(2) by (auto simp: tracker_ok_def)
  moreover have "set (maps_in (ds_executed s @ [(a, t)]) @ rm) = insert (a, t) ?don" using run(2) by auto
  ultimately have trackers: "tracker_ok ?P (set (maps_in (ds_executed s @ [(a, t)]) @ rm)) b u" if "((ds_tt s)(a \<mapsto> tt')) b = Some u" for b u
    using that by (auto split: if_splits simp del: maps_in_simps)
  have "task_ok input output (nat (sint m)) ?P rm ((ds_tt s)(a \<mapsto> tt')) x" if "task_ok input output (nat (sint m)) ?P rm (ds_tt s) x" for x
    using that by (simp add: task_ok_def)
  then have tasks: "\<forall>x\<in>set ((xs @ ys) @ ds_executed s @ [(a, t)]). task_ok input output (nat (sint m)) ?P rm ((ds_tt s)(a \<mapsto> tt')) x"
    using D(7) run(1) task by auto
  have bag: "mset (ids (maps_in (xs @ ys) @ maps_in (ds_executed s @ [(a, t)]) @ rm)) = mset (map t_task_id (filter is_map (assigned es)))"
    using D(6) run(1,2) by simp
  show ?thesis
    unfolding sys_inv_def Let_def using D(1-5,8,10-12) run(1,2) trackers tasks bag by simp
qed

section \<open>The reduce task\<close>

lemma sendable_words:
  assumes "length content < 2 ^ 27"
  shows "sendable (sort_results (word_pairs content))"
proof -
  let ?ws = "extract_words content" and ?kvs = "sort_results (word_pairs content)"
  have perm: "mset ?kvs = mset (word_pairs content)" by (rule sort_results_perm)
  have len: "length ?kvs = length ?ws" using mset_eq_length [OF perm] by (simp add: word_pairs_def)
  have set: "set ?kvs = set (word_pairs content)" using mset_eq_setD [OF perm] .
  have "mset (map (\<lambda>kv. length (enc_pair kv)) ?kvs) = mset (map (\<lambda>kv. length (enc_pair kv)) (word_pairs content))"
    using perm by (simp only: mset_map)
  then have "sum_list (map (\<lambda>kv. length (enc_pair kv)) ?kvs) = sum_list (map (\<lambda>kv. length (enc_pair kv)) (word_pairs content))"
    by (metis sum_mset_sum_list)
  also have "\<dots> = sum_list (map (\<lambda>w. 12 + length w) ?ws)" by (simp add: word_pairs_def comp_def enc_pair_def)
  also have "sum_list (map (\<lambda>w. 12 + length w) xs) = 12 * length xs + sum_list (map length xs)" for xs :: "string list"
    by (induction xs) simp_all
  finally have "length (concat (map enc_pair ?kvs)) = 12 * length ?ws + sum_list (map length ?ws)"
    by (simp add: length_concat comp_def)
  moreover have "length ?ws < 2 ^ 27" "sum_list (map length ?ws) < 2 ^ 27"
    using assms length_extract_words [of content] sum_extract_words [of content] by linarith+
  moreover have "length w < 2 ^ 27" if "w \<in> set ?ws" for w
    using member_le_sum_list [of "length w" "map length ?ws"] that calculation(3) by fastforce
  ultimately show ?thesis
    using len set by (fastforce simp: sendable_def list_all_iff fits_int32_def word_pairs_def)
qed

lemma fetch_all:
  assumes "\<And>x. x \<in> set rm \<Longrightarrow> fetch_output dial 0 (loc_of x) = (\<lambda>all. Inr (all @ kvs))"
  shows "fold_result (fetch_output dial 0) (map loc_of rm) all = Inr (all @ concat (replicate (length rm) kvs))"
  using assms by (induction rm arbitrary: all) simp_all

lemma values_of_copies: "values_of w (concat (replicate n ps)) = concat (replicate n (values_of w ps))"
  by (induction n) simp_all

lemma concat_replicates: "concat (replicate m (replicate n x)) = replicate (m * n) x"
  by (induction m) (simp_all add: replicate_add)

lemma reduce_output:
  assumes inv: "sys_inv input output m content fs n es rm s" and job: "job_ok input output m content tts fs"
    and task: "task_ok input output (nat (sint m)) (word_pairs content) rm (ds_tt s) (a, t)" "t_type t = kReduce" "ds_tt s a = Some tt"
    and out: "can_write output"
  shows "ExecuteReduceTask (shuffle_dial (ds_tt s)) can_write t tt fs0 = Inr (fs0(output \<mapsto> job_text (nat (sint m)) content))"
proof -
  note D = sys_invD [OF inv]
  let ?P = "word_pairs content" and ?M = "nat (sint m)" and ?ws = "extract_words content"
  let ?all = "concat (replicate ?M (sort_results ?P))"
  have t: "t_partition t = 0" "t_output_path t = output" "length rm = ?M" "t_map_outputs t = locs ?P rm"
    using task(1,2) by (simp_all add: task_ok_def)
  have job': "0 < ?M" "?M \<le> 2 ^ 20" "length content < 2 ^ 27" using job by (auto simp: job_ok_def)
  have "fetch_output (shuffle_dial (ds_tt s)) 0 (loc_of x) = (\<lambda>all. Inr (all @ sort_results ?P))" if x: "x \<in> set rm" "?P \<noteq> []" for x
  proof
    fix all
    obtain u where u: "ds_tt s (fst x) = Some u" and tid: "length (t_task_id (snd x)) \<le> 20" using D(8) [OF x(1)] by blast
    have "\<exists>t. (fst x, t) \<in> set (maps_in (ds_executed s) @ rm) \<and> (t_task_id (snd x), 0 :: int32) = (t_task_id t, 0)"
      using x(1) by (intro exI [of _ "snd x"]) simp
    then have "um_get (tt_map_outputs u) (t_task_id (snd x), 0) = Some (sort_results ?P)"
      using x(2) by (simp only: tracker_ok_get [OF D(9) [OF u]] simp_thms if_True)
    then show "fetch_output (shuffle_dial (ds_tt s)) 0 (loc_of x) all = Inr (all @ sort_results ?P)"
      using u tid sendable_words [OF job'(3)] by (intro fetch_output_ok) (simp_all add: loc_of_def fits_int32_def max_message_def)
  qed
  then have "fold_result (fetch_output (shuffle_dial (ds_tt s)) 0) (map loc_of rm) [] = Inr ([] @ ?all)" if "?P \<noteq> []"
    unfolding t(3) [symmetric] using that by (intro fetch_all)
  then have all: "fold_result (fetch_output (shuffle_dial (ds_tt s)) (t_partition t)) (t_map_outputs t) [] = Inr ?all"
    using t(1,4) by (cases "?P = []") (simp_all add: locs_def sort_results_def)
  have perm: "mset (sort_results ?P) = mset ?P" by (rule sort_results_perm)
  have "values_of w (sort_results ?P) = replicate (count_list ?ws w) 1" for w
    using mset_values_of [OF perm, of w] by (intro mset_replicate_eq) (simp add: word_pairs_def values_of_words)
  then have "values_of w ?all = replicate (?M * count_list ?ws w) 1" for w by (simp add: values_of_copies concat_replicates)
  then have vals: "values_of w (sort_results ?all) = replicate (?M * count_list ?ws w) 1" for w
    using mset_values_of [OF sort_results_perm, of w ?all] by (intro mset_replicate_eq) simp
  have "count_list ?ws w < 2 ^ 27" for w
    using count_le_length [of ?ws w] length_extract_words [of content] job'(3) by linarith
  then have "?M * count_list ?ws w \<le> 2 ^ 20 * 2 ^ 27" for w using job'(2) by (intro mult_le_mono) (simp_all add: less_imp_le)
  then have bound: "?M * count_list ?ws w < 2 ^ 63" for w by (rule le_less_trans) simp
  have keys: "fst ` set ?all = set ?ws" using job'(1) mset_eq_setD [OF perm] by (auto simp: word_pairs_def image_image)
  have "tt_reducer tt = WordCountReducer_Reduce" using D(9) [OF task(3)] by (simp add: tracker_ok_def)
  moreover have "output_text (map (\<lambda>w. (w, total64 (values_of w (sort_results ?all)))) (sorted_list_of_set (set ?ws))) = job_text ?M content"
    by (simp add: output_text_def job_text_def comp_def vals replicate_ones(2) [OF bound] show_int64_nat [OF bound] del: of_nat_mult)
  ultimately show ?thesis
    using ExecuteReduceTask_totals [OF all, of tt can_write fs0] vals replicate_ones(1) [OF bound] out t(2) keys by simp
qed

lemma sys_inv_reduce:
  assumes inv: "sys_inv input output m content fs n es rm s" and job: "job_ok input output m content tts fs"
    and run: "ds_running s = xs @ (a, t) # ys" "t_type t = kReduce" "ds_tt s a = Some tt" and out: "can_write output"
    and exec: "ExecuteReduceTask (shuffle_dial (ds_tt s)) can_write t tt (ds_files s) = Inr fs'"
  shows "sys_inv input output m content fs (Suc n) es rm
    (s\<lparr>ds_files := fs', ds_running := xs @ ys, ds_executed := ds_executed s @ [(a, t)]\<rparr>)"
proof -
  note D = sys_invD [OF inv]
  have "task_ok input output (nat (sint m)) (word_pairs content) rm (ds_tt s) (a, t)" using D(7) run(1) by simp
  then have "fs' = (ds_files s)(output \<mapsto> job_text (nat (sint m)) content)"
    using reduce_output [where can_write = can_write, OF inv job _ run(2,3) out, of "ds_files s"] exec by simp
  then have "fs' = fs(output \<mapsto> job_text (nat (sint m)) content)" using D(10) by auto
  then show ?thesis using inv run(1,2) by (auto simp: sys_inv_def Let_def simp del: fun_upd_apply)
qed

section \<open>Reports\<close>

lemma parts_count:
  assumes "tracker_ok P don a tt" "(a, t) \<in> don"
  shows "length (remdups (map (\<lambda>(key, val). snd key) (tt_map_outputs tt))) = (if P = [] then 0 else 1)"
proof -
  let ?outs = "tt_map_outputs tt"
  have "um_get ?outs key \<noteq> None" if "(key, v) \<in> set ?outs" for key v
    using that by (metis domI dom_map_of_conv_image_fst fst_conv image_eqI um_get_def domIff)
  then have zero: "P \<noteq> [] \<and> snd key = 0" if "(key, v) \<in> set ?outs" for key v
    using that tracker_ok_get [OF assms(1), of key] by (metis snd_conv)
  have "(\<lambda>(key, val). snd key) ` set ?outs = (if P = [] then {} else {0})"
  proof (cases "P = []")
    case False
    then have "um_get ?outs (t_task_id t, 0) = Some (sort_results P)" using tracker_ok_get [OF assms(1), of "(t_task_id t, 0)"] assms(2) by auto
    then have "((t_task_id t, 0), sort_results P) \<in> set ?outs" by (rule um_get_set)
    then show ?thesis using zero False by force
  qed (use zero in fastforce)
  then show ?thesis by (simp add: length_remdups_card_conv)
qed

lemma sys_inv_map_report:
  assumes inv: "sys_inv input output m content fs n es rm s"
    and run: "ds_executed s = xs @ (a, t) # ys" "is_map t" "ds_tt s a = Some tt"
  shows "sys_inv input output m content fs (Suc n) (es @ [Reported (report_of t tt)]) (rm @ [(a, t)])
    (s\<lparr>ds_jt := TaskCompleted (report_of t tt) (ds_jt s), ds_executed := xs @ ys\<rparr>)"
proof -
  note D = sys_invD [OF inv]
  let ?P = "word_pairs content"
  have tt: "tracker_ok ?P (set (maps_in (ds_executed s) @ rm)) a tt" using D(9) run(3) by blast
  have mem: "(a, t) \<in> set (maps_in (ds_executed s) @ rm)" using run(1,2) by simp
  have "tt_host tt = fst a" "tt_shuffle_port tt = snd a" using tt unfolding tracker_ok_def by blast+
  then have parts: "report_of t tt = MapDone (t_task_id t) (word_of_nat (if ?P = [] then 0 else 1)) (fst a) (snd a)"
    using run(2) by (simp add: report_of_def parts_count [OF tt mem])
  have locs: "dj_map_output_locations (TaskCompleted (report_of t tt) (ds_jt s)) = locs ?P (rm @ [(a, t)])"
    using D(5) by (simp add: TaskCompleted_def parts locs_def loc_of_def loop_count_def)
  have "length rm < nat (sint m)" using reported_bound(1) [OF inv] run(1,2) by simp
  then have "task_ok input output (nat (sint m)) ?P (rm @ [(a, t)]) (ds_tt s) x" if "x \<in> set (ds_running s @ xs @ ys)" for x
    using D(7) [of x] that run(1) by (auto simp: task_ok_def split: if_splits)
  moreover have "task_ok input output (nat (sint m)) ?P rm (ds_tt s) (a, t)" using D(7) run(1) by simp
  then have "ds_tt s a \<noteq> None" "length (t_task_id t) \<le> 20" by (simp_all add: task_ok_def)
  moreover have "set (maps_in (xs @ ys) @ rm @ [(a, t)]) = set (maps_in (ds_executed s) @ rm)" using run(1,2) by auto
  then have "tracker_ok ?P (set (maps_in (xs @ ys) @ rm @ [(a, t)])) b u" if "ds_tt s b = Some u" for b u using D(9) [OF that] by (simp only:)
  moreover have "mset (ids (maps_in (ds_running s) @ maps_in (xs @ ys) @ rm @ [(a, t)])) = mset (map t_task_id (filter is_map (assigned es)))"
    using D(6) run(1,2) by simp
  moreover have "dist_inv input m 1 (es @ [Reported (report_of t tt)]) (TaskCompleted (report_of t tt) (ds_jt s))"
    using D(1) by (rule dist_inv_report)
  moreover have "dj_output_path (TaskCompleted (report_of t tt) (ds_jt s)) = output" using D(3) by (simp add: TaskCompleted_def parts)
  ultimately show ?thesis
    unfolding sys_inv_def Let_def using D(2,4,8,10-12) locs run(1,2) parts by (auto simp del: maps_in_simps fun_upd_apply)
qed

lemma sys_inv_reduce_report:
  assumes inv: "sys_inv input output m content fs n es rm s"
    and run: "ds_executed s = xs @ (a, t) # ys" "t_type t = kReduce" "ds_tt s a = Some tt"
  shows "sys_inv input output m content fs (Suc n) (es @ [Reported (report_of t tt)]) rm
    (s\<lparr>ds_jt := TaskCompleted (report_of t tt) (ds_jt s), ds_executed := xs @ ys\<rparr>)"
proof -
  note D = sys_invD [OF inv]
  have rep: "report_of t tt = ReduceDone (t_task_id t)" using run(2) by (simp add: report_of_def)
  have "dist_inv input m 1 (es @ [Reported (report_of t tt)]) (TaskCompleted (report_of t tt) (ds_jt s))"
    using D(1) by (rule dist_inv_report)
  moreover have "ds_files s = fs(output \<mapsto> job_text (nat (sint m)) content)" using D(11) run(1,2) by auto
  ultimately show ?thesis
    unfolding sys_inv_def Let_def using D(2-9,12) run(1,2) by (auto simp: rep TaskCompleted_def simp del: fun_upd_apply)
qed

lemma report_size:
  assumes inv: "sys_inv input output m content fs n es rm s"
    and run: "(a, t) \<in> set (ds_executed s)" "ds_tt s a = Some tt"
  shows "report_ok (report_of t tt) \<and> length (enc_report (report_of t tt)) + 4 \<le> max_message"
proof -
  note D = sys_invD [OF inv]
  have "length (t_task_id t) \<le> 20" using D(7) [of "(a, t)"] run(1) by (simp add: task_ok_def)
  moreover have "length (tt_host tt) < 256" using D(9) [OF run(2)] by (simp add: tracker_ok_def)
  ultimately show ?thesis by (simp add: report_of_def fits_int32_def max_message_def)
qed

section \<open>Steps that are always possible\<close>

lemma can_poll:
  assumes inv: "sys_inv input output m content fs n es rm s" and job: "job_ok input output m content tts fs" and n: "n < 2 ^ 31"
    and a: "ds_tt s a = Some tt"
  shows "dsys_step hash can_write s (s\<lparr>ds_jt := snd (PollForTask (ds_jt s)),
     ds_running := ds_running s @ (case map_option received (fst (PollForTask (ds_jt s))) of None \<Rightarrow> [] | Some t \<Rightarrow> [(a, t)])\<rparr>)"
proof -
  have host: "length (tt_host tt) < 256" using sys_invD(9) [OF inv a] by (simp add: tracker_ok_def)
  have msg: "Task_ok (fst (PollForTask (ds_jt s)))" "length (enc_Task (fst (PollForTask (ds_jt s)))) < 2 ^ 32"
    using poll_message [OF inv job n, of "fst (PollForTask (ds_jt s))" "snd (PollForTask (ds_jt s))"] by simp_all
  obtain b where "ReadTask (InputBuffer_new (enc_Task (fst (PollForTask (ds_jt s))))) = Inr (map_option received (fst (PollForTask (ds_jt s))), b)"
    using ReadTask_enc [OF msg] by blast
  moreover have "Status_ok Status_OK" by (simp add: Status_ok_def Status_OK_def)
  ultimately show ?thesis using dsys_step.sys_poll [OF a exchange_poll [OF host msg(2)]] by blast
qed

lemma can_execute:
  assumes inv: "sys_inv input output m content fs n es rm s" and job: "job_ok input output m content tts fs"
    and run: "ds_running s = (a, t) # ys" and out: "can_write output"
  shows "\<exists>u. dsys_step hash can_write s u \<and> ds_running u = ys \<and> ds_executed u = ds_executed s @ [(a, t)] \<and> ds_jt u = ds_jt s
    \<and> (\<forall>b. ds_tt s b \<noteq> None \<longrightarrow> ds_tt u b \<noteq> None) \<and> sys_inv input output m content fs (Suc n) es rm u"
proof -
  note D = sys_invD [OF inv]
  have task: "task_ok input output (nat (sint m)) (word_pairs content) rm (ds_tt s) (a, t)" using D(7) run by simp
  then obtain tt where tt: "ds_tt s a = Some tt" by (auto simp: task_ok_def)
  show ?thesis
  proof (cases "is_map t")
    case True
    have "ds_files s input = Some content" using D(10) job by (auto simp: job_ok_def)
    moreover have "tt_mapper tt = WordCountMapper_Map" using D(9) [OF tt] by (simp add: tracker_ok_def)
    ultimately obtain tt' where exec: "ExecuteMapTask hash t (ds_files s) tt = Inr tt'"
      using ExecuteMapTask_emits [of "ds_files s" t tt "word_pairs content" hash] task True job
      by (simp add: task_ok_def readable_def emits_words word_pairs_def job_ok_def)
    show ?thesis
      using dsys_step.sys_map [of s "[]" a t ys tt hash tt'] sys_inv_map [OF inv job, of "[]" a t ys tt hash tt'] run True tt exec by fastforce
  next
    case False
    then have red: "t_type t = kReduce" by (simp add: not_map)
    have exec: "ExecuteReduceTask (shuffle_dial (ds_tt s)) can_write t tt (ds_files s) = Inr ((ds_files s)(output \<mapsto> job_text (nat (sint m)) content))"
      using inv job task red tt out by (rule reduce_output)
    have "ds_running s = [] @ (a, t) # ys" using run by simp
    then show ?thesis
      using dsys_step.sys_reduce [OF _ red tt exec] sys_inv_reduce [where can_write = can_write, OF inv job _ red tt out exec] by fastforce
  qed
qed

lemma can_report:
  assumes inv: "sys_inv input output m content fs n es rm s" and ex: "ds_executed s = (b, t) # ys"
  shows "\<exists>u es' rm'. dsys_step hash can_write s u \<and> sys_inv input output m content fs (Suc n) es' rm' u \<and> ds_tt u = ds_tt s
    \<and> ds_running u = ds_running s \<and> ds_executed u = ys \<and> assigned es' = assigned es"
proof -
  have "task_ok input output (nat (sint m)) (word_pairs content) rm (ds_tt s) (b, t)" using sys_invD(7) [OF inv] ex by simp
  then obtain tt where tt: "ds_tt s b = Some tt" by (auto simp: task_ok_def)
  let ?rep = "report_of t tt"
  let ?u = "s\<lparr>ds_jt := TaskCompleted ?rep (ds_jt s), ds_executed := ys\<rparr>"
  have ex': "ds_executed s = [] @ (b, t) # ys" using ex by simp
  obtain reply where "exchange dist_handlers 2 (report_request t tt) (ds_jt s) = (reply, TaskCompleted ?rep (ds_jt s))"
    using exchange_report [of ?rep "ds_jt s"] report_size [OF inv _ tt, of t] ex by (metis list.set_intros(1) prod.collapse report_request_enc)
  then have "dsys_step hash can_write s ?u" using dsys_step.sys_report [OF ex' tt] by simp
  moreover have "\<exists>rm'. sys_inv input output m content fs (Suc n) (es @ [Reported ?rep]) rm' ?u"
    using sys_inv_map_report [OF inv ex' _ tt] sys_inv_reduce_report [OF inv ex' _ tt] not_map [of t] by (cases "is_map t") auto
  moreover have "assigned (es @ [Reported ?rep]) = assigned es" by simp
  ultimately show ?thesis by fastforce
qed

section \<open>The property\<close>

lemma sys_inv_step:
  assumes "dsys_step hash can_write s u" "sys_inv input output m content fs n es rm s" "job_ok input output m content tts fs"
    and "n < 2 ^ 31" "can_write output"
  shows "\<exists>es rm. sys_inv input output m content fs (Suc n) es rm u"
  using assms(1)
proof cases
  case (sys_poll a tt st resp jt task b)
  have host: "length (tt_host tt) < 256" using sys_invD(9) [OF assms(2) sys_poll(2)] by (simp add: tracker_ok_def)
  obtain task' jt' where p: "PollForTask (ds_jt s) = (task', jt')" by fastforce
  note msg = poll_message [OF assms(2-4) p]
  have "resp = enc_Task task'" "jt = jt'" using exchange_poll [OF host] msg p sys_poll(3) by simp_all
  moreover from this have "task = map_option received task'" using ReadTask_enc msg sys_poll(5) by fastforce
  ultimately show ?thesis using sys_inv_poll [OF assms(2-4) p, of a] sys_poll(1,2) by auto
next
  case (sys_poll_failed a tt st resp jt)
  have host: "length (tt_host tt) < 256" using sys_invD(9) [OF assms(2) sys_poll_failed(2)] by (simp add: tracker_ok_def)
  obtain task' jt' where p: "PollForTask (ds_jt s) = (task', jt')" by fastforce
  then have "st = Status_OK" using exchange_poll [OF host] poll_message [OF assms(2-4) p] sys_poll_failed(3) by simp
  then show ?thesis using sys_poll_failed(4) by simp
next
  case (sys_map xs a t ys tt tt')
  then show ?thesis using sys_inv_map [OF assms(2,3)] by blast
next
  case (sys_reduce xs a t ys tt fs')
  then show ?thesis using sys_inv_reduce [where can_write = can_write, OF assms(2,3) sys_reduce(2-4) assms(5) sys_reduce(5)] sys_reduce(1) by blast
next
  case (sys_report xs a t ys tt reply jt)
  then have "jt = TaskCompleted (report_of t tt) (ds_jt s)"
    using report_size [OF assms(2), of a t tt] exchange_report [of "report_of t tt" "ds_jt s"] by (simp add: report_request_enc)
  then show ?thesis
    using sys_report sys_inv_map_report [OF assms(2)] sys_inv_reduce_report [OF assms(2)] not_map by (cases "is_map t") blast+
qed

lemma sys_inv_start:
  assumes "job_ok input output m content tts fs"
  shows "sys_inv input output m content fs 0 [] [] (dsys_submitted input output m 1 tts fs)"
proof -
  have "0 \<le> sint m" using assms by (simp add: job_ok_def)
  then have "dist_inv input m 1 [] (DistSubmitJob input output m 1 DistJobTracker_new)" by (rule dist_inv_submit)
  moreover have "tracker_ok (word_pairs content) {} a tt" if "tts a = Some tt" for a tt
  proof -
    have "length (fst a) < 256 \<and> tt = TaskTracker_new (fst a) (snd a) WordCountMapper_Map WordCountReducer_Reduce"
      using assms that unfolding job_ok_def by blast
    then show ?thesis by (simp add: tracker_ok_def TaskTracker_new_def del: split_paired_All)
  qed
  ultimately show ?thesis
    by (simp add: sys_inv_def Let_def dsys_submitted_def DistSubmitJob_def DistJobTracker_new_def locs_def del: split_paired_All)
qed

lemma sys_inv_run:
  assumes "dsys_run hash can_write (dsys_submitted input output m 1 tts fs) n s" "job_ok input output m content tts fs"
    and "n < 2 ^ 31" "can_write output"
  shows "\<exists>es rm. sys_inv input output m content fs n es rm s"
  using assms
proof (induction rule: dsys_run.induct)
  case run_start
  then show ?case using sys_inv_start by blast
next
  case (run_step n s u)
  then obtain es rm where "sys_inv input output m content fs n es rm s" by auto
  then show ?case using sys_inv_step [OF run_step.hyps(2)] run_step.prems by simp
qed

lemma dsys_run_head: "dsys_run hash can_write u k v \<Longrightarrow> dsys_step hash can_write s u \<Longrightarrow> dsys_run hash can_write s (Suc k) v"
  by (induction rule: dsys_run.induct) (auto intro: dsys_run.intros)

lemma dsys_run_trans: "dsys_run hash can_write u k v \<Longrightarrow> dsys_run hash can_write s n u \<Longrightarrow> dsys_run hash can_write s (n + k) v"
  by (induction rule: dsys_run.induct) (auto intro: dsys_run.intros)

text \<open>The steps that the job still needs, apart from the last poll: three for a task that is not assigned yet, two for a
  task that is running, one for a task that has been executed.\<close>

definition work :: "nat \<Rightarrow> dist_event list \<Rightarrow> dsys \<Rightarrow> nat" where
  "work M es s = 3 * (M + 1 - length (assigned es)) + 2 * length (ds_running s) + length (ds_executed s)"

lemma length_maps_reduces: "length (maps_in xs) + length (reduces_in xs) = length xs"
  by (simp add: maps_in_def reduces_in_def sum_length_filter_compl)

lemma length_maps_others: "length (filter is_map ts) + length (filter (\<lambda>t. \<not> is_map t) ts) = length ts"
  by (rule sum_length_filter_compl)

lemma task_balance:
  assumes "sys_inv input output m content fs n es rm s"
  shows "length (ds_running s) + length (ds_executed s) + length rm + reduce_reports es = length (assigned es)"
proof -
  note D = sys_invD [OF assms]
  have "length (maps_in (ds_running s)) + length (maps_in (ds_executed s)) + length rm = length (filter is_map (assigned es))"
    using mset_eq_length [OF D(6)] by simp
  then show ?thesis
    using D(12) length_maps_reduces [of "ds_running s"] length_maps_reduces [of "ds_executed s"] length_maps_others [of "assigned es"] by simp
qed

lemma idle_done:
  assumes inv: "sys_inv input output m content fs n es rm s" and idle: "ds_running s = []" "ds_executed s = []"
    and all: "length (assigned es) = nat (sint m) + 1"
  shows "length rm = nat (sint m)" "reduce_reports es = 1"
proof -
  note D = sys_invD [OF inv]
  have "map task_key (assigned es) = task_plan ''job_001'' (nat (sint m)) 1" using dist_inv_assigned [OF D(1)] all by simp
  then have "length (filter (\<lambda>x. fst (snd x) \<noteq> kMap) (map task_key (assigned es))) = 1"
    by (simp add: task_plan_def filter_map comp_def)
  then have "length (filter (\<lambda>t. \<not> is_map t) (assigned es)) = 1"
    by (simp add: filter_map comp_def task_key_def)
  then show "reduce_reports es = 1" using D(12) idle by simp
  then show "length rm = nat (sint m)" using task_balance [OF inv] idle all by simp
qed

lemma idle_poll:
  assumes inv: "sys_inv input output m content fs n es rm s" and job: "job_ok input output m content tts fs" and n: "n < 2 ^ 31"
    and idle: "ds_running s = []" "ds_executed s = []" and more: "length (assigned es) < nat (sint m) + 1"
  shows "\<exists>t. fst (PollForTask (ds_jt s)) = Some t"
proof -
  note D = sys_invD [OF inv]
  have m: "0 \<le> sint m" using job by (simp add: job_ok_def)
  have r: "nat (sint (1 :: int32)) = 1" by simp
  let ?p = "PollForTask (ds_jt s)"
  have "case fst ?p of None \<Rightarrow> nat (sint m) \<le> length (assigned es) \<and> (map_reports es < nat (sint m) \<or> length (assigned es) = nat (sint m) + nat (sint (1 :: int32)))
      | Some t \<Rightarrow> t_type t = kReduce \<longrightarrow> nat (sint m) \<le> map_reports es"
    using poll_step [OF D(1) m, of "fst ?p" "snd ?p"] D(2) n by simp
  moreover have "length (filter is_map (assigned es)) = length rm" using mset_eq_length [OF D(6)] idle by simp
  moreover have "length (filter is_map (assigned es)) = nat (sint m)" if "nat (sint m) \<le> length (assigned es)"
  proof -
    have "length (assigned es) = nat (sint m)" using that more by simp
    then have "map task_key (assigned es) = map (\<lambda>i. (''job_001'' @ ''_m_'' @ show_nat i, kMap, word_of_nat i)) (rev [0..<nat (sint m)])"
      using dist_inv_assigned [OF D(1)] by (simp add: task_plan_def)
    then have "length (filter (\<lambda>x. fst (snd x) = kMap) (map task_key (assigned es))) = nat (sint m)" by (simp add: filter_map comp_def)
    then show ?thesis by (simp add: filter_map comp_def task_key_def)
  qed
  ultimately show ?thesis using more D(4) r by (auto split: option.splits)
qed

lemma can_finish:
  assumes "sys_inv input output m content fs n es rm s" "job_ok input output m content tts fs" "ds_tt s a \<noteq> None"
    and "can_write output" "n + work (nat (sint m)) es s < 2 ^ 31"
  shows "\<exists>k u. k \<le> work (nat (sint m)) es s + 1 \<and> dsys_run hash can_write s k u \<and> dj_job_done (ds_jt u)"
  using assms
proof (induction "work (nat (sint m)) es s" arbitrary: n es rm s rule: less_induct)
  case less
  note inv = less.prems(1) and job = less.prems(2) and a = less.prems(3) and out = less.prems(4) and bound = less.prems(5)
  note D = sys_invD [OF inv]
  have n: "n < 2 ^ 31" using bound by simp
  have via: ?case
    if u: "dsys_step hash can_write s u" "sys_inv input output m content fs (Suc n) es' rm' u" "ds_tt u a \<noteq> None"
      "work (nat (sint m)) es' u < work (nat (sint m)) es s" for u es' rm'
  proof -
    have "Suc n + work (nat (sint m)) es' u < 2 ^ 31" using u(4) bound by linarith
    then obtain k v where "k \<le> work (nat (sint m)) es' u + 1" "dsys_run hash can_write u k v" "dj_job_done (ds_jt v)"
      using less.hyps [OF u(4,2) job u(3) out] by blast
    then show ?thesis using u(1,4) by (intro exI [of _ "Suc k"] exI [of _ v]) (auto intro: dsys_run_head)
  qed
  obtain tt where tt: "ds_tt s a = Some tt" using a by blast
  let ?p = "PollForTask (ds_jt s)"
  consider b t ys where "ds_running s = (b, t) # ys" | b t ys where "ds_running s = []" "ds_executed s = (b, t) # ys"
    | "ds_running s = []" "ds_executed s = []" "length (assigned es) < nat (sint m) + 1"
    | "ds_running s = []" "ds_executed s = []" "length (assigned es) = nat (sint m) + 1"
    using D(1) by (cases "ds_running s"; cases "ds_executed s") (force simp: dist_inv_def Let_def)+
  then show ?case
  proof cases
    case (1 b t ys)
    obtain u where u: "dsys_step hash can_write s u" "ds_running u = ys" "ds_executed u = ds_executed s @ [(b, t)]"
        "ds_tt u a \<noteq> None" "sys_inv input output m content fs (Suc n) es rm u"
      using can_execute [where can_write = can_write, OF inv job 1 out, of hash] a by blast
    then have "work (nat (sint m)) es u < work (nat (sint m)) es s" using 1 by (simp add: work_def)
    then show ?thesis by (rule via [OF u(1,5,4)])
  next
    case (2 b t ys)
    obtain u es' rm' where u: "dsys_step hash can_write s u" "sys_inv input output m content fs (Suc n) es' rm' u" "ds_tt u = ds_tt s"
        "ds_running u = ds_running s" "ds_executed u = ys" "assigned es' = assigned es"
      using can_report [OF inv 2(2), of hash can_write] by blast
    then have "work (nat (sint m)) es' u < work (nat (sint m)) es s" using 2 by (simp add: work_def)
    then show ?thesis using via [OF u(1,2)] u(3) a by simp
  next
    case 3
    obtain t where t: "fst ?p = Some t" using idle_poll [OF inv job n 3] by blast
    then show ?thesis
      using can_poll [OF inv job n tt, of hash can_write] sys_inv_poll [OF inv job n, of "Some t" "snd ?p" a] a 3 via
      by (simp add: prod_eq_iff work_def)
  next
    case 4
    have "0 \<le> sint m" using job by (simp add: job_ok_def)
    then have "dj_job_done (snd ?p)"
      using poll_finishes [OF D(1)] 4(3) idle_done [OF inv 4] D(2,4) n by simp
    then show ?thesis
      using dsys_run_head [OF dsys_run.run_start can_poll [OF inv job n tt]] by (intro exI [of _ "Suc 0"] exI conjI) (assumption | simp)+
  qed
qed



definition sample_trackers :: "addr \<rightharpoonup> TaskTracker" where
  "sample_trackers = [(''h1'', 9) \<mapsto> TaskTracker_new ''h1'' 9 WordCountMapper_Map WordCountReducer_Reduce,
     (''h2'', 9) \<mapsto> TaskTracker_new ''h2'' 9 WordCountMapper_Map WordCountReducer_Reduce]"

lemma sample_dist_job: "job_ok ''in'' ''out'' 2 ''b a b'' sample_trackers [''in'' \<mapsto> ''b a b'']"
  by (auto simp: job_ok_def sample_trackers_def)

lemma sample_text: "job_text 2 ''b a b'' = ''a'' @ [tab] @ ''2'' @ [nl] @ ''b'' @ [tab] @ ''4'' @ [nl]"
  by code_simp



end
