(* ===== verification/TrackerProcess.thy ===== *)
theory TrackerProcess
  imports TaskTracker RpcQueue
begin

text \<open>
  The life of a \<open>TaskTracker\<close> process (\<^verbatim>\<open>src/mapred/task_tracker.h\<close>): its shuffle server, its connection to the job tracker
  and the flag of its poll thread, in \<open>Start\<close>, \<open>Stop\<close> and the destructor. What the threads do in between is in the
  theories \<open>TaskTracker\<close> and \<open>DistCluster\<close>.

  The same for the process of the distributed job tracker (\<^verbatim>\<open>src/mapred/dist_job_tracker.h\<close>). Its class starts a thread that runs \<open>SpecLoop\<close>;
  that function and the members that go with the thread are not declared anywhere, so only what \<open>Start\<close> and \<open>Stop\<close>
  themselves do with the flag and the thread is modelled.
\<close>

record tracker_process =
  tp_tracker :: TaskTracker
  tp_client :: RpcClient
  tp_server :: RpcServer
  tp_running :: bool

definition tracker_process_new :: "string \<Rightarrow> int32 \<Rightarrow> mapper \<Rightarrow> reducer \<Rightarrow> tracker_process" where
  "tracker_process_new hst port mf rf = \<lparr>tp_tracker = TaskTracker_new hst port mf rf, tp_client = RpcClient_new,
     tp_server = RpcServer_new 4, tp_running = False\<rparr>"

definition TaskTracker_Start :: "sockets \<Rightarrow> tracker_process \<Rightarrow> bool \<times> tracker_process" where
  "TaskTracker_Start sk tp =
     (let (served, rs) = Server_Start (sk_listen sk) (sk_binds sk) (sk_listens sk) (tp_server tp);
          tp1 = tp\<lparr>tp_server := rs\<rparr>
      in if \<not> served then (False, tp1)
         else
           let (connected, rc) = Connect (sk_client sk) (sk_connects sk) (tp_client tp1);
               tp2 = tp1\<lparr>tp_client := rc\<rparr>
           in if \<not> connected then (False, tp2) else (True, tp2\<lparr>tp_running := True\<rparr>))"

definition TaskTracker_Stop :: "tracker_process \<Rightarrow> tracker_process" where
  "TaskTracker_Stop tp =
     (let tp1 = tp\<lparr>tp_running := False\<rparr>;
          tp2 = tp1\<lparr>tp_client := Disconnect (tp_client tp1)\<rparr>
      in tp2\<lparr>tp_server := Server_Stop (tp_server tp2)\<rparr>)"

text \<open>The destructor, and after it those of the server and of the client.\<close>

definition TaskTracker_destroy :: "tracker_process \<Rightarrow> tracker_process" where
  "TaskTracker_destroy tp =
     (let tp1 = (if tp_running tp then TaskTracker_Stop tp else tp);
          tp2 = tp1\<lparr>tp_server := Server_Stop (tp_server tp1)\<rparr>
      in tp2\<lparr>tp_client := Disconnect (tp_client tp2)\<rparr>)"

text \<open>Nothing stays open: whatever \<open>Start\<close> returned, after the destructor the server is stopped and the connection closed;
  both sockets of a started tracker are closed exactly once, with or without a call of \<open>Stop\<close> before.\<close>

lemma tracker_destroyed:
  assumes "TaskTracker_Start sk (tracker_process_new hst port mf rf) = (ok, tp)" "tp' \<in> {tp, TaskTracker_Stop tp}"
  defines "end \<equiv> TaskTracker_destroy tp'"
  shows "\<not> rs_running (tp_server end) \<and> \<not> IsConnected (tp_client end)
    \<and> (ok \<longrightarrow> rs_closed (tp_server end) = [sk_listen sk] \<and> rc_closed (tp_client end) = [sk_client sk])"
  using assms(1,2) unfolding end_def
  by (auto simp: TaskTracker_Start_def TaskTracker_Stop_def TaskTracker_destroy_def tracker_process_new_def Server_Start_def Server_Stop_def
      RpcServer_new_def RpcClient_new_def Connect_def Disconnect_def IsConnected_def Let_def split: if_splits)

section \<open>The process of the distributed job tracker\<close>

record jobtracker_process =
  jp_tracker :: DistJobTracker
  jp_server :: RpcServer
  jp_spec_running :: bool
  jp_spec_joinable :: bool   \<comment> \<open>\<open>spec_thread_\<close> has been started and not joined\<close>

text \<open>The constructor; \<open>spec\<close> is the value of the flag, which the constructor does not set.\<close>

definition jobtracker_process_new :: "bool \<Rightarrow> jobtracker_process" where
  "jobtracker_process_new spec = \<lparr>jp_tracker = DistJobTracker_new, jp_server = RpcServer_new 4, jp_spec_running = spec,
     jp_spec_joinable = False\<rparr>"

text \<open>Assigning a thread to a \<open>std::thread\<close> that is still joinable ends the process (\<open>None\<close>).\<close>

definition JobTracker_Start :: "int \<Rightarrow> bool \<Rightarrow> bool \<Rightarrow> jobtracker_process \<Rightarrow> (bool \<times> jobtracker_process) option" where
  "JobTracker_Start fd binds listens jp =
     (let (served, rs) = Server_Start fd binds listens (jp_server jp);
          jp1 = jp\<lparr>jp_server := rs\<rparr>
      in if \<not> served then Some (False, jp1)
         else if jp_spec_joinable jp1 then None
         else Some (True, jp1\<lparr>jp_spec_running := True, jp_spec_joinable := True\<rparr>))"

definition JobTracker_Stop :: "jobtracker_process \<Rightarrow> jobtracker_process" where
  "JobTracker_Stop jp =
     (let jp1 = jp\<lparr>jp_spec_running := False\<rparr>;
          jp2 = jp1\<lparr>jp_server := Server_Stop (jp_server jp1)\<rparr>
      in jp2\<lparr>jp_spec_joinable := False\<rparr>)"

definition DistIsJobDone :: "jobtracker_process \<Rightarrow> bool" where
  "DistIsJobDone jp = dj_job_done (jp_tracker jp)"

text \<open>The destructor stops the server and does not join the thread; \<open>None\<close> is \<open>std::terminate\<close>.\<close>

definition JobTracker_destroy :: "jobtracker_process \<Rightarrow> jobtracker_process option" where
  "JobTracker_destroy jp =
     (let jp1 = jp\<lparr>jp_server := Server_Stop (jp_server jp)\<rparr>
      in if jp_spec_joinable jp1 then None else Some jp1)"

text \<open>A tracker that was started and stopped is destroyed with its socket closed exactly once; one that was started and not
  stopped ends the process when it is destroyed, unlike a \<open>TaskTracker\<close>. The job itself is as it was.\<close>

lemma jobtracker_destroyed:
  assumes "JobTracker_Start fd True True (jobtracker_process_new spec) = Some (True, jp)"
  shows "JobTracker_destroy jp = None"
    and "\<exists>jp'. JobTracker_destroy (JobTracker_Stop jp) = Some jp' \<and> \<not> rs_running (jp_server jp') \<and> rs_closed (jp_server jp') = [fd]
      \<and> DistIsJobDone jp' = DistIsJobDone jp"
  using assms
  by (auto simp: JobTracker_Start_def JobTracker_Stop_def JobTracker_destroy_def jobtracker_process_new_def DistIsJobDone_def
      Server_Start_def Server_Stop_def RpcServer_new_def Let_def split: if_splits)

end
