(* ===== verification/RecordIO.thy ===== *)
theory RecordIO
  imports MapApi
begin

text \<open>
  The interface \<open>RecordReader\<close> of \<^verbatim>\<open>src/mapred/api/input_format.h\<close> and the rest of that file: closing a reader, the writer of
  text files and the two formats that create readers and writers.

  The locale \<open>record_reader\<close> is what a loop over \<open>Next\<close> relies on: a reader has a list of records left, \<open>Next\<close> hands out
  the first of them, and at the end it fails and goes on failing. \<open>TextRecordReader\<close> is an interpretation here,
  \<open>NdfsLineRecordReader\<close> in the theory \<open>NdfsIO\<close>.
\<close>

section \<open>Loops over a reader\<close>

text \<open>\<open>while (reader->Next(key, value)) body(key, value)\<close>, with a bound on the rounds.\<close>

fun read_records :: "('r \<Rightarrow> ((int64 \<times> string) option \<times> 'r) result) \<Rightarrow> (int64 \<Rightarrow> string \<Rightarrow> 's \<Rightarrow> 's result) \<Rightarrow> nat
    \<Rightarrow> 'r \<Rightarrow> 's \<Rightarrow> 's result option" where
  "read_records nxt body 0 r s = None"
| "read_records nxt body (Suc n) r s =
     (case nxt r of
        Inl e \<Rightarrow> Some (Inl e)
      | Inr (None, r1) \<Rightarrow> Some (Inr s)
      | Inr (Some (key, value), r1) \<Rightarrow>
          (case body key value s of Inl e \<Rightarrow> Some (Inl e) | Inr s1 \<Rightarrow> read_records nxt body n r1 s1))"

locale record_reader =
  fixes nxt :: "'r \<Rightarrow> ((int64 \<times> string) option \<times> 'r) result"
    and left :: "'r \<Rightarrow> (int64 \<times> string) list"
    and ok :: "'r \<Rightarrow> bool"
  assumes at_end: "ok r \<Longrightarrow> left r = [] \<Longrightarrow> \<exists>r1. nxt r = Inr (None, r1) \<and> ok r1 \<and> left r1 = []"
    and at_record: "ok r \<Longrightarrow> left r = kv # kvs \<Longrightarrow> \<exists>r1. nxt r = Inr (Some kv, r1) \<and> ok r1 \<and> left r1 = kvs"
begin

text \<open>The loop ends, and it runs its body on the records that were left, in order.\<close>

lemma loop:
  assumes "ok r" "length (left r) < n"
  shows "read_records nxt body n r s = Some (fold_result (\<lambda>(key, value). body key value) (left r) s)"
  using assms
proof (induction n arbitrary: r s)
  case (Suc n)
  show ?case
  proof (cases "left r")
    case Nil
    then show ?thesis using at_end [OF Suc.prems(1)] by auto
  next
    case (Cons kv kvs)
    then obtain r1 where "nxt r = Inr (Some kv, r1)" "ok r1" "left r1 = kvs"
      using at_record [OF Suc.prems(1)] by blast
    then show ?thesis using Suc.IH [of r1] Suc.prems(2) Cons by (cases kv) (auto split: sum.split)
  qed
qed simp

text \<open>The loop that collects the records.\<close>

lemma all_records:
  assumes "ok r" "length (left r) < n"
  shows "read_records nxt (\<lambda>key value acc. Inr (acc @ [(key, value)])) n r [] = Some (Inr (left r))"
  using loop [OF assms, of "\<lambda>key value acc. Inr (acc @ [(key, value)])" "[]"] fold_result_snoc [of "left r" "[]"] by simp

text \<open>Once \<open>Next\<close> has failed, it fails for ever.\<close>

lemma stays_at_end:
  assumes "ok r" "nxt r = Inr (None, r1)"
  shows "\<exists>r2. nxt r1 = Inr (None, r2)"
proof (cases "left r")
  case Nil
  then show ?thesis using at_end [OF assms(1)] at_end [of r1] assms(2) by auto
next
  case (Cons kv kvs)
  then show ?thesis using at_record [OF assms(1)] assms(2) by auto
qed

end

section \<open>Text files\<close>

text \<open>What a \<open>TextRecordReader\<close> still has to hand out, and when its position can hold the offsets.\<close>

definition text_left :: "TextRecordReader \<Rightarrow> (int64 \<times> string) list" where
  "text_left r =
     (if if_eof (tr_file r) \<or> if_fail (tr_file r) then []
      else with_offsets (unat (tr_pos r)) (getlines nl (if_rest (tr_file r))))"

definition text_ok :: "TextRecordReader \<Rightarrow> bool" where
  "text_ok r \<longleftrightarrow> unat (tr_pos r) < 2 ^ 63
     \<and> (if_eof (tr_file r) \<or> if_fail (tr_file r) \<or> unat (tr_pos r) + length (if_rest (tr_file r)) + 1 < 2 ^ 63)"

lemma text_pos: "text_ok r \<Longrightarrow> tr_pos r = 0 \<or> 0 < sint (tr_pos r)"
  using pos_word_of_nat [of "unat (tr_pos r)"] by (simp add: text_ok_def)

lemma text_at_end:
  assumes "text_ok r" "text_left r = []"
  shows "\<exists>r1. Text_Next r = Inr (None, r1) \<and> text_ok r1 \<and> text_left r1 = []"
proof -
  have "if_eof (tr_file r) \<or> if_fail (tr_file r) \<or> if_rest (tr_file r) = []"
    using assms(2) by (auto simp: text_left_def getlines.simps [of nl "if_rest (tr_file r)"] split: if_splits)
  then show ?thesis
    using text_pos [OF assms(1)] assms(1) by (auto simp: Text_Next_def getline_def Let_def text_ok_def text_left_def)
qed

lemma text_at_record:
  assumes "text_ok r" "text_left r = kv # kvs"
  shows "\<exists>r1. Text_Next r = Inr (Some kv, r1) \<and> text_ok r1 \<and> text_left r1 = kvs"
proof -
  let ?n = "unat (tr_pos r)" and ?s = "if_rest (tr_file r)"
  let ?l = "takeWhile (\<lambda>c. c \<noteq> nl) ?s" and ?t = "tl (dropWhile (\<lambda>c. c \<noteq> nl) ?s)"
  have good: "\<not> if_eof (tr_file r)" "\<not> if_fail (tr_file r)" using assms(2) by (auto simp: text_left_def split: if_splits)
  then have stream: "tr_file r = \<lparr>if_rest = ?s, if_eof = False, if_fail = False\<rparr>" by (cases "tr_file r") simp
  have left: "with_offsets ?n (getlines nl ?s) = kv # kvs" using assms(2) good by (simp add: text_left_def)
  then have s: "?s \<noteq> []" by (auto simp: getlines.simps [of nl ?s] split: if_splits)
  have n: "?n + length ?s + 1 < 2 ^ 63" using assms(1) good by (simp add: text_ok_def)
  have "getlines nl ?s = ?l # getlines nl ?t" using s by (subst getlines.simps) simp
  then have kv: "kv = (word_of_nat ?n, ?l)" "kvs = with_offsets (?n + length ?l + 1) (getlines nl ?t)"
    using left by simp_all
  have "length ?l + length (dropWhile (\<lambda>c. c \<noteq> nl) ?s) = length ?s" by (metis length_append takeWhile_dropWhile_id)
  moreover have "nl \<in> set ?s \<longleftrightarrow> dropWhile (\<lambda>c. c \<noteq> nl) ?s \<noteq> []" by (auto simp: dropWhile_eq_Nil_conv)
  ultimately have len: "length ?l \<le> length ?s" "nl \<in> set ?s \<Longrightarrow> length ?l + length ?t + 1 \<le> length ?s"
    by (cases "dropWhile (\<lambda>c. c \<noteq> nl) ?s"; simp)+
  have "?n + length ?l + 1 < 2 ^ 64" using n len(1) by simp
  moreover have "unat (word_of_nat m :: int64) = m" if "m < 2 ^ 64" for m
    using that by (simp add: unat_of_nat take_bit_nat_eq_self)
  ultimately have pos: "unat (word_of_nat (?n + length ?l + 1) :: int64) = ?n + length ?l + 1" by blast
  show ?thesis
  proof (cases "nl \<in> set ?s")
    case True
    then show ?thesis
      using Text_Next_line [OF stream _ n s] kv n len pos by (simp add: text_ok_def text_left_def)
  next
    case False
    then show ?thesis
      using Text_Next_line [OF stream _ n s] kv n len(1) pos no_line_rest [OF False] by (simp add: text_ok_def text_left_def)
  qed
qed

interpretation text_reader: record_reader Text_Next text_left text_ok
  by unfold_locales (fact text_at_end text_at_record)+

text \<open>After \<open>file_.close()\<close> nothing is left in the stream.\<close>

definition TextRecordReader_Close :: "TextRecordReader \<Rightarrow> TextRecordReader" where
  "TextRecordReader_Close r = r\<lparr>tr_file := (tr_file r)\<lparr>if_rest := []\<rparr>\<rparr>"

lemma closed_reader: "text_ok r \<Longrightarrow> \<exists>r1. Text_Next (TextRecordReader_Close r) = Inr (None, r1)"
  using text_reader.at_end [of "TextRecordReader_Close r"]
  by (auto simp: TextRecordReader_Close_def text_ok_def text_left_def getlines.simps)

definition TextInputFormat_CreateReader :: "string \<Rightarrow> files \<Rightarrow> TextRecordReader" where
  "TextInputFormat_CreateReader path fs = TextRecordReader_new (fs path)"

section \<open>Text output\<close>

text \<open>An output file stream on a path. Opening it empties the file; what is written to a stream that could not be opened
  or has been closed is lost.\<close>

record TextRecordWriter =
  tw_path :: string
  tw_open :: bool

definition TextRecordWriter_new :: "(string \<Rightarrow> bool) \<Rightarrow> string \<Rightarrow> files \<Rightarrow> TextRecordWriter \<times> files" where
  "TextRecordWriter_new can_write path fs =
     (\<lparr>tw_path = path, tw_open = can_write path\<rparr>, if can_write path then fs(path \<mapsto> []) else fs)"

definition TextRecordWriter_Write :: "string \<Rightarrow> string \<Rightarrow> TextRecordWriter \<Rightarrow> files \<Rightarrow> files" where
  "TextRecordWriter_Write key value wr fs =
     (if tw_open wr
      then fs(tw_path wr \<mapsto> (case fs (tw_path wr) of None \<Rightarrow> [] | Some content \<Rightarrow> content) @ key @ [tab] @ value @ [nl])
      else fs)"

definition TextRecordWriter_Close :: "TextRecordWriter \<Rightarrow> TextRecordWriter" where
  "TextRecordWriter_Close wr = wr\<lparr>tw_open := False\<rparr>"

definition TextOutputFormat_CreateWriter :: "(string \<Rightarrow> bool) \<Rightarrow> string \<Rightarrow> files \<Rightarrow> TextRecordWriter \<times> files" where
  "TextOutputFormat_CreateWriter can_write path fs = TextRecordWriter_new can_write path fs"

definition record_line :: "string \<times> string \<Rightarrow> string" where
  "record_line kv = fst kv @ [tab] @ snd kv"

lemma write_records:
  assumes "tw_open wr" "fs (tw_path wr) = Some content"
  shows "fold (\<lambda>(key, value). TextRecordWriter_Write key value wr) kvs fs
    = fs(tw_path wr \<mapsto> content @ concat (map (\<lambda>l. l @ [nl]) (map record_line kvs)))"
  using assms
proof (induction kvs arbitrary: fs content)
  case (Cons kv kvs)
  let ?fs = "fs(tw_path wr \<mapsto> content @ record_line kv @ [nl])"
  have "TextRecordWriter_Write (fst kv) (snd kv) wr fs = ?fs"
    using Cons.prems by (simp add: TextRecordWriter_Write_def record_line_def)
  then show ?case using Cons.IH [of ?fs "content @ record_line kv @ [nl]"] Cons.prems(1) by (simp add: case_prod_unfold fun_upd_def cong: if_cong)
qed (auto simp: fun_eq_iff)

text \<open>Writing records through \<open>TextOutputFormat\<close> and reading the file through \<open>TextInputFormat\<close>: one record for each that was
  written, in order, with key and value in one line and the offset of the line as its key.\<close>

lemma text_write_read:
  fixes fs :: files
  assumes "can_write path" "\<And>k v. (k, v) \<in> set kvs \<Longrightarrow> nl \<notin> set k \<and> nl \<notin> set v"
    and "length (concat (map (\<lambda>l. l @ [nl]) (map record_line kvs))) + 1 < 2 ^ 63" "length kvs < n"
  defines "wr \<equiv> TextOutputFormat_CreateWriter can_write path fs"
  defines "fs1 \<equiv> fold (\<lambda>(key, value). TextRecordWriter_Write key value (fst wr)) kvs (snd wr)"
  shows "read_records Text_Next (\<lambda>key value acc. Inr (acc @ [(key, value)])) n (TextInputFormat_CreateReader path fs1) []
    = Some (Inr (with_offsets 0 (map record_line kvs)))"
proof -
  let ?text = "concat (map (\<lambda>l. l @ [nl]) (map record_line kvs))"
  let ?r = "TextInputFormat_CreateReader path fs1"
  have "fs1 path = Some ?text"
    using write_records [of "fst wr" "snd wr" "[]" kvs] assms(1)
    by (simp add: fs1_def wr_def TextOutputFormat_CreateWriter_def TextRecordWriter_new_def)
  then have r: "?r = TextRecordReader_new (Some ?text)" by (simp add: TextInputFormat_CreateReader_def)
  have lines: "getlines nl ?text = map record_line kvs"
    using assms(2) by (intro getlines_concat) (auto simp: record_line_def)
  have left: "text_left ?r = with_offsets 0 (map record_line kvs)"
    unfolding r using lines by (simp add: text_left_def TextRecordReader_new_def open_in_def)
  moreover have "text_ok ?r"
    unfolding r using assms(3) by (simp add: text_ok_def TextRecordReader_new_def open_in_def)
  moreover have "length (with_offsets m ls) = length ls" for m ls by (induction ls arbitrary: m) auto
  ultimately show ?thesis using text_reader.all_records [of ?r n] assms(4) by simp
qed

end
