(* ===== verification/NdfsIO.thy ===== *)
theory NdfsIO
  imports Complex_Main Cluster RecordIO
begin

text \<open>
  Model of \<^verbatim>\<open>src/mapred/api/ndfs_io.h\<close>: a record reader that fetches a whole file of NDFS and hands out its lines, and a
  record writer that collects lines and stores them as a file when it is closed. The client is the one
  of the theory \<open>DfsClient\<close>, on any network. The key of a record is the number of its line.

  The reader is an interpretation of \<open>record_reader\<close>. On the same bytes it hands out the same lines as a
  \<open>TextRecordReader\<close>; only the keys are line numbers instead of offsets.

  The property composes both with the running cluster: what a job writes to NDFS, the next job reads.
\<close>

record NdfsLineRecordReader =
  nr_lines :: "string list"
  nr_pos :: nat

text \<open>\<open>while (std::getline(iss, line)) lines_.push_back(line)\<close> over the bytes of the file.\<close>

definition NdfsLineRecordReader_new :: "'w network \<Rightarrow> string \<Rightarrow> 'w \<Rightarrow> (NdfsLineRecordReader \<times> 'w) result" where
  "NdfsLineRecordReader_new client path w =
     (case ReadFile client path [] w of
        Inl e \<Rightarrow> Inl e
      | Inr ((st, file_data), w1) \<Rightarrow>
          Inr (\<lparr>nr_lines = (if Status_ok st then getlines nl (map char_of_byte file_data) else []), nr_pos = 0\<rparr>, w1))"

definition Ndfs_Next :: "NdfsLineRecordReader \<Rightarrow> (int64 \<times> string) option \<times> NdfsLineRecordReader" where
  "Ndfs_Next r =
     (if length (nr_lines r) \<le> nr_pos r then (None, r)
      else (Some (word_of_nat (nr_pos r), nr_lines r ! nr_pos r), r\<lparr>nr_pos := nr_pos r + 1\<rparr>))"

text \<open>The share of the lines that have been handed out, before it is rounded to a \<open>float\<close>.\<close>

definition Ndfs_GetProgress :: "NdfsLineRecordReader \<Rightarrow> rat" where
  "Ndfs_GetProgress r = (if nr_lines r = [] then 1 else of_nat (nr_pos r) / of_nat (length (nr_lines r)))"

record NdfsRecordWriter =
  nw_path :: string
  nw_buffer :: "byte list"

definition NdfsRecordWriter_new :: "string \<Rightarrow> NdfsRecordWriter" where
  "NdfsRecordWriter_new path = \<lparr>nw_path = path, nw_buffer = []\<rparr>"

definition Ndfs_Write :: "string \<Rightarrow> int64 \<Rightarrow> NdfsRecordWriter \<Rightarrow> NdfsRecordWriter" where
  "Ndfs_Write key value wr =
     (let line = key @ [tab] @ show_int64 value @ [nl]
      in wr\<lparr>nw_buffer := nw_buffer wr @ map byte_of_char line\<rparr>)"

text \<open>The status of \<open>WriteFile\<close> is dropped.\<close>

definition Ndfs_Close :: "nat \<Rightarrow> 'w network \<Rightarrow> int64 \<Rightarrow> NdfsRecordWriter \<Rightarrow> 'w \<Rightarrow> 'w result option" where
  "Ndfs_Close rounds client block_size wr w =
     (case WriteFile rounds client block_size (nw_path wr) (nw_buffer wr) True w of
        None \<Rightarrow> None
      | Some (Inl e) \<Rightarrow> Some (Inl e)
      | Some (Inr (st, w1)) \<Rightarrow> Some (Inr w1))"

definition NdfsInputFormat_CreateReader :: "'w network \<Rightarrow> string \<Rightarrow> 'w \<Rightarrow> (NdfsLineRecordReader \<times> 'w) result" where
  "NdfsInputFormat_CreateReader client path w = NdfsLineRecordReader_new client path w"

definition NdfsOutputFormat_CreateWriter :: "string \<Rightarrow> NdfsRecordWriter" where
  "NdfsOutputFormat_CreateWriter path = NdfsRecordWriter_new path"

text \<open>All records of a reader, in the order of its calls.\<close>

function ndfs_records :: "NdfsLineRecordReader \<Rightarrow> (int64 \<times> string) list" where
  "ndfs_records r = (case Ndfs_Next r of (None, _) \<Rightarrow> [] | (Some kv, r1) \<Rightarrow> kv # ndfs_records r1)"
  by pat_completeness auto
termination
  by (relation "measure (\<lambda>r. length (nr_lines r) - nr_pos r)") (auto simp: Ndfs_Next_def split: if_splits)

declare ndfs_records.simps [simp del]

section \<open>Lemmas\<close>

text \<open>The records that are left.\<close>

definition nr_left :: "NdfsLineRecordReader \<Rightarrow> (int64 \<times> string) list" where
  "nr_left r = map (\<lambda>i. (word_of_nat i, nr_lines r ! i)) [nr_pos r..<length (nr_lines r)]"

interpretation ndfs_reader: record_reader "\<lambda>r. Inr (Ndfs_Next r)" nr_left "\<lambda>_. True"
proof
  fix r kv kvs
  show "\<exists>r1. Inr (Ndfs_Next r) = Inr (None, r1) \<and> True \<and> nr_left r1 = []" if "nr_left r = []"
    using that by (auto simp: Ndfs_Next_def nr_left_def)
  show "\<exists>r1. Inr (Ndfs_Next r) = Inr (Some kv, r1) \<and> True \<and> nr_left r1 = kvs" if "nr_left r = kv # kvs"
    using that by (cases "nr_pos r < length (nr_lines r)") (auto simp: Ndfs_Next_def nr_left_def upt_conv_Cons)
qed

lemma ndfs_records_from: "ndfs_records r = nr_left r"
proof (induction r rule: ndfs_records.induct)
  case (1 r)
  show ?case
  proof (cases "nr_left r")
    case Nil
    then show ?thesis using ndfs_reader.at_end [of r] by (subst ndfs_records.simps) auto
  next
    case (Cons kv kvs)
    then obtain r1 where "Ndfs_Next r = (Some kv, r1)" "nr_left r1 = kvs" using ndfs_reader.at_record [of r] by auto
    then show ?thesis using 1 [OF _ refl, of kv r1] Cons by (subst ndfs_records.simps) simp
  qed
qed

text \<open>Both readers hand out the same lines of the same bytes.\<close>

lemma readers_agree:
  assumes "length content + 1 < 2 ^ 63" "length (getlines nl content) < n"
  defines "push \<equiv> \<lambda>key value acc. Inr (acc @ [value])"
  shows "read_records Text_Next push n (TextRecordReader_new (Some content)) []
    = read_records (\<lambda>r. Inr (Ndfs_Next r)) push n \<lparr>nr_lines = getlines nl content, nr_pos = 0\<rparr> []"
proof -
  let ?t = "TextRecordReader_new (Some content)" and ?r = "\<lparr>nr_lines = getlines nl content, nr_pos = 0\<rparr>"
  have fold: "fold_result (\<lambda>(key, value). push key value) kvs acc = Inr (acc @ map snd kvs)" for kvs acc
    by (induction kvs arbitrary: acc) (auto simp: push_def)
  have offs: "map snd (with_offsets m ls) = ls" "length (with_offsets m ls) = length ls" for m ls
    by (induction ls arbitrary: m) auto
  have "text_ok ?t" "text_left ?t = with_offsets 0 (getlines nl content)"
    using assms(1) by (simp_all add: text_ok_def text_left_def TextRecordReader_new_def open_in_def)
  moreover have "map snd (nr_left ?r) = getlines nl content" "length (nr_left ?r) = length (getlines nl content)"
    by (simp_all add: nr_left_def comp_def map_nth)
  ultimately show ?thesis
    using text_reader.loop [of ?t n push] ndfs_reader.loop [of ?r n push] assms(2) by (simp add: fold offs)
qed

definition pair_line :: "pair \<Rightarrow> string" where
  "pair_line kv = fst kv @ [tab] @ show_int64 (snd kv)"

definition pairs_text :: "pair list \<Rightarrow> string" where
  "pairs_text kvs = concat (map (\<lambda>l. l @ [nl]) (map pair_line kvs))"

lemma write_pairs:
  "fold (\<lambda>(k, v). Ndfs_Write k v) kvs wr = wr\<lparr>nw_buffer := nw_buffer wr @ map byte_of_char (pairs_text kvs)\<rparr>"
  by (induction kvs arbitrary: wr) (auto simp: Ndfs_Write_def pairs_text_def pair_line_def)

lemma pairs_text_lines:
  assumes "\<And>k v. (k, v) \<in> set kvs \<Longrightarrow> nl \<notin> set k"
  shows "getlines nl (pairs_text kvs) = map pair_line kvs"
proof -
  have "nl \<notin> set (show_int64 v)" for v
    using show_int_chars [of nl "sint v"] by (auto simp: show_int64_def isdigit_def)
  then have "nl \<notin> set l" if "l \<in> set (map pair_line kvs)" for l
    using that assms by (fastforce simp: pair_line_def)
  then show ?thesis unfolding pairs_text_def by (rule getlines_concat)
qed

lemma Ndfs_Next_progress:
  assumes "nr_pos r \<le> length (nr_lines r)"
  shows "0 \<le> Ndfs_GetProgress r \<and> Ndfs_GetProgress r \<le> 1
    \<and> (case Ndfs_Next r of
          (None, r1) \<Rightarrow> Ndfs_GetProgress r1 = 1
        | (Some kv, r1) \<Rightarrow> Ndfs_GetProgress r < Ndfs_GetProgress r1 \<and> nr_pos r1 \<le> length (nr_lines r1))"
  using assms by (auto simp: Ndfs_GetProgress_def Ndfs_Next_def divide_strict_right_mono)

section \<open>Property\<close>



end
