(* ===== verification/Cli.thy ===== *)
theory Cli
  imports DataNode JobTracker
begin

text \<open>
  Model of \<^verbatim>\<open>src/main.cpp\<close>: the command line. A command reads and writes local files, prints to the two output streams,
  works on NDFS through the client, and ends with an exit code; the two servers do not end. The record
  \<open>machine\<close> holds what the process finds on its machine: the version of the build, the
  results of system calls for sockets, the networks behind the addresses, the directory of a DataNode,
  and the parameters of the local job (hash function, \<open>std::sort\<close>, which files can be written).

  An exception that leaves \<open>main\<close> is an \<open>Inl\<close>; \<open>None\<close> means that a write takes more than the given rounds.
\<close>

record 'w machine =
  mc_version :: string
  mc_rounds :: nat
  mc_connect :: "string \<Rightarrow> int32 \<Rightarrow> bool \<times> 'w network"   \<comment> \<open>whether a NameNode answers at an address\<close>
  mc_client_fd :: int
  mc_listen :: "int32 \<Rightarrow> int \<times> bool \<times> bool"               \<comment> \<open>\<open>socket\<close>, \<open>bind\<close> and \<open>listen\<close> for a port\<close>
  mc_namenode :: NameNode                              \<comment> \<open>random numbers, clock and iteration order of a NameNode\<close>
  mc_space :: "(int64 \<times> int64) option"
  mc_entries :: "dir_entry list"
  mc_hash :: "string \<Rightarrow> 64 word"
  mc_sort :: "pair list \<Rightarrow> pair list"
  mc_can_write :: "string \<Rightarrow> bool"

record 'w shell =
  sh_files :: files
  sh_out :: string
  sh_err :: string
  sh_world :: 'w

datatype ending = Exit int32 | Aborted | ServesNameNode NameNode | ServesDataNode DataNode

definition print :: "string \<Rightarrow> 'w shell \<Rightarrow> 'w shell" where
  "print line sh = sh\<lparr>sh_out := sh_out sh @ line @ [nl]\<rparr>"

definition print_err :: "string \<Rightarrow> 'w shell \<Rightarrow> 'w shell" where
  "print_err line sh = sh\<lparr>sh_err := sh_err sh @ line @ [nl]\<rparr>"

text \<open>\<open>std::stoi\<close>.\<close>

definition stoi :: "string \<Rightarrow> int32 result" where
  "stoi s = (case stoll s of
     Inl e \<Rightarrow> Inl e
   | Inr v \<Rightarrow> if sint v < - (2 ^ 31) \<or> 2 ^ 31 \<le> sint v then Inl OutOfRange else Inr (word_of_int (sint v)))"

section \<open>NDFS commands\<close>

definition dfs_put :: "nat \<Rightarrow> 'w network \<Rightarrow> string \<Rightarrow> string \<Rightarrow> 'w shell \<Rightarrow> (ending \<times> 'w shell) result option" where
  "dfs_put rounds client local_path remote sh =
     (case sh_files sh local_path of
        None \<Rightarrow> Some (Inr (Exit 1, print_err (''Cannot open: '' @ local_path) sh))
      | Some content \<Rightarrow>
          let data = map byte_of_char content
          in case WriteFile rounds client (word_of_nat kDefaultBlockSize) remote data True (sh_world sh) of
               None \<Rightarrow> None
             | Some (Inl e) \<Rightarrow> Some (Inl e)
             | Some (Inr (st, w)) \<Rightarrow>
                 let sh1 = sh\<lparr>sh_world := w\<rparr>
                 in Some (Inr (if \<not> Status_ok st then (Exit 1, print_err (''Write failed: '' @ status_msg st) sh1)
                    else (Exit 0, print (''Written '' @ show_nat (length data) @ '' bytes to '' @ remote) sh1))))"

text \<open>A local file that cannot be written goes unnoticed.\<close>

definition dfs_get :: "(string \<Rightarrow> bool) \<Rightarrow> 'w network \<Rightarrow> string \<Rightarrow> string \<Rightarrow> 'w shell \<Rightarrow> (ending \<times> 'w shell) result" where
  "dfs_get can_write client remote local_path sh =
     (case ReadFile client remote [] (sh_world sh) of
        Inl e \<Rightarrow> Inl e
      | Inr ((st, data), w) \<Rightarrow>
          let sh1 = sh\<lparr>sh_world := w\<rparr>
          in Inr (if \<not> Status_ok st then (Exit 1, print_err (''Read failed: '' @ status_msg st) sh1)
             else (Exit 0, print (''Read '' @ show_nat (length data) @ '' bytes from '' @ remote)
               (if can_write local_path then sh1\<lparr>sh_files := (sh_files sh1)(local_path \<mapsto> map char_of_byte data)\<rparr> else sh1))))"

definition dfs_ls :: "'w network \<Rightarrow> string \<Rightarrow> 'w shell \<Rightarrow> (ending \<times> 'w shell) result" where
  "dfs_ls client path sh =
     (case client_List client path (sh_world sh) of
        Inl e \<Rightarrow> Inl e
      | Inr (items, w) \<Rightarrow> Inr (Exit 0, fold print items (sh\<lparr>sh_world := w\<rparr>)))"

text \<open>The exit code is 0 even if the operation fails.\<close>

definition dfs_rm :: "'w network \<Rightarrow> string \<Rightarrow> 'w shell \<Rightarrow> (ending \<times> 'w shell) result" where
  "dfs_rm client path sh =
     (case client_Delete client path (sh_world sh) of
        Inl e \<Rightarrow> Inl e
      | Inr (st, w) \<Rightarrow>
          let sh1 = sh\<lparr>sh_world := w\<rparr>
          in Inr (Exit 0, if \<not> Status_ok st then print_err (''Delete failed: '' @ status_msg st) sh1 else print ''Deleted'' sh1))"

definition dfs_mkdir :: "'w network \<Rightarrow> string \<Rightarrow> 'w shell \<Rightarrow> (ending \<times> 'w shell) result" where
  "dfs_mkdir client path sh =
     (case client_Mkdirs client path (sh_world sh) of
        Inl e \<Rightarrow> Inl e
      | Inr (st, w) \<Rightarrow>
          let sh1 = sh\<lparr>sh_world := w\<rparr>
          in Inr (Exit 0, if \<not> Status_ok st then print_err (''Mkdir failed: '' @ status_msg st) sh1 else print ''Created'' sh1))"

text \<open>\<open>argv\<close> is the whole command line, with the name of the program first.\<close>

definition dfs_main :: "'w machine \<Rightarrow> string list \<Rightarrow> 'w shell \<Rightarrow> (ending \<times> 'w shell) result option" where
  "dfs_main mc argv sh =
     (let argc = length argv; (reachable, client) = mc_connect mc ''127.0.0.1'' 9000 in
      if argc < 3 then Some (Inr (Exit 1, print_err ''Usage: mini-hadoop dfs <put|get|ls|rm|mkdir> [args]'' sh))
      else if \<not> reachable then Some (Inr (Exit 1, print_err ''Cannot connect to NameNode'' sh))
      else let op = argv ! 2 in
        if op = ''put'' \<and> 5 \<le> argc then dfs_put (mc_rounds mc) client (argv ! 3) (argv ! 4) sh
        else if op = ''get'' \<and> 5 \<le> argc then Some (dfs_get (mc_can_write mc) client (argv ! 3) (argv ! 4) sh)
        else if op = ''ls'' then Some (dfs_ls client (if 3 < argc then argv ! 3 else ''/'') sh)
        else if op = ''rm'' \<and> 3 < argc then Some (dfs_rm client (argv ! 3) sh)
        else if op = ''mkdir'' \<and> 3 < argc then Some (dfs_mkdir client (argv ! 3) sh)
        else Some (Inr (Exit 0, sh)))"

section \<open>The other commands\<close>

text \<open>The result of \<open>RunJob\<close> is not looked at.\<close>

definition wordcount_main :: "'w machine \<Rightarrow> string list \<Rightarrow> 'w shell \<Rightarrow> (ending \<times> 'w shell) result" where
  "wordcount_main mc argv sh =
     (if length argv < 4 then Inr (Exit 1, print_err ''Usage: mini-hadoop wordcount <input> <output>'' sh)
      else let config = (jt_config JobTracker_new)\<lparr>input_path := argv ! 2, output_path := argv ! 3, num_reduce_tasks := 1\<rparr>;
               tracker = snd (SubmitJob config (Some WordCountMapper_Map) (Some WordCountReducer_Reduce) None JobTracker_new)
           in case RunJob (mc_hash mc) (mc_sort mc) (mc_can_write mc) tracker (sh_files sh) of
                Inl e \<Rightarrow> Inl e
              | Inr (_, fs) \<Rightarrow> Inr (Exit 0, print (''WordCount done, output: '' @ output_path config) (sh\<lparr>sh_files := fs\<rparr>)))"

definition usage :: "string list" where
  "usage = [''Usage: mini-hadoop <command> [args...]'', ''Commands:'', ''  version           Show version'',
     ''  namenode [port]   Start NameNode (default port 9000)'', ''  datanode [nn_host] [nn_port] [bs_port]'',
     ''  dfs <op> [args]   NDFS client operations'', ''  wordcount <input> <output>  Run WordCount'']"

definition arg_int :: "string list \<Rightarrow> nat \<Rightarrow> int32 \<Rightarrow> int32 result" where
  "arg_int argv i dflt = (if i < length argv then stoi (argv ! i) else Inr dflt)"

definition namenode_main :: "'w machine \<Rightarrow> string list \<Rightarrow> 'w shell \<Rightarrow> (ending \<times> 'w shell) result" where
  "namenode_main mc argv sh =
     (case arg_int argv 2 9000 of
        Inl e \<Rightarrow> Inl e
      | Inr port \<Rightarrow>
          (case NameNode_new ''/tmp/mini-hadoop-nn/fsimage'' (sh_files sh) (mc_namenode mc) of
             Inl e \<Rightarrow> Inl e
           | Inr nn \<Rightarrow>
               let (fd, binds, listens) = mc_listen mc port;
                   (ok, nn1) = NameNode_Start fd binds listens nn
               in Inr (if ok then ServesNameNode nn1 else Exit 1, sh)))"

text \<open>When \<open>Start\<close> fails, \<open>main\<close> returns and the DataNode is destroyed; a running transfer server then ends the process.\<close>

definition datanode_main :: "'w machine \<Rightarrow> string list \<Rightarrow> 'w shell \<Rightarrow> (ending \<times> 'w shell) result" where
  "datanode_main mc argv sh =
     (let nn_host = (if 2 < length argv then argv ! 2 else ''127.0.0.1'')
      in case arg_int argv 3 9000 of
           Inl e \<Rightarrow> Inl e
         | Inr nn_port \<Rightarrow>
             (case arg_int argv 4 9010 of
                Inl e \<Rightarrow> Inl e
              | Inr bs_port \<Rightarrow>
                  let (fd, binds, listens) = mc_listen mc bs_port;
                      (connects, net) = mc_connect mc nn_host nn_port;
                      sk = \<lparr>sk_listen = fd, sk_binds = binds, sk_listens = listens, sk_client = mc_client_fd mc, sk_connects = connects\<rparr>
                  in case DataNode_Start sk net (mc_space mc) (mc_entries mc) (DataNode_new bs_port (mc_space mc)) (sh_world sh) of
                       Inl e \<Rightarrow> Inl e
                     | Inr (ok, dn, w) \<Rightarrow>
                         Inr (if ok then ServesDataNode dn else if Xceive_destroy (dnode_xceiver dn) then Exit 1 else Aborted,
                              sh\<lparr>sh_world := w\<rparr>)))"

definition main :: "'w machine \<Rightarrow> string list \<Rightarrow> 'w shell \<Rightarrow> (ending \<times> 'w shell) result option" where
  "main mc argv sh =
     (if length argv < 2 then Some (Inr (Exit 1, fold print_err usage sh))
      else let cmd = argv ! 1 in
        if cmd = ''version'' then Some (Inr (Exit 0, print (''mini-hadoop version '' @ mc_version mc) sh))
        else if cmd = ''namenode'' then Some (namenode_main mc argv sh)
        else if cmd = ''datanode'' then Some (datanode_main mc argv sh)
        else if cmd = ''dfs'' then dfs_main mc argv sh
        else if cmd = ''wordcount'' then Some (wordcount_main mc argv sh)
        else Some (Inr (Exit 1, print_err (''Unknown command: '' @ cmd) sh)))"

section \<open>Lemmas\<close>

lemma print_simps [simp]:
  "sh_files (print l sh) = sh_files sh" "sh_world (print l sh) = sh_world sh" "sh_err (print l sh) = sh_err sh"
  "sh_out (print l sh) = sh_out sh @ l @ [nl]"
  by (simp_all add: print_def)

text \<open>Negative results: a missing argument or an unknown operation of \<open>dfs\<close> does nothing and reports success.\<close>

lemma dfs_missing_argument:
  assumes "fst (mc_connect mc ''127.0.0.1'' 9000)"
  shows "main mc [prog, ''dfs'', ''put'', local_path] sh = Some (Inr (Exit 0, sh))"
    "op \<notin> {''put'', ''get'', ''ls'', ''rm'', ''mkdir''} \<Longrightarrow> main mc (prog # ''dfs'' # op # args) sh = Some (Inr (Exit 0, sh))"
  using assms by (simp_all add: main_def dfs_main_def split_def)

text \<open>A DataNode whose NameNode cannot be reached does not exit with 1, it is aborted.\<close>

lemma datanode_unreachable:
  assumes "mc_listen mc 9010 = (fd, True, True)" "0 \<le> fd" "\<not> fst (mc_connect mc ''127.0.0.1'' 9000)"
  shows "main mc [prog, ''datanode''] sh = Some (Inr (Aborted, sh))"
proof -
  let ?sk = "\<lparr>sk_listen = fd, sk_binds = True, sk_listens = True, sk_client = mc_client_fd mc, sk_connects = False\<rparr>"
  obtain net where net: "mc_connect mc ''127.0.0.1'' 9000 = (False, net)" using assms(3) by (cases "mc_connect mc ''127.0.0.1'' 9000") simp
  obtain dn where "DataNode_Start ?sk net (mc_space mc) (mc_entries mc) (DataNode_new 9010 (mc_space mc)) (sh_world sh) = Inr (False, dn, sh_world sh)"
      "\<not> Xceive_destroy (dnode_xceiver dn)"
    using start_without_namenode [of ?sk net "mc_space mc" "mc_entries mc" "DataNode_new 9010 (mc_space mc)" "sh_world sh"] assms(2) by auto
  then show ?thesis using assms(1) net by (simp add: main_def datanode_main_def arg_int_def)
qed

lemma put_on_cluster:
  fixes sh :: "cluster shell"
  assumes "sh_files sh local_path = Some content" "content \<noteq> []" "length content < 2 ^ 63"
    and "ready remote True (nblocks kDefaultBlockSize (length content)) (sh_world sh)" "nblocks kDefaultBlockSize (length content) < rounds"
    and "nblocks kDefaultBlockSize (length content) * (length (enc_dns (nn_targets (cl_nn (sh_world sh)))) + 24) + 4 < 2 ^ 31"
  obtains w w' where "dfs_put rounds cluster_network local_path remote sh
      = Some (Inr (Exit 0, print (''Written '' @ show_nat (length content) @ '' bytes to '' @ remote) (sh\<lparr>sh_world := w\<rparr>)))"
    "ReadFile cluster_network remote [] w = Inr ((Status_OK, map byte_of_char content), w')"
proof -
  have bs: "unat (word_of_nat kDefaultBlockSize :: int64) = kDefaultBlockSize" "0 < kDefaultBlockSize"
    by (simp_all add: kDefaultBlockSize_def)
  obtain w w' where "WriteFile rounds cluster_network (word_of_nat kDefaultBlockSize) remote (map byte_of_char content) True (sh_world sh)
      = Some (Inr (Status_OK, w))" "ReadFile cluster_network remote [] w = Inr ((Status_OK, map byte_of_char content), w')"
    using ready_write_read [of remote True "word_of_nat kDefaultBlockSize" "map byte_of_char content" "sh_world sh" rounds "[]"] assms bs by auto
  then show thesis using that assms(1) by (simp add: dfs_put_def)
qed

section \<open>Properties\<close>

text \<open>C8. Up and down again: with a NameNode that can be reached and a cluster that is ready for the remote path,
  \<open>mini-hadoop dfs put a r\<close> followed by \<open>mini-hadoop dfs get r b\<close> exits with 0 twice, leaves in \<open>b\<close> a copy
  of the non-empty file \<open>a\<close>, changes no other local file, prints the number of bytes both times and nothing to the
  error stream.\<close>

theorem cli_put_get:
  fixes sh :: "cluster shell"
  assumes "mc_connect mc ''127.0.0.1'' 9000 = (True, cluster_network)" "mc_can_write mc b"
    and "sh_files sh a = Some content" "content \<noteq> []" "length content < 2 ^ 63"
    and "ready r True (nblocks kDefaultBlockSize (length content)) (sh_world sh)" "nblocks kDefaultBlockSize (length content) < mc_rounds mc"
    and "nblocks kDefaultBlockSize (length content) * (length (enc_dns (nn_targets (cl_nn (sh_world sh)))) + 24) + 4 < 2 ^ 31"
  shows "\<exists>sh1 sh2. main mc [prog, ''dfs'', ''put'', a, r] sh = Some (Inr (Exit 0, sh1))
    \<and> main mc [prog, ''dfs'', ''get'', r, b] sh1 = Some (Inr (Exit 0, sh2))
    \<and> sh_files sh2 = (sh_files sh)(b \<mapsto> content) \<and> sh_err sh2 = sh_err sh
    \<and> sh_out sh2 = sh_out sh @ ''Written '' @ show_nat (length content) @ '' bytes to '' @ r @ [nl]
        @ ''Read '' @ show_nat (length content) @ '' bytes from '' @ r @ [nl]"
proof -
  obtain w w' where put: "dfs_put (mc_rounds mc) cluster_network a r sh
      = Some (Inr (Exit 0, print (''Written '' @ show_nat (length content) @ '' bytes to '' @ r) (sh\<lparr>sh_world := w\<rparr>)))"
    "ReadFile cluster_network r [] w = Inr ((Status_OK, map byte_of_char content), w')"
    using put_on_cluster [OF assms(3-8)] by blast
  let ?sh1 = "print (''Written '' @ show_nat (length content) @ '' bytes to '' @ r) (sh\<lparr>sh_world := w\<rparr>)"
  let ?sh2 = "print (''Read '' @ show_nat (length content) @ '' bytes from '' @ r)
    (?sh1\<lparr>sh_world := w', sh_files := (sh_files sh)(b \<mapsto> content)\<rparr>)"
  have "main mc [prog, ''dfs'', ''put'', a, r] sh = Some (Inr (Exit 0, ?sh1))"
    using put(1) assms(1) by (simp add: main_def dfs_main_def)
  moreover have "main mc [prog, ''dfs'', ''get'', r, b] ?sh1 = Some (Inr (Exit 0, ?sh2))"
    using put(2) assms(1,2) by (simp add: main_def dfs_main_def dfs_get_def comp_def)
  moreover have "sh_files ?sh2 = (sh_files sh)(b \<mapsto> content)" "sh_err ?sh2 = sh_err sh"
    "sh_out ?sh2 = sh_out sh @ ''Written '' @ show_nat (length content) @ '' bytes to '' @ r @ [nl]
        @ ''Read '' @ show_nat (length content) @ '' bytes from '' @ r @ [nl]"
    by simp_all
  ultimately show ?thesis by blast
qed

definition sample_machine :: "cluster machine" where
  "sample_machine = \<lparr>mc_version = ''1'', mc_rounds = 2, mc_connect = (\<lambda>_ _. (True, cluster_network)), mc_client_fd = 5,
     mc_listen = (\<lambda>_. (3, True, True)), mc_namenode = sample_nn, mc_space = None, mc_entries = [], mc_hash = (\<lambda>_. 0),
     mc_sort = sort_key fst, mc_can_write = (\<lambda>_. True)\<rparr>"

theorem cli_put_get_witness:
  "\<exists>sh1 sh2. main sample_machine [''mini-hadoop'', ''dfs'', ''put'', ''a'', ''/d/f'']
      \<lparr>sh_files = [''a'' \<mapsto> ''hello''], sh_out = [], sh_err = [], sh_world = sample_cluster\<rparr> = Some (Inr (Exit 0, sh1))
    \<and> main sample_machine [''mini-hadoop'', ''dfs'', ''get'', ''/d/f'', ''b''] sh1 = Some (Inr (Exit 0, sh2))
    \<and> sh_files sh2 = [''a'' \<mapsto> ''hello'', ''b'' \<mapsto> ''hello''] \<and> sh_err sh2 = []"
proof -
  let ?sh = "\<lparr>sh_files = [''a'' \<mapsto> ''hello''], sh_out = [], sh_err = [], sh_world = sample_cluster\<rparr>"
  have "nblocks kDefaultBlockSize (length ''hello'') = 1" by (simp add: nblocks_def kDefaultBlockSize_def)
  moreover have "nn_targets (cl_nn sample_cluster) = nn_targets sample_nn" by (simp add: sample_cluster_def)
  moreover have "mc_connect sample_machine ''127.0.0.1'' 9000 = (True, cluster_network)" "mc_can_write sample_machine ''b''" "mc_rounds sample_machine = 2"
    by (simp_all add: sample_machine_def)
  ultimately show ?thesis
    using cli_put_get [of sample_machine "''b''" ?sh "''a''" "''hello''" "''/d/f''" "''mini-hadoop''"]
      ready_overwrite [OF sample_ready [of 1]] by (simp add: sample_targets_enc) blast
qed

text \<open>The command for word count runs the local job: exit code 0, and the output file holds the counts.\<close>

theorem cli_wordcount:
  assumes "sorts (mc_sort mc)" "sh_files sh input = Some content" "length content + 1 < 2 ^ 63" "mc_can_write mc output"
  shows "main mc [prog, ''wordcount'', input, output] sh
    = Some (Inr (Exit 0, print (''WordCount done, output: '' @ output) (sh\<lparr>sh_files := (sh_files sh)(output \<mapsto>
        concat (map (\<lambda>w. w @ [tab] @ show_nat (count_list (extract_words content) w) @ [nl])
          (sorted_list_of_set (set (extract_words content)))))\<rparr>)))"
proof -
  let ?config = "(jt_config JobTracker_new)\<lparr>input_path := input, output_path := output, num_reduce_tasks := 1\<rparr>"
  let ?jt = "snd (SubmitJob ?config (Some WordCountMapper_Map) (Some WordCountReducer_Reduce) None JobTracker_new)"
  have jt: "jt_config ?jt = ?config" "jt_mapper ?jt = Some WordCountMapper_Map" "jt_reducer ?jt = Some WordCountReducer_Reduce"
    by (simp_all add: SubmitJob_def)
  have "RunJob (mc_hash mc) (mc_sort mc) (mc_can_write mc) ?jt (sh_files sh) = Inr ((True, ?jt\<lparr>jt_done := True\<rparr>), (sh_files sh)(output \<mapsto>
        concat (map (\<lambda>w. w @ [tab] @ show_nat (count_list (extract_words content) w) @ [nl])
          (sorted_list_of_set (set (extract_words content))))))"
    using RunJob_counts [OF assms(1), of ?jt "sh_files sh" content "mc_can_write mc" "mc_hash mc"] assms(2-4) jt by simp
  then show ?thesis by (simp add: main_def wordcount_main_def)
qed

end
