(* ===== verification/Spec2Isabelle.thy ===== *)
theory Spec2Isabelle
  imports DataNode SequenceFile NamesystemLaws ClientOps DistCluster TrackerProcess NdfsIO Cli
begin

text \<open>
  \<^bold>\<open>mini-hadoop: a verification library\<close>

  The program (C++, \<^verbatim>\<open>src/src\<close>) is a small Hadoop: a distributed file system (NDFS) with one NameNode
  and DataNodes, MapReduce jobs that run locally or on task trackers, an RPC layer under both, and a
  command line. This library models the code function by function and proves what makes it correct.

  \<^bold>\<open>The parts and their theories\<close>

  \<^item> \<open>Prelude\<close>: machine integers, exceptions as values of a sum type, \<open>Status\<close> (\<^verbatim>\<open>common/error.h\<close>), unordered maps with an
    arbitrary order of iteration, lists and words. \<open>Text\<close>: what the sources use of C++ strings and
    streams (lines, words, \<open>std::to_string\<close>, \<open>std::stoll\<close>). \<open>Sums\<close>: loops that add up 64-bit integers, with the overflow.
  \<^item> \<open>ByteOrder\<close>, \<open>Buffer\<close> (\<^verbatim>\<open>io/buffer.h\<close>): the serialisation buffers, byte by byte, with the bounds check in 64-bit
    arithmetic. The locale \<open>codec\<close> is the interface of a serialised type; every wire format of the
    library is an interpretation. \<open>Writables\<close> (\<^verbatim>\<open>io/writable.h\<close>, \<^verbatim>\<open>io/writable_types.h\<close>, \<^verbatim>\<open>io/md5.h\<close>) and
    \<open>SequenceFile\<close> (\<^verbatim>\<open>io/sequence_file.h\<close>) are on top of it.
  \<^item> \<open>Rpc\<close> (\<^verbatim>\<open>ipc/client.h\<close>, \<^verbatim>\<open>ipc/server.h\<close>): a connection is a stream that arrives in arbitrary pieces and may
    break; calls, the loop of a connection and the dispatch to handlers. \<open>RpcExchange\<close> runs both ends against each
    other. \<open>AcceptQueue\<close> and \<open>RpcQueue\<close>: acceptor and workers of a server as a step relation.
  \<^item> \<open>InodeTree\<close> (\<^verbatim>\<open>ndfs/inode_tree.h\<close>), with the abstract view \<open>namespace\<close>, a map from paths to entries, and the locale
    \<open>file_namespace\<close>; \<open>FsImage\<close> (\<^verbatim>\<open>ndfs/fsimage.h\<close>); \<open>FsNamesystem\<close>, \<open>NamesystemLaws\<close> (\<^verbatim>\<open>ndfs/fs_namesystem.h\<close>, \<^verbatim>\<open>block.h\<close>,
    \<^verbatim>\<open>datanode_info.h\<close>): the state of the NameNode; \<open>NdfsProtocol\<close>, \<open>NameNode\<close> (\<^verbatim>\<open>ndfs/name_node.h\<close>): its eleven handlers.
  \<^item> \<open>BlockStorage\<close>, \<open>DataXceive\<close>, \<open>XceiveServer\<close>, \<open>DataNode\<close> (\<^verbatim>\<open>ndfs/block_storage.h\<close>, \<^verbatim>\<open>data_xceive_server.h\<close>,
    \<^verbatim>\<open>data_node.h\<close>): a DataNode, from its files to its block transfers, threads and reports.
  \<^item> \<open>DfsClient\<close>, \<open>ClientLaws\<close>, \<open>ClientOps\<close> (\<^verbatim>\<open>ndfs/dfs_client.h\<close>): the client on an abstract network; the locale \<open>cluster_net\<close>
    states what it relies on. \<open>Cluster\<close> builds such a network from the models of the servers and interprets
    the locale, so that the properties are about the whole path from a client's call to the disks.
  \<^item> \<open>MapApi\<close>, \<open>RecordIO\<close> (\<^verbatim>\<open>mapred/api/input_format.h\<close>, \<^verbatim>\<open>mapper.h\<close>; the locale \<open>record_reader\<close> is the interface of both record readers), \<open>WordCount\<close> (\<^verbatim>\<open>mapred/examples/wordcount.h\<close>),
    \<open>JobTracker\<close> (\<^verbatim>\<open>mapred/job_tracker.h\<close>): local jobs; the locale \<open>summing\<close> is the contract of a reducer that adds up.
  \<^item> \<open>DistJobTracker\<close>, \<open>TaskTracker\<close>, \<open>TrackerProcess\<close> (\<^verbatim>\<open>mapred/dist_job_tracker.h\<close>, \<^verbatim>\<open>task_tracker.h\<close>): the two ends of
    distributed jobs, and start, stop and destruction of their processes; \<open>DistCluster\<close> is the system of one job tracker and any number of task trackers.
  \<^item> \<open>NdfsIO\<close> (\<^verbatim>\<open>mapred/api/ndfs_io.h\<close>): records in NDFS files. \<open>Cli\<close> (\<^verbatim>\<open>main.cpp\<close>): the commands.

  \<^bold>\<open>How code becomes definitions\<close>

  Classes are records and enumerations are datatypes with the names of the source; a method is a
  function from the state before to the result and the state after. Exceptions are \<open>Inl\<close>, undefined behaviour is the
  exception \<open>Undefined\<close>, and integers keep their width. What the program cannot control is an argument: the pieces in which bytes arrive,
  the results of system calls, the clock, random numbers, the order of hash tables, the hash
  function, what \<open>std::sort\<close> does with equal keys, MD5. Where threads share state, what one
  thread does under the lock is one step of an \<open>inductive\<close> relation, and the properties hold for all interleavings.

  \<^bold>\<open>What is proved\<close>

  \<^item> File system: what a client writes it reads back, through the wire formats, the tree, the block map and the
    disks; creating, extending, deleting and listing files on the abstract namespace; an invariant of all
    reachable states of the namesystem, kept by any bytes that a client may send (with one overflow, in the statistics); saving and loading the image
    gives back the same tree; a DataNode that starts is registered with its blocks.
  \<^item> RPC: a call delivers, bad requests are answered or end the connection, and no connection is lost or served twice.
  \<^item> Serialisation: round trips of all types and of sequence files, memory safety of all reads, total orders.
  \<^item> MapReduce: a local job groups by key whatever the number of reducers, the hash function and the sort; word
    count counts words; the distributed job follows its plan, never leaves a partial output under any
    interleaving, and can always be finished.
  \<^item> Commands: a file that is put and got is the same file.
  \<^item> Errors: a refused write reports success, only the first target of a block gets the data, a job
    with missing input succeeds; these and others are also listed with the manifest of this library.

  \<^bold>\<open>Bounds\<close>

  \<open>WriteFile\<close> takes a number of rounds, since its loop does not end for a block size of 0; one round more than there are
  blocks is enough, and the properties say so. The number of requests that a connection serves is
  bounded in \<open>HandleConnection\<close> (the loop ends when the peer closes). The properties of whole systems ask that messages fit the formats:
  lengths below \<open>2^31\<close>, messages of at most 64 MB; those of distributed jobs ask for inputs below \<open>2^27\<close> bytes, at most \<open>2^20\<close> map
  tasks and fewer than \<open>2^31\<close> steps, so that no counter overflows.

  \<^bold>\<open>Not modelled\<close>

  Log messages. The operating system's side of sockets, threads and files beyond the results of
  calls. Failures of memory allocation. Two calls at the same time on the one connection of a task tracker to its
  job tracker, which the code does not exclude: calls are atomic steps. \<open>SpecLoop\<close>, which the thread of \<open>DistJobTracker\<close> runs, and the counter that
  \<open>SpeculativeLaunched\<close> returns: neither is declared in the repository. That the data directory of a DataNode cannot be created. Tests, build files
  and configuration. The abstract base classes of \<^verbatim>\<open>mapred/api\<close> have no code.
\<close>

end
